(* ===== verification/Prelude.thy ===== *)
theory Prelude
  imports Main "HOL-Library.Word"
begin

section \<open>Prelude: machine types, bit operations and list lemmas\<close>

text \<open>
  The types every component shares and the generic lemmas the component proofs rest on.
  The program is compiled for 64-bit targets: \<open>usize\<close> is 64 bits wide and a
  \<open>Vec\<close> never holds more than \<open>isize::MAX\<close> bytes.  Indices and lengths
  (\<open>usize\<close>) are natural numbers in the model: the places where they are narrowed to
  \<open>u32\<close> or \<open>u64\<close> say so with \<open>word_of_nat\<close>, and the only
  place where a peer chooses a \<open>usize\<close> (the block size of a signature message) is
  bounded by the allocation of the rolling window (see Rolling_Hash).
\<close>

unbundle bit_operations_syntax

type_synonym byte = "8 word"
type_synonym u32 = "32 word"
type_synonym u64 = "64 word"
type_synonym i32 = "32 word"
type_synonym i64 = "64 word"

text \<open>A path and a string are the bytes the operating system keeps for them.\<close>

type_synonym PathBuf = string

definition isize_max :: nat where
  "isize_max = 2 ^ 63 - 1"

text \<open>
  The collections the proofs draw from: \<open>delta_simps\<close> for the transfer of literals
  and blocks, \<open>path_simps\<close> for path components, \<open>fs_simps\<close> for the file
  system, \<open>plan_simps\<close> for the comparison of two states.
\<close>

named_theorems delta_simps "sending and applying deltas"
named_theorems path_simps "path components"
named_theorems fs_simps "the file system"
named_theorems plan_simps "comparing two states"

subsection \<open>Slices\<close>

text \<open>\<open>&data[i..i + n]\<close>, for a range that lies inside the data.\<close>

definition slice_at :: "'a list \<Rightarrow> nat \<Rightarrow> nat \<Rightarrow> 'a list" where
  "slice_at xs i n = take n (drop i xs)"

lemma length_slice_at [simp]: "length (slice_at xs i n) = min n (length xs - i)"
  by (simp add: slice_at_def)

lemma slice_at_0 [simp]: "slice_at xs i 0 = []"
  by (simp add: slice_at_def)

lemma slice_at_full: "length xs \<le> n \<Longrightarrow> slice_at xs 0 n = xs"
  by (simp add: slice_at_def)

lemma take_append_slice: "take i xs @ slice_at xs i n = take (i + n) xs"
  by (simp add: slice_at_def take_add)

lemma slice_at_Suc_right: "i + n < length xs \<Longrightarrow> slice_at xs i (Suc n) = slice_at xs i n @ [xs ! (i + n)]"
  by (simp add: slice_at_def take_Suc_conv_app_nth)

lemma slice_at_Suc_left: "i < length xs \<Longrightarrow> slice_at xs i (Suc n) = xs ! i # slice_at xs (Suc i) n"
  by (simp add: slice_at_def Cons_nth_drop_Suc [symmetric])

text \<open>A window of positive length that moves one position to the right.\<close>

lemma slice_at_shift:
  assumes "0 < n" and "Suc i + n \<le> length xs"
  shows "slice_at xs (Suc i) n = tl (slice_at xs i n) @ [xs ! (i + n)]"
proof -
  obtain m where m: "n = Suc m" using assms(1) by (cases n) auto
  have "slice_at xs (Suc i) (Suc m) = slice_at xs (Suc i) m @ [xs ! (Suc i + m)]"
    using assms(2) by (intro slice_at_Suc_right) (simp add: m)
  moreover have "tl (slice_at xs i (Suc m)) = slice_at xs (Suc i) m"
    using assms(2) by (simp add: slice_at_Suc_left)
  ultimately show ?thesis by (simp add: m)
qed

subsection \<open>Options\<close>

lemma option_eqI: "(\<And>e. x = Some e \<longleftrightarrow> y = Some e) \<Longrightarrow> x = y"
  by (cases x; cases y) auto

subsection \<open>Signed words\<close>

lemma sint_word_of_int_64: "- (2 ^ 63) \<le> x \<Longrightarrow> x < 2 ^ 63 \<Longrightarrow> sint (word_of_int x :: i64) = x"
  by (simp add: int_word_sint)

lemma sint_word_of_int_32: "- (2 ^ 31) \<le> x \<Longrightarrow> x < 2 ^ 31 \<Longrightarrow> sint (word_of_int x :: i32) = x"
  by (simp add: int_word_sint)

subsection \<open>Bit rotation\<close>

lemma word_rotl_rotl: "word_rotl m (word_rotl n (w :: 'a::len word)) = word_rotl (m + n) w"
proof -
  have "word_rotr n (word_rotr m (word_rotl (m + n) w)) = w"
    by (simp add: word_rotr_word_rotr_eq add.commute)
  then have "word_rotr m (word_rotl (m + n) w) = word_rotl n w"
    by (metis word_rot_rl)
  then show ?thesis
    by (metis word_rot_rl)
qed

lemma xor_cancel_left [simp]: "(a XOR b) XOR a = (b :: 'a::len word)"
  by (rule bit_word_eqI) (auto simp: bit_simps)

lemma xor_cancel_both [simp]: "(a XOR b) XOR (a XOR c) = b XOR (c :: 'a::len word)"
  by (rule bit_word_eqI) (auto simp: bit_simps)

end
