(* ===== verification/Error_Values.thy ===== *)
theory Error_Values
  imports Prelude
begin

section \<open>Errors, panics and their propagation\<close>

text \<open>
  Models src/utils/error.rs.  The variants are the source's; the text a foreign error
  carries (and the text \<open>SendError\<close>, \<open>CryptoError\<close> are built with) is
  formatting and is left out.  \<open>io_error\<close> is the part of
  \<open>std::io::ErrorKind\<close> the code distinguishes or the file system model produces.
  A function that can fail returns \<open>failure + 'a\<close>: \<open>Inl (Err e)\<close> is the
  \<open>Err(e)\<close> of the source, \<open>Inl Panic\<close> a panic of the running task.
\<close>

datatype io_error =
    NotFound
  | PermissionDenied
  | NotADirectory
  | IsADirectory
  | AlreadyExists
  | InvalidInput
  | InvalidData
  | OtherIo

datatype HarmonicError =
    PathError PathBuf
  | PathIntegrityError PathBuf PathBuf
  | Uuid
  | Json
  | TomlDeserError
  | TomlSerError
  | ConfigError
  | Io io_error
  | StringInvalid
  | SystemTime
  | FileMetadataError
  | InvalidInputError
  | SendError
  | CryptoError
  | UriError
  | TranksportError
  | GrpcStatus
  | NotFoundError

text \<open>\<open>Foreign\<close> is an error of another crate that is passed on as it is (by anyhow).\<close>

datatype failure = Err HarmonicError | Foreign | Panic

type_synonym 'a outcome = "failure + 'a"

text \<open>The \<open>?\<close> operator: stop at the first failure.\<close>

fun and_then :: "'a outcome \<Rightarrow> ('a \<Rightarrow> 'b outcome) \<Rightarrow> 'b outcome" where
  "and_then (Inl e) f = Inl e"
| "and_then (Inr x) f = f x"

lemma and_then_Inr_iff: "and_then r f = Inr y \<longleftrightarrow> (\<exists>x. r = Inr x \<and> f x = Inr y)"
  by (cases r) auto

lemma and_then_Inl_iff:
  "and_then r f = Inl e \<longleftrightarrow> r = Inl e \<or> (\<exists>x. r = Inr x \<and> f x = Inl e)"
  by (cases r) auto

lemma and_then_assoc: "and_then (and_then r f) g = and_then r (\<lambda>x. and_then (f x) g)"
  by (cases r) auto

text \<open>\<open>From<std::io::Error>\<close>: an I/O result used with \<open>?\<close>.\<close>

definition from_io :: "io_error + 'a \<Rightarrow> 'a outcome" where
  "from_io r = (case r of Inl e \<Rightarrow> Inl (Err (Io e)) | Inr x \<Rightarrow> Inr x)"

lemma from_io_simps [simp]:
  "from_io (Inl e) = Inl (Err (Io e))"
  "from_io (Inr x) = Inr x"
  by (simp_all add: from_io_def)

lemma from_io_Inr_iff: "from_io r = Inr x \<longleftrightarrow> r = Inr x"
  by (cases r) simp_all

text \<open>\<open>Option::ok_or\<close>.\<close>

definition ok_or :: "HarmonicError \<Rightarrow> 'a option \<Rightarrow> 'a outcome" where
  "ok_or e x = (case x of None \<Rightarrow> Inl (Err e) | Some y \<Rightarrow> Inr y)"

lemma ok_or_simps [simp]:
  "ok_or e None = Inl (Err e)"
  "ok_or e (Some y) = Inr y"
  by (simp_all add: ok_or_def)

text \<open>Passing an error on as an \<open>anyhow::Error\<close>, with or without a context.\<close>

fun anyhow :: "failure \<Rightarrow> failure" where
  "anyhow Panic = Panic"
| "anyhow _ = Foreign"

definition from_anyhow :: "'a outcome \<Rightarrow> 'a outcome" where
  "from_anyhow r = (case r of Inl e \<Rightarrow> Inl (anyhow e) | Inr x \<Rightarrow> Inr x)"

lemma from_anyhow_Inr [simp]: "from_anyhow r = Inr x \<longleftrightarrow> r = Inr x" "from_anyhow (Inr x) = Inr x"
  by (auto simp: from_anyhow_def split: sum.split)

end
