(* ===== verification/Rolling_Hash.thy ===== *)
theory Rolling_Hash
  imports Error_Values
begin

section \<open>The BuzHash rolling hash\<close>

text \<open>
  Models src/utils/hash.rs: the substitution table and the \<open>BuzHash\<close> struct with
  \<open>new\<close>, \<open>compute\<close>, \<open>rotate\<close>, \<open>hash\<close> and
  \<open>roll\<close>.  The state is the window (a \<open>VecDeque<u8>\<close>, front first), its
  nominal size and the current 64-bit hash.  The two panics of the code are values:
  \<open>VecDeque::with_capacity\<close> panics above \<open>isize::MAX\<close> bytes, and
  \<open>roll\<close> panics on an empty window.

  The main result: on a full window, \<open>roll\<close> gives exactly the hash that
  \<open>compute\<close> gives on the shifted window, so rolling a window over the data is
  the same as hashing every position from scratch.
\<close>

subsection \<open>The table\<close>

text \<open>The 256 entries, in two halves of 128.\<close>

definition BUZ_HASH_TABLE_lo :: "u64 list" where
  "BUZ_HASH_TABLE_lo = [
    0x5a397884c8e3300d, 0x98b8578de2ebd473, 0xb79fd97301d8e0d7, 0xdc1409703c8cf0b3,
    0xb90008dd3515b2cf, 0x2c322a79d2e35d03, 0xb1635bb68dda618f, 0xf4c0d55ac434fecc,
    0xd897fb75949d47fc, 0x7ccf74240bb06796, 0x3944db4725dceb01, 0x718b05ac7bbc207b,
    0xf54c4390e84b38d, 0xd7782b1b9320c2b0, 0xb61c4eec47554025, 0x1833ef84895faf03,
    0x64b5077878d74e52, 0xa2fcc5fd387e3c9f, 0xdb9b91c274793e35, 0xbe30573b50abddaf,
    0x1342b18198b46ade, 0x8ca1a7d05c19e308, 0x417bf3c91f67bc0c, 0x999d967af2238d8e,
    0xc7d9c45e17a98efa, 0x1328cd570f5c3478, 0xc2d0797abb51c1d5, 0x317177f50c14218c,
    0x42a69e9454de377e, 0x713e1fff065c0d09, 0x688d32b1452fcd5a, 0x31e7c9e24d217cf2,
    0xae8ac0a72328f532, 0x79cbe5fea04bbacd, 0xc5ae03bc752728b8, 0xa7a3daa3ef6de4f0,
    0xb9e20281128d402, 0x8a3ab49975023241, 0x9ecea1158e3ddec9, 0x338b52a8956c531e,
    0xd46673b6cd823a72, 0x98ac5cfdd5cace7e, 0x959b04e590c33850, 0xfec9ab3f442913a7,
    0x1f4f7f9569229f8e, 0x61236be4aa3b9dbc, 0x77076f2f2a5ed1a1, 0x2313dd7f8fb11a4a,
    0x9cee2e0518617b9e, 0x6b6ed12e98f54951, 0x7542d11bc4b32b56, 0x26d45586a18add1b,
    0x1d3b712b370e4f1a, 0x543d4ab2b1f0c820, 0xdf9e1fb97ad94e53, 0x5128f99c9ab99bd8,
    0xb16432663e13f650, 0xb852e4702bde5545, 0xdf07740308ba1990, 0x966b4e2c5afc2d21,
    0x34b20cfc207751f0, 0xa002448c4b46a0ec, 0x25c6fe27cb84bf09, 0xfdab0091646b800e,
    0xa22286f761f1c8eb, 0x7a87ae5c48e0d0e2, 0xa3093a9be66351fe, 0x6366d12076d64c1e,
    0xf74d377c596660bd, 0x8499b2007fe5520, 0x3f7a7a0abd49997, 0x1f63a58adb1bbae3,
    0x2925b5a397c00d68, 0xd47328e3e665072f, 0x5871e37c26b55dba, 0xb7d4f7680deb440c,
    0x6b014b66a09359a4, 0xb2d7356ee95a1dc4, 0x669051cfbb6e8094, 0x66881104cae4bee7,
    0x98e812bdab6978cd, 0x4d7dbfa0e0513ce1, 0x130ffa995985f5b3, 0x8f3c73fbf52e81b8,
    0xe2984f499b56a13a, 0xce8ae69d3216a6de, 0x1ff0c3bfbb50b857, 0xdd3bba0fa973aab7,
    0x455bbfd097c7be56, 0x2cae5dea85190821, 0xb08d86f3babed56e, 0x59f6bdff0cfb30a1,
    0x3cf0556a440cf450, 0x4aa48ac28e7f50b8, 0x1f239e2bcb04b683, 0x45be975aae449e99,
    0xeddea8f0d41f464, 0x442f79f629db1b39, 0x7ed45a1671d03055, 0x7b20524932dbcb51,
    0x675ca9a2cff5e908, 0xc00970d44ca3fbc8, 0x3a4599e26639c64a, 0x70a564e7a92bf63c,
    0xcc18176d8f4033a3, 0x7dea59b4dc76738a, 0xfcf2eeea0201ab95, 0x1cec2b3f862128e4,
    0x14740781f119ec82, 0x44c289b8e9c6ba60, 0xb71b536c058bcc4e, 0x8315659134b04c3a,
    0x78626f5126da275, 0x2a79b220963a7796, 0xd0b9ddc94c9ba7b7, 0xffe215a1e54d6751,
    0x58b969e13bf30697, 0x62e9ddb0cfbbe57a, 0xce2451d71e3b4af0, 0x837d063a3ca0220f,
    0x2d4b6007d4aaa5f5, 0x4e2f1795ba4e17d7, 0x75722402c7ad3a15, 0x623cd34609d87fc1,
    0x70b11ff93d8f9fd0, 0x77927bfccc63fb9b, 0xc6022e872cfd0dd, 0x358179cfe1f895a9]"

definition BUZ_HASH_TABLE_hi :: "u64 list" where
  "BUZ_HASH_TABLE_hi = [
    0x957e67d1407c8a7b, 0x189e91d6321c8dac, 0x5537b2ae8ee1a33b, 0x6567ce896c80845d,
    0x5b3af89d848a0cd6, 0xff68ea0db592a24a, 0x59afe8996b2af893, 0x94b7769df739fdfc,
    0x28b0736adb8109e1, 0x14419e50149d9215, 0x2ba5b25d742ce13a, 0x2fa9a5af2949f00d,
    0x1a6e4fcf47a432a2, 0x662e8f25dcc38587, 0x15f08f7bd3f9b13f, 0x798bea071628771,
    0x88103a17fa1490ef, 0x34dbcd38e4613593, 0x9d23b5554cb0078b, 0x30c461e733c0be1e,
    0x66547db8950ddf0b, 0xa7c8fad4ac0c3225, 0x4104cf2a76d502e2, 0x1dc72363486eb8f1,
    0x4caff10ffc674110, 0xa83b9d179540798, 0x159767c53bb75c8f, 0xd0d480bcd70e3d3b,
    0x39805b1547786266, 0x1de280c254892e82, 0x231d1e359fb5a0a4, 0x599d07435981d3c8,
    0x55f2ed2100079d49, 0xcca9e3e63d32b2f6, 0xeb933c101bf7ff40, 0xf9a9fa6e14e425aa,
    0xb67f60286318148f, 0x3c617fc50250ec13, 0xe112c657728f5ae9, 0x9b162353ec52d169,
    0xdc555da692cf0b12, 0xda2c6c970f13273a, 0xc30fd652a5f695aa, 0x63e6abcb94903378,
    0xa3b82696445f716, 0x682a0a62458effe9, 0xd1a5ebbc33b50a56, 0x4c7525f4f3ea37b5,
    0x58918de4bfdd22ed, 0x89a7c02700714f08, 0xc34721d5371ff3c, 0x9e9856e29d459633,
    0xa94a9f8d9b967e96, 0x14185877f57a7fba, 0xa0e8ca8be72a5276, 0xc6585e35f86a67b0,
    0xe9c20d7a49a9e3a7, 0xf19537e6130b5660, 0x359420717d18b194, 0xb45a2c7545e605b4,
    0xbb2f3e16c9e2f4f, 0xd75461fab1d0b5a5, 0x78c3069bcf792194, 0xf93c0086193f52b2,
    0xb579bcb05a092019, 0xa15c90e1315c3f93, 0x1c11569ac3f283cc, 0x42f5952e5981ccc3,
    0x7f206fdb44497a18, 0x2532535678af58e6, 0x523f0c2c922ea265, 0x9e712db14e700724,
    0xd33b901a5e20da53, 0x5175e63a7a462bf1, 0x58afceadca83f784, 0x4adf14b118ea8b0,
    0x1a0d02436dae1dcd, 0x64f98a9813bcad43, 0xb27788fd050abcdc, 0x7be54a6bdef5483b,
    0x32c4222efbc1fc29, 0xcc960e079dd7c1cf, 0xefbc3c50acfd11d7, 0xd474895d06398e5b,
    0xaa37f6aaedee02fe, 0x7ef80b4f6ac758af, 0xe6adc70fc4ca7d9f, 0xdd309db5f335b2d9,
    0x1d1092cd2135a03d, 0x617a744310ab08ba, 0xed74fe7a9049165b, 0xb687331140079278,
    0x102efdd3285a4b12, 0xbb0ed3f251808f31, 0x25fe9c32305a43fc, 0xc4803e660dbb0e8d,
    0x3a515febadae121c, 0x30f4316cc0bfc23c, 0x8df4a56fc9678a6f, 0x5135069c5d6e41f3,
    0x67127720739c77c5, 0x3868828e331a4ba9, 0x16444459398bc3a3, 0xac097b757be40201,
    0x85383d2589ea986e, 0x3002d5578c615af7, 0x7b1ac741632235fe, 0x75a671e340e74dbc,
    0xac0fe4ead80dd56f, 0x99ac5e59a600908e, 0x21a35451def12efd, 0x88dfb63c4b356ffc,
    0x7840d962717988b5, 0x8c37764ca7a66fea, 0xa43775d613365401, 0xe2772843be6b5da7,
    0x73b72873552ffa22, 0xb4238cf0eee216ef, 0xc882b27eb9069e79, 0x6608a425817d5db3,
    0x4192a8e6a2d07d7e, 0xd69b9ee192b3ec95, 0xf9c952111cd7c0fa, 0xaeef6f5f8f76a9fa,
    0xa29980b6f4cd33cc, 0xfc27281d8ca4ab4d, 0xdf7679400fff8e20, 0x42b28c6ebb778ddc]"

definition BUZ_HASH_TABLE :: "u64 list" where
  "BUZ_HASH_TABLE = BUZ_HASH_TABLE_lo @ BUZ_HASH_TABLE_hi"

text \<open>\<open>BUZ_HASH_TABLE[x as usize]\<close>: an index of type u8 is always in range.\<close>

definition table_at :: "byte \<Rightarrow> u64" where
  "table_at x = BUZ_HASH_TABLE ! unat x"

subsection \<open>The hasher\<close>

record BuzHash =
  bz_window_size :: nat
  bz_window :: "byte list"
  bz_hash :: u64

definition buz_new :: "nat \<Rightarrow> BuzHash outcome" where
  "buz_new n =
     (if n \<le> isize_max
      then Inr \<lparr>bz_window_size = n, bz_window = [], bz_hash = 0\<rparr>
      else Inl Panic)"

definition buz_rotate :: "u64 \<Rightarrow> nat \<Rightarrow> u64" where
  "buz_rotate x n =
     (let n = n mod 64
      in if n = 0 then x else push_bit n x OR drop_bit (64 - n) x)"

text \<open>
  The private \<open>hash\<close>: the XOR of the rotated table entries of the window.  The
  window never holds more than \<open>window_size\<close> bytes, so the source's
  subtraction \<open>window_size - (1 + n)\<close> does not underflow.
\<close>

definition window_hash :: "nat \<Rightarrow> byte list \<Rightarrow> u64" where
  "window_hash window_size window =
     fold (\<lambda>value acc. acc XOR value)
       (map (\<lambda>(n, x). buz_rotate (table_at x) (window_size - (1 + n))) (enumerate 0 window)) 0"

definition buz_compute :: "BuzHash \<Rightarrow> byte list \<Rightarrow> BuzHash" where
  "buz_compute b data =
     (let w = take (bz_window_size b) data
      in b\<lparr>bz_window := w, bz_hash := window_hash (bz_window_size b) w\<rparr>)"

definition buz_roll :: "BuzHash \<Rightarrow> byte \<Rightarrow> BuzHash outcome" where
  "buz_roll b new_byte =
     (case bz_window b of
        [] \<Rightarrow> Inl Panic
      | bye # rest \<Rightarrow>
          (let h1 = buz_rotate (bz_hash b) 1;
               h2 = h1 XOR buz_rotate (table_at bye) (bz_window_size b);
               h3 = h2 XOR table_at new_byte
           in Inr (b\<lparr>bz_window := rest @ [new_byte], bz_hash := h3\<rparr>)))"


text \<open>Rolling over a run of bytes, as the delta generator and the benchmark do.\<close>

fun roll_all :: "('h \<Rightarrow> byte \<Rightarrow> 'h outcome) \<Rightarrow> 'h \<Rightarrow> byte list \<Rightarrow> 'h outcome" where
  "roll_all roll h [] = Inr h"
| "roll_all roll h (b # bs) = and_then (roll h b) (\<lambda>h'. roll_all roll h' bs)"

subsection \<open>Rotation\<close>

lemma buz_rotate_eq_rotl: "buz_rotate x n = word_rotl n x"
proof (rule bit_word_eqI)
  fix i assume "i < LENGTH(64)"
  then have i: "i < 64" by simp
  define k where "k = n mod 64"
  have k: "k < 64" by (simp add: k_def)
  have shift: "(i + 64 - k) mod 64 = (if k \<le> i then i - k else 64 + i - k)"
    using i k by (auto simp: mod_if)
  have over: "k \<le> i \<Longrightarrow> \<not> bit x (64 + i - k)"
    using bit_imp_le_length [of x "64 + i - k"] by auto
  show "bit (buz_rotate x n) i = bit (word_rotl n x) i"
  proof (cases "k = 0")
    case True
    then show ?thesis
      using i by (simp add: buz_rotate_def bit_word_rotl_iff k_def)
  next
    case False
    then show ?thesis
      using i k over shift
      by (auto simp: buz_rotate_def bit_word_rotl_iff bit_or_iff bit_push_bit_iff
          bit_drop_bit_eq k_def [symmetric] Let_def)
  qed
qed

lemma buz_rotate_xor: "buz_rotate (x XOR y) n = buz_rotate x n XOR buz_rotate y n"
  by (simp add: buz_rotate_eq_rotl word_rot_logs)

lemma buz_rotate_rotate: "buz_rotate (buz_rotate x m) n = buz_rotate x (m + n)"
  by (simp add: buz_rotate_eq_rotl word_rotl_rotl add.commute)

lemma buz_rotate_0 [simp]: "buz_rotate x 0 = x"
  by (simp add: buz_rotate_def)

lemma buz_rotate_zero [simp]: "buz_rotate 0 n = 0"
  by (simp add: buz_rotate_eq_rotl)

lemma buz_rotate_64 [simp]: "buz_rotate x 64 = x"
  by (simp add: buz_rotate_def)

subsection \<open>The hash of a window, by recursion\<close>

lemma fold_xor_acc:
  "fold (\<lambda>v acc. acc XOR v) vs (a :: u64) = a XOR fold (\<lambda>v acc. acc XOR v) vs 0"
proof (induction vs arbitrary: a)
  case Nil
  show ?case by simp
next
  case (Cons v vs)
  show ?case
    using Cons.IH[of "a XOR v"] Cons.IH[of v] by (simp add: xor.assoc)
qed

lemma window_hash_Nil [simp]: "window_hash n [] = 0"
  by (simp add: window_hash_def)

lemma window_hash_Cons [simp]:
  "window_hash n (x # xs) = buz_rotate (table_at x) (n - 1) XOR window_hash (n - 1) xs"
proof -
  have "map (\<lambda>(k, y). buz_rotate (table_at y) (n - (1 + k))) (enumerate (Suc 0) xs) =
        map (\<lambda>(k, y). buz_rotate (table_at y) (n - 1 - (1 + k))) (enumerate 0 xs)"
    by (rule nth_equalityI) (simp_all add: nth_enumerate_eq)
  then show ?thesis
    by (simp add: window_hash_def) (rule fold_xor_acc)
qed

lemma window_hash_append:
  "window_hash (length xs + length ys) (xs @ ys) =
     buz_rotate (window_hash (length xs) xs) (length ys) XOR window_hash (length ys) ys"
  by (induction xs) (simp_all add: buz_rotate_xor buz_rotate_rotate xor.assoc)

lemma window_hash_snoc:
  "window_hash (Suc (length xs)) (xs @ [y]) = buz_rotate (window_hash (length xs) xs) 1 XOR table_at y"
  using window_hash_append[of xs "[y]"] by simp


text \<open>Moving a full window one byte on: drop the first byte, append a new one.\<close>

lemma window_hash_shift:
  "(buz_rotate (window_hash (Suc (length xs)) (x # xs)) 1
     XOR buz_rotate (table_at x) (Suc (length xs))) XOR table_at y =
   window_hash (Suc (length xs)) (xs @ [y])"
  by (simp add: window_hash_snoc buz_rotate_xor buz_rotate_rotate xor.assoc)

subsection \<open>The contract of a rolling hash\<close>

text \<open>
  What the delta generator relies on.  \<open>holds h n w\<close>: the hasher \<open>h\<close>, of
  nominal size \<open>n\<close>, has the full window \<open>w\<close>.  \<open>weak n w\<close> is the
  checksum of that window computed from scratch.
\<close>

locale rolling_window =
  fixes compute :: "'h \<Rightarrow> byte list \<Rightarrow> 'h"
    and roll :: "'h \<Rightarrow> byte \<Rightarrow> 'h outcome"
    and digest :: "'h \<Rightarrow> u64"
    and sized :: "'h \<Rightarrow> nat \<Rightarrow> bool"
    and holds :: "'h \<Rightarrow> nat \<Rightarrow> byte list \<Rightarrow> bool"
    and weak :: "nat \<Rightarrow> byte list \<Rightarrow> u64"
  assumes compute_holds: "sized h n \<Longrightarrow> length w = n \<Longrightarrow> holds (compute h w) n w"
    and roll_holds: "holds h n (x # w) \<Longrightarrow> \<exists>h'. roll h b = Inr h' \<and> holds h' n (w @ [b])"
    and holds_length: "holds h n w \<Longrightarrow> length w = n"
    and holds_sized: "holds h n w \<Longrightarrow> sized h n"
    and digest_holds: "holds h n w \<Longrightarrow> digest h = weak n w"
begin

lemma roll_all_holds:
  assumes "holds h n w" and "w \<noteq> []"
  shows "\<exists>h'. roll_all roll h bs = Inr h' \<and> holds h' n (drop (length bs) (w @ bs))"
  using assms
proof (induction bs arbitrary: h w)
  case Nil
  then show ?case by simp
next
  case (Cons b bs)
  obtain x w' where w: "w = x # w'" using Cons.prems(2) by (cases w) auto
  obtain h1 where h1: "roll h b = Inr h1" "holds h1 n (w' @ [b])"
    using roll_holds Cons.prems(1) w by blast
  from Cons.IH[OF h1(2)] obtain h' where
    "roll_all roll h1 bs = Inr h'" "holds h' n (drop (length bs) ((w' @ [b]) @ bs))"
    by auto
  then show ?case by (simp add: h1(1) w)
qed

lemma roll_window:
  assumes "holds h n (slice_at data i n)" and "0 < n" and "Suc i + n \<le> length data"
  shows "\<exists>h'. roll h (data ! (i + n)) = Inr h' \<and> holds h' n (slice_at data (Suc i) n)"
proof -
  have "slice_at data i n \<noteq> []"
    using assms(2,3) by (simp flip: length_greater_0_conv)
  then obtain x w where w: "slice_at data i n = x # w" by (cases "slice_at data i n") auto
  show ?thesis
    using roll_holds[of h n x w "data ! (i + n)"] assms by (simp add: w slice_at_shift)
qed

end

definition buz_sized :: "BuzHash \<Rightarrow> nat \<Rightarrow> bool" where
  "buz_sized b n \<longleftrightarrow> bz_window_size b = n"

definition buz_holds :: "BuzHash \<Rightarrow> nat \<Rightarrow> byte list \<Rightarrow> bool" where
  "buz_holds b n w \<longleftrightarrow>
     bz_window_size b = n \<and> bz_window b = w \<and> length w = n \<and> bz_hash b = window_hash n w"

lemma buz_compute_holds: "buz_sized b n \<Longrightarrow> length w = n \<Longrightarrow> buz_holds (buz_compute b w) n w"
  by (simp add: buz_sized_def buz_holds_def buz_compute_def Let_def)

lemma buz_compute_sized [simp]: "buz_sized (buz_compute b w) n = buz_sized b n"
  by (simp add: buz_sized_def buz_compute_def Let_def)

lemma buz_roll_holds:
  assumes "buz_holds b n (x # w)"
  shows "\<exists>b'. buz_roll b y = Inr b' \<and> buz_holds b' n (w @ [y])"
  proof -
  from assms have n: "n = Suc (length w)" by (simp add: buz_holds_def)
  show ?thesis
    using assms window_hash_shift[of w x y]
    by (auto simp: buz_holds_def buz_roll_def Let_def n xor.assoc simp del: window_hash_Cons)
qed

interpretation buz: rolling_window buz_compute buz_roll bz_hash buz_sized buz_holds window_hash
  by unfold_locales (simp_all add: buz_compute_holds buz_roll_holds, auto simp: buz_holds_def buz_sized_def)

lemma buz_holds_unique: "buz_holds b n w \<Longrightarrow> b = buz_compute b w"
  by (cases b) (simp add: buz_holds_def buz_compute_def)

lemma buz_compute_cong:
  "bz_window_size b = bz_window_size b' \<Longrightarrow> buz_compute b w = buz_compute b' w"
  by (cases b; cases b') (simp add: buz_compute_def Let_def)

lemma buz_holds_compute: "buz_holds b n w \<Longrightarrow> bz_window_size b' = n \<Longrightarrow> b = buz_compute b' w"
  by (metis buz_holds_unique buz_compute_cong buz_holds_def)

lemma buz_new_sized: "buz_new n = Inr b \<Longrightarrow> buz_sized b n"
  by (auto simp: buz_new_def buz_sized_def split: if_splits)

lemma buz_new_cases: "n \<le> isize_max \<Longrightarrow> \<exists>b. buz_new n = Inr b \<and> buz_sized b n"
  by (simp add: buz_new_def buz_sized_def)

subsection \<open>Properties\<close>

text \<open>C25: Rolling a full window one byte on gives exactly the hasher (window and hash) that
  computing from scratch on the shifted window gives.\<close>

theorem buz_roll_refines_compute:
  assumes "bz_window_size b = Suc (length xs)"
  shows "buz_roll (buz_compute b (x # xs)) y = Inr (buz_compute b (xs @ [y]))"
proof -
  have "buz_holds (buz_compute b (x # xs)) (Suc (length xs)) (x # xs)"
    by (rule buz_compute_holds) (simp_all add: buz_sized_def assms)
  then obtain b' where "buz_roll (buz_compute b (x # xs)) y = Inr b'"
      and "buz_holds b' (Suc (length xs)) (xs @ [y])"
    using buz.roll_holds by blast
  with assms show ?thesis using buz_holds_compute by simp
qed

theorem buz_roll_refines_compute_witness:
  "buz_roll (buz_compute \<lparr>bz_window_size = 2, bz_window = [], bz_hash = 0\<rparr> [7, 8]) 9 =
     Inr (buz_compute \<lparr>bz_window_size = 2, bz_window = [], bz_hash = 0\<rparr> [8, 9])"
  using buz_roll_refines_compute[of "\<lparr>bz_window_size = 2, bz_window = [], bz_hash = 0\<rparr>" "[8]" 7 9]
  by simp

text \<open>Rolling over all the data after a first window never panics and ends with the hash
  of the last window, for every data and window size with \<open>0 < n\<close> (the
  repository's property test \<open>test_rolling_hash\<close>, for all inputs).\<close>

theorem rolling_reaches_last_window:
  assumes "0 < n" and "n \<le> length data" and "bz_window_size b = n"
  shows "roll_all buz_roll (buz_compute b (take n data)) (drop n data) =
           Inr (buz_compute b (drop (length data - n) data))"
proof -
  have "buz_holds (buz_compute b (take n data)) n (take n data)"
    using assms by (intro buz_compute_holds) (simp_all add: buz_sized_def)
  moreover have "take n data \<noteq> []" using assms by auto
  ultimately obtain h' where h': "roll_all buz_roll (buz_compute b (take n data)) (drop n data) = Inr h'"
      and w: "buz_holds h' n (drop (length (drop n data)) (take n data @ drop n data))"
    using buz.roll_all_holds by blast
  have "h' = buz_compute b (drop (length data - n) data)"
    using buz_holds_compute[OF w assms(3)] by simp
  with h' show ?thesis by simp
qed

theorem rolling_reaches_last_window_witness:
  "roll_all buz_roll (buz_compute \<lparr>bz_window_size = 3, bz_window = [], bz_hash = 0\<rparr> [1, 2, 3]) [4, 5] =
     Inr (buz_compute \<lparr>bz_window_size = 3, bz_window = [], bz_hash = 0\<rparr> [3, 4, 5])"
  using rolling_reaches_last_window[of 3 "[1, 2, 3, 4, 5]"
      "\<lparr>bz_window_size = 3, bz_window = [], bz_hash = 0\<rparr>"]
  by simp

text \<open>\<open>roll\<close> panics on an empty window and only there; a hasher of window
  size 0 therefore panics on its first roll, whatever it was computed on.\<close>

theorem buz_roll_panics_iff_empty:
  "(buz_roll b y = Inl Panic \<longleftrightarrow> bz_window b = []) \<and>
   (bz_window_size b = 0 \<longrightarrow> buz_roll (buz_compute b data) y = Inl Panic)"
  by (auto simp: buz_roll_def buz_compute_def Let_def split: list.splits)

theorem buz_roll_panics_iff_empty_witness:
  "buz_roll (buz_compute \<lparr>bz_window_size = 0, bz_window = [], bz_hash = 0\<rparr> [1, 2]) 3 = Inl Panic"
  using buz_roll_panics_iff_empty[of "\<lparr>bz_window_size = 0, bz_window = [], bz_hash = 0\<rparr>"] by simp

lemma window_hash_replicate_add_128:
  "window_hash (n + 128) (replicate (n + 128) x) = window_hash n (replicate n x)"
proof -
  have add64: "window_hash (m + 64) (replicate (m + 64) x) =
      window_hash m (replicate m x) XOR window_hash 64 (replicate 64 x)" for m
    using window_hash_append[of "replicate m x" "replicate 64 x"]
    by (simp only: replicate_add length_replicate buz_rotate_64)
  show ?thesis
    using add64[of "n + 64"] add64[of n] by (simp only: add.assoc) (simp add: xor.assoc)
qed

text \<open>The weak checksum of a block that repeats one byte, and whose size is a multiple of
  128, is 0 whatever the byte: in particular for the default block size of 8192.  All such
  blocks share one weak checksum, so only the strong hash tells them apart.\<close>

theorem constant_block_hash_is_zero:
  "window_hash (128 * q) (replicate (128 * q) x) = 0 \<and>
   window_hash 8192 (replicate 8192 x) = window_hash 8192 (replicate 8192 y)"
proof -
  have zero: "window_hash (128 * k) (replicate (128 * k) z) = 0" for k z
  proof (induction k)
    case 0
    show ?case by simp
  next
    case (Suc k)
    have "128 * Suc k = 128 * k + 128" by simp
    with Suc.IH show ?case by (simp only: window_hash_replicate_add_128)
  qed
  from zero[of 64 x] zero[of 64 y] zero[of q x] show ?thesis by simp
qed

text \<open>The table has one entry for each of the 256 values of a byte, so the lookup by a
  byte is always in range.\<close>

lemma table_covers_bytes:
  "length BUZ_HASH_TABLE = 256 \<and> unat (x :: byte) < length BUZ_HASH_TABLE"
proof -
  have "length BUZ_HASH_TABLE = 256"
    by (simp add: BUZ_HASH_TABLE_def BUZ_HASH_TABLE_lo_def BUZ_HASH_TABLE_hi_def)
  moreover have "unat x < 256" using unsigned_less[of x] by simp
  ultimately show ?thesis by simp
qed

end
