(* ===== verification/Wire_Types.thy ===== *)
theory Wire_Types
  imports Error_Values
begin

section \<open>The messages of the protocol\<close>

text \<open>
  The types of proto/harmonic.proto, as the generated Rust code offers them (the two messages of
  proto/bootstrap.proto hold a string and bytes, and are these in Bootstrap): an enum field is an \<open>i32\<close>, a message field is optional, a
  \<open>oneof\<close> is an optional choice.
\<close>

record Timestamp =
  ts_seconds :: i64
  ts_nanos :: i32

text \<open>\<open>Timestamp::default()\<close>.\<close>

definition timestamp_default :: Timestamp where
  "timestamp_default = \<lparr>ts_seconds = 0, ts_nanos = 0\<rparr>"

datatype FileType = Other | Markdown | Pdf

fun file_type_i32 :: "FileType \<Rightarrow> i32" where
  "file_type_i32 Other = 0"
| "file_type_i32 Markdown = 1"
| "file_type_i32 Pdf = 2"

datatype TransferDirection = Skip | Download | Upload

fun direction_i32 :: "TransferDirection \<Rightarrow> i32" where
  "direction_i32 Skip = 0"
| "direction_i32 Download = 1"
| "direction_i32 Upload = 2"

record FileStatus =
  fs_path :: string
  fs_timestamp :: "Timestamp option"
  fs_file_type :: i32
  fs_hash :: "byte list"

record FileAction =
  fa_path :: string
  fa_direction :: i32
  fa_timestamp_latest_modified :: "Timestamp option"

record BlockSignature =
  weak_checksum :: u64
  strong_checksum :: "byte list"

record BlockSignatures =
  block_size :: u64
  blocks :: "BlockSignature list"

datatype Instruction = BlockIndex u32 | Literal "byte list"

record Delta =
  delta_index :: u64
  instruction :: "Instruction option"

datatype Payload =
    FileActionP FileAction
  | Signatures BlockSignatures
  | DeltaP Delta
  | Complete bool

record SyncRequest =
  payload :: "Payload option"

record ClientSyncState =
  cs_sync_uuid :: string
  cs_timestamp_last_sync_micro :: i64
  cs_status_list :: "FileStatus list"

record ServerSyncStateResponse =
  sr_sync_uuid :: string
  sr_timestamp_micro :: i64
  sr_sync_plan :: "FileAction list"

lemma direction_i32_inject [simp]: "direction_i32 a = direction_i32 b \<longleftrightarrow> a = b"
  by (cases a; cases b) simp_all

end
