(* ===== verification/Message_Sink.thy ===== *)
theory Message_Sink
  imports Wire_Types
begin

section \<open>Sending messages\<close>

text \<open>
  The senders of src/sync/transfer.rs and src/sync/handler.rs are generic in
  \<open>S: Sink<SyncRequest, Error = HarmonicError>\<close>.  The model is generic in the same way:
  it takes the \<open>send\<close> of the sink as an argument, a function on the state of the sink.
  The locale \<open>message_sink\<close> states what the senders rely on: a successful send appends
  its message to what the peer will receive, a failed one adds nothing.

  The sink the program builds is a \<open>PollSender\<close> over a bounded channel: sending waits
  while the channel is full and fails once the receiver is gone.  \<open>channel\<close> records
  what was accepted and, in \<open>lifetime\<close>, how many more sends succeed before the
  receiver goes away (\<open>None\<close>: it never does), so every moment of closing is covered.
\<close>

fun send_all :: "('m \<Rightarrow> 's \<Rightarrow> 's \<times> unit outcome) \<Rightarrow> 'm list \<Rightarrow> 's \<Rightarrow> 's \<times> unit outcome" where
  "send_all send [] s = (s, Inr ())"
| "send_all send (m # ms) s =
     (case send m s of
        (s', Inl e) \<Rightarrow> (s', Inl e)
      | (s', Inr _) \<Rightarrow> send_all send ms s')"

lemma send_all_append:
  "send_all send (ms @ ns) s =
     (case send_all send ms s of
        (s', Inl e) \<Rightarrow> (s', Inl e)
      | (s', Inr _) \<Rightarrow> send_all send ns s')"
  by (induction ms arbitrary: s) (simp_all split: prod.split sum.split)

lemma send_all_single: "send_all send [m] s = send m s"
  by (simp split: prod.split sum.split)

locale message_sink =
  fixes send :: "'m \<Rightarrow> 's \<Rightarrow> 's \<times> unit outcome"
    and sent :: "'s \<Rightarrow> 'm list"
  assumes send_ok: "send m s = (s', Inr ()) \<Longrightarrow> sent s' = sent s @ [m]"
    and send_fail: "send m s = (s', Inl e) \<Longrightarrow> sent s' = sent s"
begin

lemma send_all_ok: "send_all send ms s = (s', Inr ()) \<Longrightarrow> sent s' = sent s @ ms"
  by (induction ms arbitrary: s) (auto dest: send_ok split: prod.splits sum.splits)

text \<open>A failing run has delivered a proper prefix of the messages.\<close>

lemma send_all_fail:
  "send_all send ms s = (s', Inl e) \<Longrightarrow> \<exists>n < length ms. sent s' = sent s @ take n ms"
proof (induction ms arbitrary: s)
  case Nil
  then show ?case by simp
next
  case (Cons m ms)
  show ?case
  proof (cases "send m s")
    case (Pair s1 r)
    show ?thesis
    proof (cases r)
      case (Inl e')
      then have "sent s' = sent s" using Cons.prems Pair send_fail by auto
      then show ?thesis by (intro exI[of _ 0]) simp
    next
      case (Inr u)
      then have "send_all send ms s1 = (s', Inl e)" using Cons.prems Pair by simp
      then obtain n where "n < length ms" "sent s' = sent s1 @ take n ms" using Cons.IH by blast
      moreover have "sent s1 = sent s @ [m]" using Pair Inr send_ok by auto
      ultimately show ?thesis by (intro exI[of _ "Suc n"]) simp
    qed
  qed
qed

lemma send_all_prefix: "\<exists>n \<le> length ms. sent (fst (send_all send ms s)) = sent s @ take n ms"
proof (cases "send_all send ms s")
  case (Pair s' r)
  show ?thesis
  proof (cases r)
    case (Inl e)
    then obtain n where "n < length ms" "sent s' = sent s @ take n ms"
      using Pair send_all_fail by blast
    then show ?thesis using Pair by (intro exI[of _ n]) simp
  next
    case (Inr u)
    then have "sent s' = sent s @ ms" using Pair send_all_ok by auto
    then show ?thesis using Pair by (intro exI[of _ "length ms"]) simp
  qed
qed

end

subsection \<open>The channel\<close>

record channel =
  accepted :: "SyncRequest list"
  lifetime :: "nat option"

definition channel_send :: "SyncRequest \<Rightarrow> channel \<Rightarrow> channel \<times> unit outcome" where
  "channel_send m c =
     (case lifetime c of
        None \<Rightarrow> (c\<lparr>accepted := accepted c @ [m]\<rparr>, Inr ())
      | Some 0 \<Rightarrow> (c, Inl (Err SendError))
      | Some (Suc n) \<Rightarrow> (c\<lparr>accepted := accepted c @ [m], lifetime := Some n\<rparr>, Inr ()))"

definition new_channel :: channel where
  "new_channel = \<lparr>accepted = [], lifetime = None\<rparr>"

interpretation chan: message_sink channel_send accepted
  by unfold_locales (auto simp: channel_send_def split: option.splits nat.splits)

lemma channel_send_open: "lifetime c = None \<Longrightarrow> channel_send m c = (c\<lparr>accepted := accepted c @ [m]\<rparr>, Inr ())"
  by (simp add: channel_send_def)

text \<open>What a run of sends does, by the lifetime of the channel.\<close>

lemma channel_send_all_open:
  "lifetime c = None \<Longrightarrow> send_all channel_send ms c = (c\<lparr>accepted := accepted c @ ms\<rparr>, Inr ())"
  by (induction ms arbitrary: c) (simp_all add: channel_send_open)

lemma channel_send_all_closing:
  "lifetime c = Some n \<Longrightarrow> send_all channel_send ms c =
     (if length ms \<le> n
      then (c\<lparr>accepted := accepted c @ ms, lifetime := Some (n - length ms)\<rparr>, Inr ())
      else (c\<lparr>accepted := accepted c @ take n ms, lifetime := Some 0\<rparr>, Inl (Err SendError)))"
proof (induction ms arbitrary: c n)
  case Nil
  then show ?case by simp
next
  case (Cons m ms)
  then show ?case by (cases n) (simp_all add: channel_send_def)
qed

end
