(* ===== verification/Path_Buf.thy ===== *)
theory Path_Buf
  imports Error_Values "HOL-Library.Sublist" "HOL-Library.List_Lexorder" "HOL-Library.Char_ord"
begin

section \<open>Paths\<close>

text \<open>
  The part of \<open>std::path\<close> (Unix) that the program uses.  A \<open>PathBuf\<close> is
  its raw bytes; comparison, ordering, \<open>starts_with\<close> and \<open>strip_prefix\<close>
  work on its components.  \<open>to_str\<close> fails on bytes that are not UTF-8.  Of the
  repository: \<open>has_hidden_components\<close> and \<open>get_relative_path\<close> of
  src/sync/state.rs, \<open>get_absolute_path\<close> of src/sync/transfer.rs, and the
  temporary file name of src/utils/writer.rs.

  The method \<open>clean\<close> comes from the crate path_clean and is a parameter; the
  locale \<open>path_cleaner\<close> states the documented rules the code relies on.
\<close>

subsection \<open>Components\<close>

datatype component = RootDir | CurDir | ParentDir | Normal string

fun component_rank :: "component \<Rightarrow> nat" where
  "component_rank RootDir = 0"
| "component_rank CurDir = 1"
| "component_rank ParentDir = 2"
| "component_rank (Normal s) = 3"

fun component_name :: "component \<Rightarrow> string" where
  "component_name (Normal s) = s"
| "component_name _ = []"

text \<open>The derived order: the variants in their order, then the bytes of the name.\<close>

instantiation component :: linorder
begin

definition less_component :: "component \<Rightarrow> component \<Rightarrow> bool" where
  "less_component c d \<longleftrightarrow> component_rank c < component_rank d \<or>
     component_rank c = component_rank d \<and> component_name c < component_name d"

definition less_eq_component :: "component \<Rightarrow> component \<Rightarrow> bool" where
  "less_eq_component c d \<longleftrightarrow> c < d \<or> c = d"

instance
proof
  fix x y z :: component
  show "x < y \<longleftrightarrow> x \<le> y \<and> \<not> y \<le> x"
    by (cases x; cases y) (auto simp: less_component_def less_eq_component_def)
  show "x \<le> x" by (simp add: less_eq_component_def)
  show "x \<le> y \<Longrightarrow> y \<le> z \<Longrightarrow> x \<le> z"
    by (auto simp: less_component_def less_eq_component_def)
  show "x \<le> y \<Longrightarrow> y \<le> x \<Longrightarrow> x = y"
    by (auto simp: less_component_def less_eq_component_def)
  show "x \<le> y \<or> y \<le> x"
    by (cases x; cases y) (auto simp: less_component_def less_eq_component_def)
qed

end

abbreviation slash :: char where
  "slash \<equiv> CHR ''/''"

abbreviation dot :: char where
  "dot \<equiv> CHR ''.''"

text \<open>The segments between separators, and their inverse.\<close>

fun segments :: "PathBuf \<Rightarrow> string list" where
  "segments [] = [[]]"
| "segments (c # cs) =
     (if c = slash then [] # segments cs
      else (case segments cs of [] \<Rightarrow> [[c]] | s # ss \<Rightarrow> (c # s) # ss))"

fun unsegments :: "string list \<Rightarrow> PathBuf" where
  "unsegments [] = []"
| "unsegments [s] = s"
| "unsegments (s # ss) = s @ slash # unsegments ss"

definition trivial :: "string \<Rightarrow> bool" where
  "trivial s \<longleftrightarrow> s = [] \<or> s = [dot]"

definition component_of :: "string \<Rightarrow> component" where
  "component_of s = (if s = [dot, dot] then ParentDir else Normal s)"

text \<open>\<open>is_absolute\<close>, which on Unix is \<open>has_root\<close>.\<close>

definition is_absolute :: "PathBuf \<Rightarrow> bool" where
  "is_absolute p \<longleftrightarrow> (case p of [] \<Rightarrow> False | c # _ \<Rightarrow> c = slash)"

definition leading :: "PathBuf \<Rightarrow> component list" where
  "leading p = (if is_absolute p then [RootDir]
                else if hd (segments p) = [dot] then [CurDir] else [])"

definition components :: "PathBuf \<Rightarrow> component list" where
  "components p = leading p @ map component_of (filter (\<lambda>s. \<not> trivial s) (segments p))"

definition starts_with :: "PathBuf \<Rightarrow> PathBuf \<Rightarrow> bool" where
  "starts_with p base \<longleftrightarrow> prefix (components base) (components p)"

definition path_join :: "PathBuf \<Rightarrow> PathBuf \<Rightarrow> PathBuf" where
  "path_join p q =
     (if is_absolute q then q
      else if p \<noteq> [] \<and> last p \<noteq> slash then p @ slash # q
      else p @ q)"

text \<open>
  \<open>strip_prefix\<close>: the raw remainder after the components of the base, without the
  empty and \<open>.\<close> segments at its ends.
\<close>

fun drop_body :: "nat \<Rightarrow> string list \<Rightarrow> string list" where
  "drop_body n [] = []"
| "drop_body 0 (s # ss) = (if trivial s then drop_body 0 ss else s # ss)"
| "drop_body (Suc n) (s # ss) = (if trivial s then drop_body (Suc n) ss else drop_body n ss)"

definition trim_right :: "string list \<Rightarrow> string list" where
  "trim_right ss = rev (dropWhile trivial (rev ss))"

definition strip_prefix :: "PathBuf \<Rightarrow> PathBuf \<Rightarrow> PathBuf option" where
  "strip_prefix p base =
     (if \<not> starts_with p base then None
      else if components base = [] then
        Some (case trim_right (segments p) of
                [] \<Rightarrow> take 1 p
              | ss \<Rightarrow> unsegments ss)
      else Some (unsegments (trim_right
             (drop_body (length (components base) - length (leading p)) (segments p)))))"

subsection \<open>File name and extension\<close>

definition last_segment :: "PathBuf \<Rightarrow> string option" where
  "last_segment p =
     (case trim_right (segments p) of [] \<Rightarrow> None
      | ss \<Rightarrow> (if last ss = [dot, dot] then None else Some (last ss)))"

text \<open>\<open>rsplit_file_at_dot\<close>: the stem and the extension of a file name.\<close>

definition stem_ext :: "string \<Rightarrow> string \<times> string option" where
  "stem_ext f =
     (case dropWhile (\<lambda>c. c \<noteq> dot) (rev f) of
        [] \<Rightarrow> (f, None)
      | _ # before \<Rightarrow>
          (if before = [] then (f, None)
           else (rev before, Some (rev (takeWhile (\<lambda>c. c \<noteq> dot) (rev f))))))"

definition extension :: "PathBuf \<Rightarrow> string option" where
  "extension p = (case last_segment p of None \<Rightarrow> None | Some f \<Rightarrow> snd (stem_ext f))"

definition set_extension :: "PathBuf \<Rightarrow> string \<Rightarrow> PathBuf" where
  "set_extension p ext =
     (case last_segment p of
        None \<Rightarrow> p
      | Some f \<Rightarrow>
          unsegments (butlast (trim_right (segments p)) @
            [fst (stem_ext f) @ (if ext = [] then [] else dot # ext)]))"

subsection \<open>UTF-8\<close>

definition cont_byte :: "char \<Rightarrow> bool" where
  "cont_byte c \<longleftrightarrow> 0x80 \<le> (of_char c :: nat) \<and> (of_char c :: nat) \<le> 0xBF"

definition in_range :: "nat \<Rightarrow> nat \<Rightarrow> char \<Rightarrow> bool" where
  "in_range lo hi c \<longleftrightarrow> lo \<le> of_char c \<and> of_char c \<le> hi"

text \<open>\<open>core::str::from_utf8\<close>: the well-formed byte sequences of the Unicode standard.\<close>

fun utf8_valid :: "string \<Rightarrow> bool" where
  "utf8_valid [] = True"
| "utf8_valid (a # r) =
     (if in_range 0 0x7F a then utf8_valid r
      else (case r of
        [] \<Rightarrow> False
      | b # r2 \<Rightarrow>
          (if in_range 0xC2 0xDF a then cont_byte b \<and> utf8_valid r2
           else (case r2 of
             [] \<Rightarrow> False
           | c # r3 \<Rightarrow>
               (if in_range 0xE0 0xEF a then
                  (if in_range 0xE0 0xE0 a then in_range 0xA0 0xBF b
                   else if in_range 0xED 0xED a then in_range 0x80 0x9F b
                   else cont_byte b) \<and> cont_byte c \<and> utf8_valid r3
                else (case r3 of
                  [] \<Rightarrow> False
                | d # r4 \<Rightarrow>
                    in_range 0xF0 0xF4 a \<and>
                    (if in_range 0xF0 0xF0 a then in_range 0x90 0xBF b
                     else if in_range 0xF4 0xF4 a then in_range 0x80 0x8F b
                     else cont_byte b) \<and> cont_byte c \<and> cont_byte d \<and> utf8_valid r4))))))"

definition to_str :: "string \<Rightarrow> string option" where
  "to_str s = (if utf8_valid s then Some s else None)"

subsection \<open>The path functions of the repository\<close>

fun as_os_str :: "component \<Rightarrow> string" where
  "as_os_str RootDir = [slash]"
| "as_os_str CurDir = [dot]"
| "as_os_str ParentDir = [dot, dot]"
| "as_os_str (Normal s) = s"

definition hidden_component :: "component \<Rightarrow> bool" where
  "hidden_component c =
     (case to_str (as_os_str c) of None \<Rightarrow> False | Some s \<Rightarrow> prefix [dot] s)"

definition has_hidden_components :: "PathBuf \<Rightarrow> bool" where
  "has_hidden_components p = list_ex hidden_component (components p)"

definition get_relative_path :: "PathBuf \<Rightarrow> PathBuf \<Rightarrow> PathBuf outcome" where
  "get_relative_path absolute_path sync_path =
     (case strip_prefix absolute_path sync_path of
        Some p \<Rightarrow> Inr p
      | None \<Rightarrow> Inl (Err (PathIntegrityError absolute_path sync_path)))"

definition get_absolute_path ::
    "(PathBuf \<Rightarrow> PathBuf) \<Rightarrow> PathBuf \<Rightarrow> PathBuf \<Rightarrow> PathBuf outcome" where
  "get_absolute_path clean relative_path sync_path =
     (if is_absolute relative_path then Inl (Err (PathError relative_path))
      else
        (let cleaned = clean relative_path
         in if starts_with cleaned ''..'' then Inl (Err (PathError relative_path))
            else
              (let abs = path_join sync_path cleaned
               in if \<not> starts_with abs sync_path
                  then Inl (Err (PathIntegrityError abs sync_path))
                  else Inr abs)))"

text \<open>The name of the temporary file of the delta writer.\<close>

definition tmp_file :: "PathBuf \<Rightarrow> PathBuf" where
  "tmp_file p =
     (let tmp_ext = (case Option.bind (extension p) to_str of
                       None \<Rightarrow> ''tmp'' | Some e \<Rightarrow> e @ ''.tmp'')
      in set_extension p tmp_ext)"


subsection \<open>Segments and components\<close>

lemma segments_not_Nil [simp]: "segments p \<noteq> []"
  by (induction p) (auto split: list.splits)

lemma unsegments_Cons: "ss \<noteq> [] \<Longrightarrow> unsegments (s # ss) = s @ slash # unsegments ss"
  by (cases ss) auto

lemma unsegments_segments: "unsegments (segments p) = p"
proof (induction p)
  case Nil
  show ?case by simp
next
  case (Cons c cs)
  obtain s ss where s: "segments cs = s # ss" by (cases "segments cs") auto
  have "unsegments ((c # s) # ss) = c # unsegments (s # ss)"
    by (cases ss) simp_all
  then show ?case using Cons s by (simp add: unsegments_Cons)
qed

lemma segments_no_slash: "s \<in> set (segments p) \<Longrightarrow> slash \<notin> set s"
  by (induction p arbitrary: s) (auto split: list.splits if_splits)

lemma segments_plain: "slash \<notin> set s \<Longrightarrow> segments s = [s]"
  by (induction s) auto

lemma segments_append_slash: "segments (p @ slash # q) = segments p @ segments q"
  by (induction p) (auto split: list.splits)

lemma segments_unsegments:
  "ss \<noteq> [] \<Longrightarrow> (\<And>s. s \<in> set ss \<Longrightarrow> slash \<notin> set s) \<Longrightarrow> segments (unsegments ss) = ss"
proof (induction ss rule: unsegments.induct)
  case (3 s t ss)
  then have "segments (unsegments (t # ss)) = t # ss" by simp
  moreover have "segments s = [s]" using 3(3) by (intro segments_plain) simp
  ultimately show ?case by (simp add: segments_append_slash)
qed (simp_all add: segments_plain)

definition seg_leading :: "string list \<Rightarrow> component list" where
  "seg_leading ss = (if hd ss = [] \<and> tl ss \<noteq> [] then [RootDir]
                     else if hd ss = [dot] then [CurDir] else [])"

definition body :: "string list \<Rightarrow> component list" where
  "body ss = map component_of (filter (\<lambda>s. \<not> trivial s) ss)"

lemma body_append [simp]: "body (ss @ ts) = body ss @ body ts"
  by (simp add: body_def)

lemma body_Nil [simp]: "body [] = []"
  by (simp add: body_def)

lemma is_absolute_segments: "is_absolute p \<longleftrightarrow> hd (segments p) = [] \<and> tl (segments p) \<noteq> []"
  by (cases p) (auto simp: is_absolute_def split: list.splits)

lemma components_segments: "components p = seg_leading (segments p) @ body (segments p)"
  by (simp add: components_def leading_def seg_leading_def body_def is_absolute_segments)

lemma trim_right_eq: "\<exists>ts. ss = trim_right ss @ ts \<and> (\<forall>t \<in> set ts. trivial t)"
proof (intro exI conjI)
  show "ss = trim_right ss @ rev (takeWhile trivial (rev ss))"
    unfolding trim_right_def by (metis rev_append rev_rev_ident takeWhile_dropWhile_id)
  show "\<forall>t \<in> set (rev (takeWhile trivial (rev ss))). trivial t"
    by (auto dest: set_takeWhileD)
qed

lemma body_trim_right [simp]: "body (trim_right ss) = body ss"
proof -
  obtain ts where ts: "ss = trim_right ss @ ts" "\<forall>t \<in> set ts. trivial t"
    using trim_right_eq by blast
  have "body ts = []" using ts(2) by (auto simp: body_def)
  then show ?thesis using ts(1) by (metis body_append append_Nil2)
qed

lemma trim_right_last: "trim_right ss \<noteq> [] \<Longrightarrow> \<not> trivial (last (trim_right ss))"
  unfolding trim_right_def by (simp add: last_rev hd_dropWhile)

lemma set_trim_right: "s \<in> set (trim_right ss) \<Longrightarrow> s \<in> set ss"
  unfolding trim_right_def by (auto dest: set_dropWhileD)

text \<open>Joining a relative path appends its named components.\<close>

lemma components_join:
  assumes "p \<noteq> []" and "\<not> is_absolute q"
  shows "components (path_join p q) = components p @ body (segments q)"
proof (cases "last p = slash")
  case True
  then obtain p' where p': "p = p' @ [slash]" using assms(1) by (metis append_butlast_last_id)
  have seg: "segments p = segments p' @ [[]]" by (simp add: p' segments_append_slash)
  have "segments (path_join p q) = segments p' @ segments q"
    using assms True by (simp add: path_join_def p' segments_append_slash)
  moreover have "tl (segments p' @ segments q) \<noteq> []" and "tl (segments p' @ [[]]) \<noteq> []"
    by (cases "segments p'"; simp)+
  ultimately show ?thesis
    by (simp add: components_segments seg seg_leading_def hd_append body_def trivial_def)
next
  case False
  then have "segments (path_join p q) = segments p @ segments q"
    using assms by (simp add: path_join_def segments_append_slash)
  moreover have "tl (segments p @ segments q) \<noteq> []"
    by (cases "segments p") simp_all
  moreover have "hd (segments p) = [] \<Longrightarrow> tl (segments p) \<noteq> []"
    using assms(1) by (metis hd_Cons_tl segments_not_Nil unsegments_segments unsegments.simps(2))
  ultimately show ?thesis
    by (simp add: components_segments seg_leading_def hd_append)
qed

lemma components_absolute_join: "is_absolute q \<Longrightarrow> path_join p q = q"
  by (simp add: path_join_def)

lemma body_no_RootDir: "c \<in> set (body ss) \<Longrightarrow> c \<noteq> RootDir \<and> c \<noteq> CurDir"
  by (auto simp: body_def component_of_def)

lemma components_relative:
  "\<not> is_absolute q \<Longrightarrow> components q = (if hd (segments q) = [dot] then [CurDir] else []) @ body (segments q)"
  by (simp add: components_def leading_def body_def)

lemma body_eq_filter: "\<not> is_absolute q \<Longrightarrow> body (segments q) = filter (\<lambda>c. c \<noteq> CurDir) (components q)"
  by (auto simp: components_relative filter_id_conv body_no_RootDir)


subsection \<open>Stripping a prefix\<close>

lemma body_Cons: "body (s # ss) = (if trivial s then body ss else component_of s # body ss)"
  by (simp add: body_def)

lemma body_drop_body: "body (drop_body n ss) = drop n (body ss)"
  by (induction n ss rule: drop_body.induct) (simp_all add: body_Cons)

lemma hd_drop_body: "drop_body n ss \<noteq> [] \<Longrightarrow> \<not> trivial (hd (drop_body n ss))"
  by (induction n ss rule: drop_body.induct) (auto split: if_splits)

lemma set_drop_body: "s \<in> set (drop_body n ss) \<Longrightarrow> s \<in> set ss"
  by (induction n ss rule: drop_body.induct) (auto split: if_splits)

lemma trim_right_hd: "trim_right ss \<noteq> [] \<Longrightarrow> hd (trim_right ss) = hd ss"
  using trim_right_eq[of ss] by (metis hd_append2)

lemma components_unsegments:
  assumes "ss \<noteq> []" and "\<And>s. s \<in> set ss \<Longrightarrow> slash \<notin> set s"
  shows "components (unsegments ss) = seg_leading ss @ body ss"
  using segments_unsegments[OF assms] by (simp add: components_segments)

lemma length_leading: "length (leading p) \<le> 1"
  by (simp add: leading_def)

lemma components_empty: "components [] = []"
  by (simp add: components_def leading_def is_absolute_def trivial_def)

text \<open>A path all of whose segments are empty or \<open>.\<close>, cut to its first byte.\<close>

lemma components_all_trivial:
  assumes "trim_right (segments p) = []"
  shows "components (take 1 p) = components p"
proof (cases p)
  case Nil
  then show ?thesis by simp
next
  case (Cons c cs)
  have b: "body (segments p) = []" using body_trim_right[of "segments p"] assms by simp
  have "trivial (hd (segments p))"
    using assms by (auto simp: trim_right_def)
  then have "c = slash \<or> c = dot \<and> hd (segments p) = [dot]"
    by (auto simp: Cons trivial_def split: list.splits if_splits)
  then show ?thesis
    using b by (auto simp: Cons components_def leading_def is_absolute_def body_def trivial_def)
qed

lemma components_trimmed:
  assumes "trim_right (segments p) \<noteq> []"
  shows "components (unsegments (trim_right (segments p))) = components p"
proof -
  let ?t = "trim_right (segments p)"
  obtain ts where ts: "segments p = ?t @ ts" using trim_right_eq[of "segments p"] by metis
  have "\<not> trivial (last ?t)" using trim_right_last[OF assms] .
  then have "hd ?t = [] \<Longrightarrow> tl ?t \<noteq> []"
    using assms by (cases ?t) (auto simp: trivial_def)
  then have lead: "seg_leading ?t = seg_leading (segments p)"
    using assms trim_right_hd[OF assms] ts by (cases ?t) (auto simp: seg_leading_def)
  have "components (unsegments ?t) = seg_leading ?t @ body ?t"
    using assms by (intro components_unsegments) (auto dest: set_trim_right segments_no_slash)
  then show ?thesis by (simp add: lead components_segments)
qed

text \<open>What \<open>strip_prefix\<close> returns completes the base to the path.\<close>

lemma strip_prefix_components:
  assumes "strip_prefix p base = Some r"
  shows "components p = components base @ components r"
proof (cases "components base = []")
  case True
  have "components r = components p"
  proof (cases "trim_right (segments p)")
    case Nil
    then have "r = take 1 p" using assms True by (simp add: strip_prefix_def split: if_splits)
    then show ?thesis using Nil components_all_trivial by simp
  next
    case (Cons s ss)
    then have "r = unsegments (trim_right (segments p))"
      using assms True by (simp add: strip_prefix_def split: if_splits)
    then show ?thesis using Cons components_trimmed[of p] by simp
  qed
  then show ?thesis using True by simp
next
  case False
  let ?n = "length (components base) - length (leading p)"
  let ?t = "trim_right (drop_body ?n (segments p))"
  have pre: "prefix (components base) (components p)" and r: "r = unsegments ?t"
    using assms False by (auto simp: strip_prefix_def starts_with_def split: if_splits)
  have "length (leading p) \<le> length (components base)"
    using length_leading[of p] False by (cases "components base") auto
  then have drop: "drop (length (components base)) (components p) = drop ?n (body (segments p))"
    by (simp add: components_def body_def)
  have "components r = drop ?n (body (segments p))"
  proof (cases "?t = []")
    case True
    then have "body (drop_body ?n (segments p)) = []" by (metis body_Nil body_trim_right)
    then show ?thesis using True by (simp add: r components_empty body_drop_body)
  next
    case False
    then have "drop_body ?n (segments p) \<noteq> []" by (auto simp: trim_right_def)
    then have "\<not> trivial (hd ?t)" using hd_drop_body trim_right_hd[OF False] by simp
    then have "seg_leading ?t = []" by (auto simp: seg_leading_def trivial_def)
    moreover have "components r = seg_leading ?t @ body ?t"
      unfolding r using False
      by (intro components_unsegments) (auto dest!: set_trim_right set_drop_body segments_no_slash)
    ultimately show ?thesis by (simp add: body_drop_body)
  qed
  with pre drop show ?thesis by (auto simp: prefix_def)
qed

subsection \<open>Lexical cleaning\<close>

text \<open>
  The documented rules of path_clean on a relative path: every \<open>.\<close> element is
  removed, every inner \<open>..\<close> is removed together with the element before it, the
  \<open>..\<close> elements that begin the path stay, and an empty result is \<open>.\<close>.
\<close>

fun cancel_parents :: "component list \<Rightarrow> component list \<Rightarrow> component list" where
  "cancel_parents st [] = rev st"
| "cancel_parents st (ParentDir # cs) =
     (case st of Normal s # st' \<Rightarrow> cancel_parents st' cs
      | _ \<Rightarrow> cancel_parents (ParentDir # st) cs)"
| "cancel_parents st (c # cs) = cancel_parents (c # st) cs"

definition clean_rules :: "component list \<Rightarrow> component list" where
  "clean_rules cs =
     (let r = cancel_parents [] (filter (\<lambda>c. c \<noteq> CurDir) cs) in if r = [] then [CurDir] else r)"

locale path_cleaner =
  fixes clean :: "PathBuf \<Rightarrow> PathBuf"
  assumes clean_relative: "\<not> is_absolute p \<Longrightarrow> \<not> is_absolute (clean p)"
    and clean_components: "\<not> is_absolute p \<Longrightarrow> components (clean p) = clean_rules (components p)"

text \<open>A stack of names above leading \<open>..\<close> elements keeps that shape.\<close>

lemma cancel_parents_shape:
  assumes "\<forall>c \<in> set cs. c \<noteq> RootDir \<and> c \<noteq> CurDir"
  shows "\<exists>k names. cancel_parents (map Normal st @ replicate j ParentDir) cs =
           replicate k ParentDir @ map Normal names"
  using assms
proof (induction cs arbitrary: st j)
  case Nil
  have "rev (map Normal st @ replicate j ParentDir) = replicate j ParentDir @ map Normal (rev st)"
    by (simp add: rev_map)
  then show ?case by (metis cancel_parents.simps(1))
next
  case (Cons c cs)
  have rest: "\<forall>c \<in> set cs. c \<noteq> RootDir \<and> c \<noteq> CurDir" using Cons.prems by simp
  show ?case
  proof (cases c)
    case (Normal s)
    then show ?thesis using Cons.IH[OF rest, of "s # st" j] by simp
  next
    case ParentDir
    show ?thesis
    proof (cases st)
      case Nil
      have "ParentDir # replicate j ParentDir = map Normal [] @ replicate (Suc j) ParentDir" by simp
      moreover have "cancel_parents (replicate j ParentDir) (ParentDir # cs) =
          cancel_parents (ParentDir # replicate j ParentDir) cs"
        by (cases j) simp_all
      ultimately show ?thesis
        using Cons.IH[OF rest, of "[]" "Suc j"] ParentDir Nil by simp
    next
      case (Cons s st')
      then show ?thesis using Cons.IH[OF rest, of st' j] ParentDir by simp
    qed
  qed (use Cons.prems in auto)
qed

lemma clean_rules_shape:
  assumes "\<forall>c \<in> set cs. c \<noteq> RootDir"
  shows "clean_rules cs = [CurDir] \<or>
         (\<exists>k names. clean_rules cs = replicate k ParentDir @ map Normal names)"
  using cancel_parents_shape[of "filter (\<lambda>c. c \<noteq> CurDir) cs" "[]" 0] assms
  by (auto simp: clean_rules_def Let_def)

lemma relative_no_RootDir: "\<not> is_absolute p \<Longrightarrow> \<forall>c \<in> set (components p). c \<noteq> RootDir"
  using body_no_RootDir by (auto simp: components_relative)

lemma components_dotdot: "components ''..'' = [ParentDir]"
  by (simp add: components_def leading_def is_absolute_def trivial_def component_of_def)

context path_cleaner
begin

lemma clean_shape:
  assumes "\<not> is_absolute p" and "\<not> starts_with (clean p) ''..''"
  shows "\<exists>names. filter (\<lambda>c. c \<noteq> CurDir) (components (clean p)) = map Normal names"
proof -
  have "clean_rules (components p) = [CurDir] \<or>
      (\<exists>k names. clean_rules (components p) = replicate k ParentDir @ map Normal names)"
    using assms(1) by (intro clean_rules_shape relative_no_RootDir)
  then show ?thesis
  proof
    assume "clean_rules (components p) = [CurDir]"
    then show ?thesis by (simp add: clean_components[OF assms(1)])
  next
    assume "\<exists>k names. clean_rules (components p) = replicate k ParentDir @ map Normal names"
    then obtain k names where k: "components (clean p) = replicate k ParentDir @ map Normal names"
      using clean_components[OF assms(1)] by auto
    with assms(2) have "k = 0"
      by (cases k) (auto simp: starts_with_def components_dotdot)
    with k show ?thesis by (auto simp: filter_id_conv)
  qed
qed

text \<open>An accepted path lies below the sync directory, and never steps up.\<close>

lemma accepted_below:
  assumes "sync_path \<noteq> []" and "get_absolute_path clean p sync_path = Inr r"
  shows "\<exists>names. components r = components sync_path @ map Normal names \<and>
           map Normal names = filter (\<lambda>c. c \<noteq> CurDir) (clean_rules (components p))"
proof -
  have rel: "\<not> is_absolute p" and up: "\<not> starts_with (clean p) ''..''"
    and r: "r = path_join sync_path (clean p)"
    using assms(2) by (auto simp: get_absolute_path_def Let_def split: if_splits)
  obtain names where names: "filter (\<lambda>c. c \<noteq> CurDir) (components (clean p)) = map Normal names"
    using clean_shape[OF rel up] by blast
  have "components r = components sync_path @ body (segments (clean p))"
    using assms(1) clean_relative[OF rel] by (simp add: r components_join)
  also have "body (segments (clean p)) = map Normal names"
    using clean_relative[OF rel] names by (simp add: body_eq_filter)
  finally show ?thesis using names clean_components[OF rel] by auto
qed

text \<open>A relative path is accepted exactly when its cleaned form does not begin with \<open>..\<close>.\<close>

lemma accepted_iff:
  assumes "sync_path \<noteq> []" and "\<not> is_absolute p"
  shows "(\<exists>r. get_absolute_path clean p sync_path = Inr r) \<longleftrightarrow>
         \<not> prefix [ParentDir] (clean_rules (components p))"
proof -
  have "starts_with (path_join sync_path (clean p)) sync_path"
    using assms by (simp add: starts_with_def components_join clean_relative)
  then show ?thesis
    using assms(2)
    by (auto simp: get_absolute_path_def Let_def starts_with_def components_dotdot clean_components)
qed

end


text \<open>An implementation of the documented rules, which shows that they can be met.\<close>

definition lexical_clean :: "PathBuf \<Rightarrow> PathBuf" where
  "lexical_clean p =
     (if is_absolute p
      then slash # unsegments (map as_os_str (dropWhile (\<lambda>c. c = ParentDir)
             (cancel_parents [] (filter (\<lambda>c. c \<noteq> CurDir \<and> c \<noteq> RootDir) (components p)))))
      else unsegments (map as_os_str (clean_rules (components p))))"

definition plain_component :: "component \<Rightarrow> bool" where
  "plain_component c \<longleftrightarrow> c = ParentDir \<or>
     (\<exists>s. c = Normal s \<and> \<not> trivial s \<and> s \<noteq> [dot, dot] \<and> slash \<notin> set s)"

lemma plain_component_body: "\<forall>c \<in> set (body (segments p)). plain_component c"
  by (auto simp: body_def plain_component_def component_of_def dest: segments_no_slash)

lemma set_cancel_parents: "set (cancel_parents st cs) \<subseteq> set st \<union> set cs"
proof (induction st cs rule: cancel_parents.induct)
  case (2 st cs)
  then show ?case by (fastforce split: list.splits component.splits)
qed auto

lemma plain_as_os_str:
  "plain_component c \<Longrightarrow>
     \<not> trivial (as_os_str c) \<and> slash \<notin> set (as_os_str c) \<and> component_of (as_os_str c) = c"
  by (auto simp: plain_component_def component_of_def trivial_def)

lemma components_unsegments_plain:
  assumes "cs \<noteq> []" and "\<forall>c \<in> set cs. plain_component c"
  shows "components (unsegments (map as_os_str cs)) = cs"
proof -
  have seg: "segments (unsegments (map as_os_str cs)) = map as_os_str cs"
    using assms by (intro segments_unsegments) (auto dest: plain_as_os_str)
  have "\<not> trivial (as_os_str (hd cs))" using assms plain_as_os_str by simp
  then have lead: "seg_leading (map as_os_str cs) = []"
    using assms(1) by (auto simp: seg_leading_def hd_map trivial_def)
  have "body (map as_os_str cs) = cs"
    using assms(2) by (induction cs) (auto simp: body_def dest: plain_as_os_str)
  with seg lead show ?thesis by (simp add: components_segments)
qed

lemma clean_rules_plain:
  assumes "\<not> is_absolute p" and "c \<in> set (clean_rules (components p))" and "c \<noteq> CurDir"
  shows "plain_component c"
proof -
  have "set (cancel_parents [] (body (segments p))) \<subseteq> set (body (segments p))"
    using set_cancel_parents[of "[]"] by simp
  moreover have "c \<in> set (cancel_parents [] (body (segments p)))"
    using assms by (auto simp: clean_rules_def Let_def body_eq_filter split: if_splits)
  ultimately show ?thesis using plain_component_body by blast
qed

lemma lexical_clean_components:
  assumes "\<not> is_absolute p"
  shows "components (lexical_clean p) = clean_rules (components p)"
proof (cases "clean_rules (components p) = [CurDir]")
  case True
  then show ?thesis
    using assms by (simp add: lexical_clean_def components_def leading_def is_absolute_def trivial_def)
next
  case False
  have "clean_rules (components p) \<noteq> []"
    by (simp add: clean_rules_def Let_def)
  moreover have "CurDir \<notin> set (clean_rules (components p))"
    using clean_rules_shape[OF relative_no_RootDir[OF assms]] False by auto
  ultimately show ?thesis
    using assms clean_rules_plain[OF assms]
    by (metis lexical_clean_def components_unsegments_plain)
qed

lemma is_absolute_components: "is_absolute p \<longleftrightarrow> RootDir \<in> set (components p)"
  using relative_no_RootDir by (auto simp: components_def leading_def)

lemma lexical_clean_relative: "\<not> is_absolute p \<Longrightarrow> \<not> is_absolute (lexical_clean p)"
  using clean_rules_plain[of p RootDir]
  by (auto simp: is_absolute_components[of "lexical_clean p"] lexical_clean_components plain_component_def)

interpretation lexical: path_cleaner lexical_clean
  by unfold_locales (rule lexical_clean_relative lexical_clean_components; assumption)+

subsection \<open>Properties of the checks on paths\<close>

text \<open>A path that \<open>get_absolute_path\<close> accepts lies inside the sync directory: its
  components are those of the sync directory followed by names only, with no \<open>..\<close>, so
  no request can reach a file outside.\<close>

theorem get_absolute_path_stays_inside:
  assumes "path_cleaner clean" and "sync_path \<noteq> []"
    and "get_absolute_path clean p sync_path = Inr r"
  shows "\<exists>names. components r = components sync_path @ map Normal names"
  using path_cleaner.accepted_below[OF assms] by blast

theorem get_absolute_path_stays_inside_witness:
  "\<exists>names. components ''/srv/a/c'' = components ''/srv'' @ map Normal names"
proof (rule get_absolute_path_stays_inside)
  show "path_cleaner lexical_clean" by (rule lexical.path_cleaner_axioms)
  show "get_absolute_path lexical_clean ''a/./b/../c'' ''/srv'' = Inr ''/srv/a/c''"
    by code_simp
qed simp

text \<open>Which requests are refused: an absolute path always, and a relative path exactly when
  its cleaned form steps above its starting point; the error carries the path as requested.\<close>

theorem get_absolute_path_refuses:
  assumes "path_cleaner clean" and "sync_path \<noteq> []"
  shows "get_absolute_path clean p sync_path = Inl (Err (PathError p)) \<longleftrightarrow>
         is_absolute p \<or> prefix [ParentDir] (clean_rules (components p))"
proof (cases "is_absolute p")
  case True
  then show ?thesis by (simp add: get_absolute_path_def)
next
  case False
  have "starts_with (path_join sync_path (clean p)) sync_path"
    using assms False path_cleaner.clean_relative
    by (simp add: starts_with_def components_join)
  then show ?thesis
    using False path_cleaner.clean_components[OF assms(1) False]
    by (simp add: get_absolute_path_def Let_def starts_with_def components_dotdot)
qed

theorem get_absolute_path_refuses_witness:
  "get_absolute_path lexical_clean ''a/../../etc/passwd'' ''/srv'' =
     Inl (Err (PathError ''a/../../etc/passwd''))"
proof -
  have "prefix [ParentDir] (clean_rules (components ''a/../../etc/passwd''))" by code_simp
  then show ?thesis
    using get_absolute_path_refuses[OF lexical.path_cleaner_axioms, of "''/srv''"] by simp
qed

subsection \<open>The temporary file\<close>

lemma stem_ext_None: "stem_ext f = (st, None) \<Longrightarrow> st = f"
  by (auto simp: stem_ext_def split: list.splits if_splits)

lemma stem_ext_Some:
  assumes "stem_ext f = (st, Some e)"
  shows "f = st @ dot # e"
proof -
  obtain before c where c: "dropWhile (\<lambda>c. c \<noteq> dot) (rev f) = c # before"
      and st: "st = rev before" and e: "e = rev (takeWhile (\<lambda>c. c \<noteq> dot) (rev f))"
    using assms by (auto simp: stem_ext_def split: list.splits if_splits)
  have "c = dot" using c hd_dropWhile[of "\<lambda>c. c \<noteq> dot" "rev f"] by (metis list.distinct(1) list.sel(1))
  have "rev f = takeWhile (\<lambda>c. c \<noteq> dot) (rev f) @ dot # before"
    using takeWhile_dropWhile_id[of "\<lambda>c. c \<noteq> dot" "rev f"] c \<open>c = dot\<close> by simp
  then have "f = rev (takeWhile (\<lambda>c. c \<noteq> dot) (rev f) @ dot # before)" by (metis rev_rev_ident)
  then show ?thesis by (simp add: st e)
qed

lemma last_segment_Some:
  assumes "last_segment p = Some f"
  shows "trim_right (segments p) = butlast (trim_right (segments p)) @ [f]"
    and "\<not> trivial f" and "f \<noteq> [dot, dot]" and "slash \<notin> set f"
proof -
  have ne: "trim_right (segments p) \<noteq> []" and f: "f = last (trim_right (segments p))"
      and "f \<noteq> [dot, dot]"
    using assms by (auto simp: last_segment_def split: list.splits if_splits)
  then show "trim_right (segments p) = butlast (trim_right (segments p)) @ [f]"
    and "f \<noteq> [dot, dot]" by simp_all
  show "\<not> trivial f" using ne f trim_right_last by simp
  show "slash \<notin> set f"
    using ne f by (metis last_in_set segments_no_slash set_trim_right)
qed

text \<open>The temporary name is the file name with \<open>.tmp\<close> appended.\<close>

lemma tmp_file_eq:
  assumes "last_segment p = Some f" and "\<And>e. extension p = Some e \<Longrightarrow> utf8_valid e"
  shows "tmp_file p = unsegments (butlast (trim_right (segments p)) @ [f @ ''.tmp''])"
proof (cases "stem_ext f")
  case (Pair st x)
  show ?thesis
  proof (cases x)
    case None
    then show ?thesis
      using Pair assms stem_ext_None[of f st]
      by (simp add: tmp_file_def extension_def set_extension_def)
  next
    case (Some e)
    then have "utf8_valid e" using Pair assms by (simp add: extension_def)
    then show ?thesis
      using Pair Some assms(1) stem_ext_Some[of f st e]
      by (simp add: tmp_file_def extension_def set_extension_def to_str_def)
  qed
qed

lemma body_single: "\<not> trivial f \<Longrightarrow> f \<noteq> [dot, dot] \<Longrightarrow> body [f] = [Normal f]"
  by (simp add: body_def component_of_def)

lemma body_last_segment:
  assumes "last_segment p = Some f"
  shows "body (segments p) = body (butlast (trim_right (segments p))) @ [Normal f]"
proof -
  have "body (segments p) = body (trim_right (segments p))" by simp
  also have "\<dots> = body (butlast (trim_right (segments p))) @ body [f]"
    by (subst last_segment_Some(1)[OF assms]) (rule body_append)
  finally show ?thesis
    using last_segment_Some(2,3)[OF assms] by (simp add: body_single)
qed

lemma components_last_segment:
  assumes "last_segment p = Some f"
  shows "components p = butlast (components p) @ [Normal f]"
  by (simp add: components_segments body_last_segment[OF assms] butlast_append)

lemma components_replace_last:
  assumes "last_segment p = Some f" and "\<not> trivial g" and "g \<noteq> [dot, dot]" and "slash \<notin> set g"
  shows "components (unsegments (butlast (trim_right (segments p)) @ [g])) =
         butlast (components p) @ [Normal g]"
proof -
  let ?b = "butlast (trim_right (segments p))"
  have tr: "trim_right (segments p) = ?b @ [f]" using last_segment_Some(1)[OF assms(1)] .
  obtain ts where ts: "segments p = (?b @ [f]) @ ts" using trim_right_eq[of "segments p"] tr by metis
  have nt: "\<not> trivial f" using last_segment_Some(2)[OF assms(1)] .
  have noslash: "s \<in> set (?b @ [g]) \<Longrightarrow> slash \<notin> set s" for s
    using assms(4) by (auto dest!: in_set_butlastD set_trim_right segments_no_slash)
  have seg: "segments (unsegments (?b @ [g])) = ?b @ [g]"
    using noslash by (intro segments_unsegments) auto
  have lead: "seg_leading (?b @ [g]) = seg_leading (segments p)"
    using nt assms(2) ts by (cases ?b) (auto simp: seg_leading_def trivial_def)
  have bg: "body [g] = [Normal g]" using assms(2,3) by (rule body_single)
  have bf: "body (segments p) = body ?b @ [Normal f]" using assms(1) by (rule body_last_segment)
  show ?thesis
    by (simp add: components_segments seg lead bg bf butlast_append)
qed

lemma tmp_file_components:
  assumes "last_segment p = Some f" and "\<And>e. extension p = Some e \<Longrightarrow> utf8_valid e"
  shows "components (tmp_file p) = butlast (components p) @ [Normal (f @ ''.tmp'')]"
  using last_segment_Some(4)[OF assms(1)]
  by (subst tmp_file_eq[OF assms]) (auto intro!: components_replace_last assms(1) simp: trivial_def)

lemma last_segment_of_components:
  assumes "components p = cs @ [Normal f]"
  shows "last_segment p = Some f"
proof -
  let ?t = "trim_right (segments p)"
  have eq: "seg_leading (segments p) @ body ?t = cs @ [Normal f]"
    using assms by (simp add: components_segments)
  have ne: "?t \<noteq> []"
  proof
    assume "?t = []"
    then have "seg_leading (segments p) = cs @ [Normal f]" using eq by (metis append_Nil2 body_Nil)
    then show False by (auto simp: seg_leading_def append_eq_Cons_conv split: if_splits)
  qed
  then have "body ?t = body (butlast ?t) @ body [last ?t]" by (metis append_butlast_last_id body_append)
  moreover have "body [last ?t] = [component_of (last ?t)]"
    using trim_right_last[OF ne] by (simp add: body_def)
  ultimately have "component_of (last ?t) = Normal f" using eq by (metis append_assoc last_snoc)
  then have "last ?t = f" "f \<noteq> [dot, dot]" by (auto simp: component_of_def split: if_splits)
  then show ?thesis using ne by (auto simp: last_segment_def split: list.splits)
qed

text \<open>Whatever the extension, the temporary file is in the directory of the target.\<close>

lemma tmp_file_directory:
  assumes "last_segment p = Some f"
  shows "\<exists>g. components (tmp_file p) = butlast (components p) @ [Normal g]"
proof (cases "\<forall>e. extension p = Some e \<longrightarrow> utf8_valid e")
  case True
  then show ?thesis using tmp_file_components[OF assms] by blast
next
  case False
  then obtain e where e: "extension p = Some e" "\<not> utf8_valid e" by blast
  obtain st where st: "stem_ext f = (st, Some e)"
    using e(1) assms by (cases "stem_ext f") (simp add: extension_def)
  have "tmp_file p = unsegments (butlast (trim_right (segments p)) @ [st @ ''.tmp''])"
    using e assms st by (simp add: tmp_file_def to_str_def set_extension_def)
  moreover have "slash \<notin> set (st @ ''.tmp'')"
    using last_segment_Some(4)[OF assms] stem_ext_Some[OF st] by auto
  ultimately show ?thesis
    using components_replace_last[OF assms, of "st @ ''.tmp''"] by (auto simp: trivial_def)
qed

text \<open>The temporary file is a sibling of the target whose name is the target's with
  \<open>.tmp\<close> appended (if the extension is UTF-8), so it never is the target itself, and
  different targets have different temporary files.\<close>

theorem tmp_file_is_sibling:
  assumes "last_segment p = Some f" and "\<And>e. extension p = Some e \<Longrightarrow> utf8_valid e"
  shows "components (tmp_file p) = butlast (components p) @ [Normal (f @ ''.tmp'')] \<and>
         components p = butlast (components p) @ [Normal f] \<and>
         components (tmp_file p) \<noteq> components p"
proof -
  have "components (tmp_file p) = butlast (components p) @ [Normal (f @ ''.tmp'')]"
    using assms by (rule tmp_file_components)
  moreover have "components p = butlast (components p) @ [Normal f]"
    using assms(1) by (rule components_last_segment)
  ultimately show ?thesis by (metis append_self_conv last_snoc component.inject list.distinct(1))
qed

theorem tmp_file_is_sibling_witness:
  "components (tmp_file ''/srv/a.txt'') \<noteq> components ''/srv/a.txt''"
proof -
  have "last_segment ''/srv/a.txt'' = Some ''a.txt''" by code_simp
  moreover have "extension ''/srv/a.txt'' = Some e \<Longrightarrow> utf8_valid e" for e
  proof -
    have "extension ''/srv/a.txt'' = Some ''txt''" and "utf8_valid ''txt''" by code_simp+
    then show "extension ''/srv/a.txt'' = Some e \<Longrightarrow> utf8_valid e" by simp
  qed
  ultimately show ?thesis using tmp_file_is_sibling by blast
qed

end
