(* ===== verification/File_System.thy ===== *)
theory File_System
  imports Path_Buf
begin

section \<open>The file system\<close>

text \<open>
  The operations of \<open>std::fs\<close> (and their tokio forms) the program calls, on a file
  system without symbolic links.  A path is resolved against the working directory by
  walking its components.  \<open>fault\<close> lists the paths on which opening fails for a
  reason the tree does not show (permissions, a full disk, a broken device), so every
  error branch of the program can be reached.  A file keeps its contents and its
  modification time (seconds since the epoch, possibly negative, and nanoseconds).
\<close>

record mtime =
  mt_secs :: int
  mt_nanos :: nat

datatype node = Dir | File "byte list" mtime

record file_system =
  nodes :: "string list \<rightharpoonup> node"
  cwd :: "string list"
  fault :: "string list \<Rightarrow> io_error option"
  clock :: mtime

fun resolve_step :: "string list \<Rightarrow> component \<Rightarrow> string list" where
  "resolve_step d RootDir = []"
| "resolve_step d CurDir = d"
| "resolve_step d ParentDir = butlast d"
| "resolve_step d (Normal s) = d @ [s]"

definition resolve :: "file_system \<Rightarrow> PathBuf \<Rightarrow> string list" where
  "resolve F p = foldl resolve_step (cwd F) (components p)"

definition is_dir :: "file_system \<Rightarrow> string list \<Rightarrow> bool" where
  "is_dir F k \<longleftrightarrow> k = [] \<or> nodes F k = Some Dir"

text \<open>Why a path has no node: some ancestor is a file, or an ancestor is missing too.\<close>

definition missing_kind :: "file_system \<Rightarrow> string list \<Rightarrow> io_error" where
  "missing_kind F k =
     (if list_ex (\<lambda>n. case nodes F (take n k) of Some (File _ _) \<Rightarrow> True | _ \<Rightarrow> False) [0..<length k]
      then NotADirectory else NotFound)"

definition lookup_file :: "file_system \<Rightarrow> string list \<Rightarrow> io_error + (byte list \<times> mtime)" where
  "lookup_file F k =
     (if is_dir F k then Inl IsADirectory
      else case nodes F k of
        Some (File c m) \<Rightarrow> Inr (c, m)
      | _ \<Rightarrow> Inl (missing_kind F k))"

text \<open>\<open>fs::read\<close>\<close>

definition fs_read :: "file_system \<Rightarrow> PathBuf \<Rightarrow> io_error + byte list" where
  "fs_read F p =
     (let k = resolve F p in
      case fault F k of
        Some e \<Rightarrow> Inl e
      | None \<Rightarrow> map_sum id fst (lookup_file F k))"

text \<open>\<open>fs::metadata(..).modified()\<close> of a path that has just been read.\<close>

definition fs_modified :: "file_system \<Rightarrow> PathBuf \<Rightarrow> io_error + mtime" where
  "fs_modified F p = map_sum id snd (lookup_file F (resolve F p))"

text \<open>\<open>Path::exists\<close>\<close>

definition fs_exists :: "file_system \<Rightarrow> PathBuf \<Rightarrow> bool" where
  "fs_exists F p = (let k = resolve F p in is_dir F k \<or> nodes F k \<noteq> None)"

definition put_file :: "string list \<Rightarrow> byte list \<Rightarrow> mtime \<Rightarrow> file_system \<Rightarrow> file_system" where
  "put_file k c m F = F\<lparr>nodes := (nodes F)(k \<mapsto> File c m)\<rparr>"

text \<open>
  \<open>File::create\<close>: open for writing, truncating an existing file; the directory must
  exist.  The result is the handle (the resolved location of the file).
\<close>

definition fs_create :: "file_system \<Rightarrow> PathBuf \<Rightarrow> io_error + (string list \<times> file_system)" where
  "fs_create F p =
     (let k = resolve F p in
      case fault F k of
        Some e \<Rightarrow> Inl e
      | None \<Rightarrow>
          if is_dir F k then Inl IsADirectory
          else if \<not> is_dir F (butlast k) then Inl (missing_kind F k)
          else Inr (k, put_file k [] (clock F) F))"

text \<open>
  Writing bytes at an offset: a gap after the old end is filled with zeros, and nothing
  happens for no bytes.
\<close>

definition write_at :: "byte list \<Rightarrow> nat \<Rightarrow> byte list \<Rightarrow> byte list" where
  "write_at c pos bs =
     (if bs = [] then c
      else take pos (c @ replicate (pos - length c) 0) @ bs @ drop (pos + length bs) c)"

text \<open>
  \<open>seek(SeekFrom::Start(offset))\<close>: the system's file offset is signed, so an offset
  above \<open>i64::MAX\<close> is refused.  \<open>write_all\<close> on an open file at the offset
  it has been moved to.
\<close>

definition fs_seek :: "u64 \<Rightarrow> io_error + nat" where
  "fs_seek offset = (if 2 ^ 63 \<le> unat offset then Inl InvalidInput else Inr (unat offset))"

definition fs_write_all :: "file_system \<Rightarrow> string list \<Rightarrow> nat \<Rightarrow> byte list \<Rightarrow> io_error + file_system" where
  "fs_write_all F k pos bs =
     (case nodes F k of
        Some (File c m) \<Rightarrow> Inr (put_file k (write_at c pos bs) (clock F) F)
      | _ \<Rightarrow> Inl OtherIo)"

text \<open>\<open>fs::rename\<close> of a file, replacing an existing file.\<close>

definition fs_rename :: "file_system \<Rightarrow> PathBuf \<Rightarrow> PathBuf \<Rightarrow> io_error + file_system" where
  "fs_rename F src dst =
     (let k = resolve F src; l = resolve F dst in
      case fault F l of
        Some e \<Rightarrow> Inl e
      | None \<Rightarrow>
          (case lookup_file F k of
             Inl e \<Rightarrow> Inl e
           | Inr (c, m) \<Rightarrow>
               if is_dir F l then Inl IsADirectory
               else if \<not> is_dir F (butlast l) then Inl (missing_kind F l)
               else Inr (put_file l c m (F\<lparr>nodes := (nodes F)(k := None)\<rparr>))))"

text \<open>\<open>fs::write\<close>: create or truncate, then write everything.\<close>

definition fs_write :: "file_system \<Rightarrow> PathBuf \<Rightarrow> byte list \<Rightarrow> io_error + file_system" where
  "fs_write F p bs =
     (case fs_create F p of
        Inl e \<Rightarrow> Inl e
      | Inr (k, F') \<Rightarrow> Inr (put_file k bs (clock F') F'))"

text \<open>
  \<open>DirBuilder::recursive(true).create\<close>: every directory of the path that is missing is
  made, from the outermost in.
\<close>

fun mkdirs :: "string list \<Rightarrow> component list \<Rightarrow> file_system \<Rightarrow> io_error + file_system" where
  "mkdirs d [] F = Inr F"
| "mkdirs d (c # cs) F =
     (let k = resolve_step d c in
      if is_dir F k then mkdirs k cs F
      else if nodes F k \<noteq> None then Inl (if cs = [] then AlreadyExists else NotADirectory)
      else case fault F k of
        Some e \<Rightarrow> Inl e
      | None \<Rightarrow> mkdirs k cs (F\<lparr>nodes := (nodes F)(k \<mapsto> Dir)\<rparr>))"

definition fs_create_dir_all :: "file_system \<Rightarrow> PathBuf \<Rightarrow> io_error + file_system" where
  "fs_create_dir_all F p = mkdirs (cwd F) (components p) F"

text \<open>The contents of a path, as an observer sees them.\<close>

definition contents :: "file_system \<Rightarrow> PathBuf \<Rightarrow> byte list option" where
  "contents F p = (case nodes F (resolve F p) of Some (File c _) \<Rightarrow> Some c | _ \<Rightarrow> None)"


subsection \<open>Laws\<close>

lemma write_at_end [fs_simps]: "write_at c (length c) bs = c @ bs"
  by (simp add: write_at_def)

lemma length_write_at:
  "length (write_at c pos bs) = (if bs = [] then length c else max (length c) (pos + length bs))"
  by (auto simp: write_at_def)

lemma write_at_Nil [fs_simps]: "write_at c pos [] = c"
  by (simp add: write_at_def)

lemma write_at_gap: "bs \<noteq> [] \<Longrightarrow> length c \<le> pos \<Longrightarrow>
    write_at c pos bs = c @ replicate (pos - length c) 0 @ bs"
  by (simp add: write_at_def)

lemma resolve_put_file [simp]: "resolve (put_file k c m F) p = resolve F p"
  by (simp add: resolve_def put_file_def)

lemma nodes_put_file [simp]: "nodes (put_file k c m F) l = (if l = k then Some (File c m) else nodes F l)"
  by (simp add: put_file_def)

lemma fault_put_file [simp]: "fault (put_file k c m F) = fault F"
  and clock_put_file [simp]: "clock (put_file k c m F) = clock F"
  and cwd_put_file [simp]: "cwd (put_file k c m F) = cwd F"
  by (simp_all add: put_file_def)

lemma put_file_put_file [simp]: "put_file k c m (put_file k c' m' F) = put_file k c m F"
  by (simp add: put_file_def)

lemma put_file_same: "nodes F k = Some (File c m) \<Longrightarrow> put_file k c m F = F"
  by (simp add: put_file_def fun_upd_idem)

lemma is_dir_put_file: "\<not> is_dir F k \<Longrightarrow> is_dir (put_file k c m F) l \<longleftrightarrow> is_dir F l"
  by (auto simp: is_dir_def)

lemma resolve_nodes_update [simp]: "resolve (F\<lparr>nodes := n\<rparr>) p = resolve F p"
  by (simp add: resolve_def)

lemma resolve_names: "foldl resolve_step d (map Normal names) = d @ names"
  by (induction names arbitrary: d) simp_all

text \<open>A path whose components extend another's by names resolves below it.\<close>

lemma resolve_below:
  "components r = components p @ map Normal names \<Longrightarrow> resolve F r = resolve F p @ names"
  by (simp add: resolve_def resolve_names)

lemma resolve_components: "components p = components q \<Longrightarrow> resolve F p = resolve F q"
  by (simp add: resolve_def)

lemma fs_read_Inr:
  "fs_read F p = Inr c \<longleftrightarrow> fault F (resolve F p) = None \<and> \<not> is_dir F (resolve F p) \<and>
     (\<exists>m. nodes F (resolve F p) = Some (File c m))"
  by (auto simp: fs_read_def lookup_file_def Let_def split: option.splits node.splits)

lemma fs_create_Inr:
  "fs_create F p = Inr (k, F') \<longleftrightarrow> k = resolve F p \<and> fault F k = None \<and> \<not> is_dir F k \<and>
     is_dir F (butlast k) \<and> F' = put_file k [] (clock F) F"
  by (auto simp: fs_create_def Let_def split: option.splits if_splits)

lemma fs_create_missing_dir:
  "fault F (resolve F p) = None \<Longrightarrow> \<not> is_dir F (resolve F p) \<Longrightarrow> \<not> is_dir F (butlast (resolve F p)) \<Longrightarrow>
     fs_create F p = Inl (missing_kind F (resolve F p))"
  by (simp add: fs_create_def)


text \<open>Everything but the nodes in \<open>K\<close> is as before.\<close>

definition same_except :: "string list set \<Rightarrow> file_system \<Rightarrow> file_system \<Rightarrow> bool" where
  "same_except K F F' \<longleftrightarrow> cwd F' = cwd F \<and> fault F' = fault F \<and> clock F' = clock F \<and>
     (\<forall>k. k \<notin> K \<longrightarrow> nodes F' k = nodes F k)"

lemma same_except_refl [simp]: "same_except K F F"
  by (simp add: same_except_def)

lemma same_except_trans: "same_except K F G \<Longrightarrow> same_except K G H \<Longrightarrow> same_except K F H"
  by (simp add: same_except_def)

lemma same_except_mono: "same_except K F G \<Longrightarrow> K \<subseteq> L \<Longrightarrow> same_except L F G"
  by (auto simp: same_except_def)

lemma same_except_put_file [simp]: "same_except K F (put_file k c m F) \<longleftrightarrow> k \<in> K \<or> nodes F k = Some (File c m)"
  by (auto simp: same_except_def)

lemma same_except_resolve: "same_except K F F' \<Longrightarrow> resolve F' p = resolve F p"
  by (simp add: same_except_def resolve_def)

lemma same_except_contents: "same_except K F F' \<Longrightarrow> resolve F p \<notin> K \<Longrightarrow> contents F' p = contents F p"
  using same_except_resolve[of K F F' p] by (simp add: contents_def same_except_def)

lemma fs_write_all_Inr:
  "fs_write_all F k pos bs = Inr F' \<longleftrightarrow>
     (\<exists>c m. nodes F k = Some (File c m) \<and> F' = put_file k (write_at c pos bs) (clock F) F)"
  by (auto simp: fs_write_all_def split: option.splits node.splits)

lemma fs_seek_Inr: "fs_seek offset = Inr pos \<longleftrightarrow> unat offset < 2 ^ 63 \<and> pos = unat offset"
  by (auto simp: fs_seek_def)

lemma fs_rename_Inr:
  "fs_rename F src dst = Inr F' \<longleftrightarrow>
     (\<exists>c m. \<not> is_dir F (resolve F src) \<and> nodes F (resolve F src) = Some (File c m) \<and>
       fault F (resolve F dst) = None \<and> \<not> is_dir F (resolve F dst) \<and> is_dir F (butlast (resolve F dst)) \<and>
       F' = put_file (resolve F dst) c m (F\<lparr>nodes := (nodes F)(resolve F src := None)\<rparr>))"
  by (auto simp: fs_rename_def lookup_file_def Let_def split: option.splits node.splits if_splits)

lemma fs_write_Inr:
  "fs_write F p bs = Inr F' \<longleftrightarrow> fault F (resolve F p) = None \<and> \<not> is_dir F (resolve F p) \<and>
     is_dir F (butlast (resolve F p)) \<and> F' = put_file (resolve F p) bs (clock F) F"
  by (auto simp: fs_write_def fs_create_def Let_def put_file_def split: option.splits if_splits)

lemma fs_read_after_write: "fs_write F p bs = Inr F' \<Longrightarrow> fs_read F' p = Inr bs"
  by (auto simp: fs_write_Inr fs_read_Inr is_dir_def)

text \<open>A file system with one file in the root directory, for concrete instances.\<close>

definition single_file :: "string \<Rightarrow> byte list \<Rightarrow> file_system" where
  "single_file name c = \<lparr>nodes = [[name] \<mapsto> File c \<lparr>mt_secs = 0, mt_nanos = 0\<rparr>], cwd = [],
     fault = (\<lambda>_. None), clock = \<lparr>mt_secs = 9, mt_nanos = 0\<rparr>\<rparr>"

lemma fs_read_single_file [fs_simps]:
  "resolve (single_file name c) p = [name] \<Longrightarrow> fs_read (single_file name c) p = Inr c"
  by (simp add: fs_read_Inr single_file_def is_dir_def)

lemma resolve_single_file [fs_simps]: "resolve (single_file name c) p = foldl resolve_step [] (components p)"
  by (simp add: resolve_def single_file_def)

end
