(* ===== verification/Delta_Transfer.thy ===== *)
theory Delta_Transfer
  imports Rolling_Hash Message_Sink File_System
begin

section \<open>Block signatures and deltas\<close>

text \<open>
  Models src/sync/transfer.rs and \<open>generate_blocks_signatures\<close> of src/sync/state.rs:
  the receiver of a file cuts its old version into blocks and sends their checksums; the
  sender slides a window over the new version and sends, for each position, either the index
  of a block the receiver has or the literal bytes.

  The loop of the source keeps a rolling hash, a buffer of literal bytes and the position
  where that buffer starts, and sends as it goes.  It may not end (for a block size of 0), so
  it is a \<open>partial_function\<close>: \<open>None\<close> is a run that never returns.

  Parameters: \<open>blake3\<close> is the strong hash of the crate blake3, \<open>clean\<close> the
  path cleaner of path_clean, \<open>send\<close> the sink.
\<close>

definition MAX_LITERAL_CHUNK_SIZE :: nat where
  "MAX_LITERAL_CHUNK_SIZE = 4 * 1024 * 1024 - 64 * 1024"

subsection \<open>Signatures\<close>

type_synonym BlockCache = "byte list list"

text \<open>\<open>data.chunks(n)\<close>, for a positive \<open>n\<close>.\<close>

function chunks :: "nat \<Rightarrow> 'a list \<Rightarrow> 'a list list" where
  "chunks n xs = (if n = 0 \<or> xs = [] then [] else take n xs # chunks n (drop n xs))"
  by pat_completeness auto
termination
  by (relation "measure (\<lambda>(n, xs). length xs)") (auto simp: length_greater_0_conv [symmetric] simp del: length_greater_0_conv)

declare chunks.simps [simp del]

fun sign_chunks :: "(byte list \<Rightarrow> byte list) \<Rightarrow> BuzHash \<Rightarrow> byte list list \<Rightarrow> BlockSignature list" where
  "sign_chunks blake3 buz_hasher [] = []"
| "sign_chunks blake3 buz_hasher (c # cs) =
     (let h = buz_compute buz_hasher c
      in \<lparr>weak_checksum = bz_hash h, strong_checksum = blake3 c\<rparr> # sign_chunks blake3 h cs)"

text \<open>\<open>chunks\<close> panics for a size of 0, after the hasher has been made.\<close>

definition generate_blocks_signatures ::
    "file_system \<Rightarrow> (PathBuf \<Rightarrow> PathBuf) \<Rightarrow> (byte list \<Rightarrow> byte list) \<Rightarrow> PathBuf \<Rightarrow> PathBuf \<Rightarrow> u64 \<Rightarrow>
     (BlockSignatures \<times> BlockCache) outcome" where
  "generate_blocks_signatures F clean blake3 file_path sync_path config_block_size =
     and_then (get_absolute_path clean file_path sync_path) (\<lambda>abs_path.
     and_then (case fs_read F abs_path of
                 Inr data \<Rightarrow> Inr data
               | Inl NotFound \<Rightarrow> Inr []
               | Inl e \<Rightarrow> Inl (Err (Io e))) (\<lambda>data.
     and_then (buz_new (unat config_block_size)) (\<lambda>buz_hasher.
     if config_block_size = 0 then Inl Panic
     else
       (let cs = chunks (unat config_block_size) data
        in Inr (\<lparr>block_size = config_block_size, blocks = sign_chunks blake3 buz_hasher cs\<rparr>, cs)))))"

text \<open>Any error of signing is turned into a send error; the panic of a task is not an error value.\<close>

fun map_err :: "HarmonicError \<Rightarrow> 'a outcome \<Rightarrow> 'a outcome" where
  "map_err e (Inl (Err _)) = Inl (Err e)"
| "map_err e (Inl Foreign) = Inl Foreign"
| "map_err e (Inl Panic) = Inl Panic"
| "map_err e (Inr x) = Inr x"

definition request :: "Payload \<Rightarrow> SyncRequest" where
  "request p = \<lparr>payload = Some p\<rparr>"

definition send_block_signatures_for_file ::
    "file_system \<Rightarrow> (PathBuf \<Rightarrow> PathBuf) \<Rightarrow> (byte list \<Rightarrow> byte list) \<Rightarrow>
     (SyncRequest \<Rightarrow> 's \<Rightarrow> 's \<times> unit outcome) \<Rightarrow> PathBuf \<Rightarrow> PathBuf \<Rightarrow> u64 \<Rightarrow> 's \<Rightarrow> 's \<times> BlockCache outcome" where
  "send_block_signatures_for_file F clean blake3 send file_path sync_path config_block_size s =
     (case map_err SendError (generate_blocks_signatures F clean blake3 file_path sync_path config_block_size) of
        Inl e \<Rightarrow> (s, Inl e)
      | Inr (sig, cache) \<Rightarrow>
          (case send (request (Signatures sig)) s of
             (s', Inl e) \<Rightarrow> (s', Inl e)
           | (s', Inr _) \<Rightarrow> (s', Inr cache)))"

subsection \<open>The lookup table of the sender\<close>

type_synonym sig_map = "u64 \<rightharpoonup> (byte list \<rightharpoonup> u32)"

text \<open>A strong checksum that is not 32 bytes long is ignored; the index is narrowed to u32.\<close>

definition sig_insert :: "nat \<times> BlockSignature \<Rightarrow> sig_map \<Rightarrow> sig_map" where
  "sig_insert ib acc =
     (case ib of (index, b) \<Rightarrow>
        if length (strong_checksum b) = 32 then
          (let inner = (case acc (weak_checksum b) of None \<Rightarrow> Map.empty | Some m \<Rightarrow> m)
           in acc(weak_checksum b \<mapsto> inner(strong_checksum b \<mapsto> word_of_nat index)))
        else acc)"

definition build_sig_map :: "BlockSignature list \<Rightarrow> sig_map" where
  "build_sig_map bs = fold sig_insert (enumerate 0 bs) Map.empty"

subsection \<open>Sending deltas\<close>

definition delta_request :: "u64 \<Rightarrow> Instruction \<Rightarrow> SyncRequest" where
  "delta_request index instr = request (DeltaP \<lparr>delta_index = index, instruction = Some instr\<rparr>)"

function send_literal_chunks ::
    "(SyncRequest \<Rightarrow> 's \<Rightarrow> 's \<times> unit outcome) \<Rightarrow> byte list \<Rightarrow> u64 \<Rightarrow> nat \<Rightarrow> 's \<Rightarrow> 's \<times> unit outcome" where
  "send_literal_chunks send buffer buffer_start_index offset s =
     (if offset < length buffer then
        (let chunk_size = min MAX_LITERAL_CHUNK_SIZE (length buffer - offset);
             chunk = slice_at buffer offset chunk_size
         in case send (delta_request (buffer_start_index + word_of_nat offset) (Literal chunk)) s of
              (s', Inl e) \<Rightarrow> (s', Inl e)
            | (s', Inr _) \<Rightarrow>
                send_literal_chunks send buffer buffer_start_index (offset + chunk_size) s')
      else (s, Inr ()))"
  by pat_completeness auto
termination
  by (relation "measure (\<lambda>(send, buffer, start, offset, s). length buffer - offset)")
    (auto simp: MAX_LITERAL_CHUNK_SIZE_def)

declare send_literal_chunks.simps [simp del]

definition flush_buffer ::
    "(SyncRequest \<Rightarrow> 's \<Rightarrow> 's \<times> unit outcome) \<Rightarrow> byte list \<Rightarrow> u64 \<Rightarrow> 's \<Rightarrow> 's \<times> unit outcome" where
  "flush_buffer send buffer buffer_start_index s =
     (if buffer \<noteq> [] then send_literal_chunks send buffer buffer_start_index 0 s else (s, Inr ()))"

text \<open>The lookup of the window at \<open>i\<close>: the weak hash first, then the strong one.\<close>

definition find_block ::
    "(byte list \<Rightarrow> byte list) \<Rightarrow> sig_map \<Rightarrow> byte list \<Rightarrow> nat \<Rightarrow> nat \<Rightarrow> u64 \<Rightarrow> u32 option" where
  "find_block blake3 sigs data bs i weak =
     (if i + bs \<le> length data then
        (case sigs weak of
           None \<Rightarrow> None
         | Some strong_checksums \<Rightarrow> strong_checksums (blake3 (slice_at data i bs)))
      else None)"

text \<open>
  The loop.  On a match the buffer is flushed, the block index sent and the position moved by
  a block; otherwise one byte goes to the buffer, which is flushed when it is full, and the
  hash is rolled by one byte.  At the end of the data the loop is left: the buffer is
  flushed and the message \<open>Complete\<close> sent.
\<close>

partial_function (option) delta_loop ::
    "(SyncRequest \<Rightarrow> 's \<Rightarrow> 's \<times> unit outcome) \<Rightarrow> (byte list \<Rightarrow> byte list) \<Rightarrow> sig_map \<Rightarrow>
     byte list \<Rightarrow> nat \<Rightarrow> nat \<Rightarrow> byte list \<Rightarrow> u64 \<Rightarrow> BuzHash \<Rightarrow> 's \<Rightarrow> ('s \<times> unit outcome) option" where
  "delta_loop send blake3 sigs data bs i buffer start hasher s =
     (case find_block blake3 sigs data bs i (bz_hash hasher) of
        Some index \<Rightarrow>
          (case flush_buffer send buffer start s of
             (s1, Inl e) \<Rightarrow> Some (s1, Inl e)
           | (s1, Inr _) \<Rightarrow>
               (case send (delta_request (word_of_nat i) (BlockIndex index)) s1 of
                  (s2, Inl e) \<Rightarrow> Some (s2, Inl e)
                | (s2, Inr _) \<Rightarrow>
                    (let i' = i + bs;
                         h' = (if i' + bs \<le> length data
                               then buz_compute hasher (slice_at data i' bs) else hasher)
                     in delta_loop send blake3 sigs data bs i' [] start h' s2)))
      | None \<Rightarrow>
          if length data \<le> i then
            (case flush_buffer send buffer start s of
               (s1, Inl e) \<Rightarrow> Some (s1, Inl e)
             | (s1, Inr _) \<Rightarrow> Some (send (request (Complete True)) s1))
          else
            (let start' = (if buffer = [] then word_of_nat i else start);
                 buffer' = buffer @ [data ! i];
                 i' = i + 1;
                 full = MAX_LITERAL_CHUNK_SIZE \<le> length buffer'
             in case (if full then send_literal_chunks send buffer' start' 0 s else (s, Inr ())) of
                  (s1, Inl e) \<Rightarrow> Some (s1, Inl e)
                | (s1, Inr _) \<Rightarrow>
                    (let buffer'' = (if full then [] else buffer');
                         start'' = (if full then word_of_nat i' else start')
                     in if i' + bs \<le> length data then
                          (case buz_roll hasher (data ! (i' + bs - 1)) of
                             Inl e \<Rightarrow> Some (s1, Inl e)
                           | Inr h' \<Rightarrow> delta_loop send blake3 sigs data bs i' buffer'' start'' h' s1)
                        else delta_loop send blake3 sigs data bs i' buffer'' start'' hasher s1)))"

definition send_delta_from_block_signatures ::
    "file_system \<Rightarrow> (byte list \<Rightarrow> byte list) \<Rightarrow> (SyncRequest \<Rightarrow> 's \<Rightarrow> 's \<times> unit outcome) \<Rightarrow>
     PathBuf \<Rightarrow> BlockSignatures \<Rightarrow> 's \<Rightarrow> ('s \<times> unit outcome) option" where
  "send_delta_from_block_signatures F blake3 send file_path block_signatures s =
     (let sigs = build_sig_map (blocks block_signatures);
          bs = unat (block_size block_signatures)
      in case fs_read F file_path of
           Inl e \<Rightarrow> Some (s, Inl (Err (Io e)))
         | Inr data \<Rightarrow>
             (case buz_new bs of
                Inl e \<Rightarrow> Some (s, Inl e)
              | Inr buz_hasher \<Rightarrow>
                  (let data_slice = (if length data \<le> bs then data else slice_at data 0 bs)
                   in delta_loop send blake3 sigs data bs 0 [] 0 (buz_compute buz_hasher data_slice) s)))"

end
