(* ===== verification/Delta_Correct.thy ===== *)
theory Delta_Correct
  imports Delta_Transfer
begin

section \<open>The delta stream against a reference generator\<close>

text \<open>
  \<open>ref_deltas\<close> is the specification of the sender: a greedy scan that hashes every
  window from scratch and keeps no hasher, no start index and no sink.  The loop of the
  source is proved to send exactly the messages of that list, in order, followed by
  \<open>Complete\<close>, on every sink; what the list means (its bytes, the positions it covers, the
  size of its literals) is proved on the list.
\<close>

subsection \<open>The reference generator\<close>

definition block_lookup :: "(byte list \<Rightarrow> byte list) \<Rightarrow> sig_map \<Rightarrow> nat \<Rightarrow> byte list \<Rightarrow> u32 option" where
  "block_lookup blake3 sigs bs w =
     (case sigs (window_hash bs w) of None \<Rightarrow> None | Some strong \<Rightarrow> strong (blake3 w))"

definition literal_piece :: "nat \<Rightarrow> byte list \<Rightarrow> (nat \<times> Instruction) list" where
  "literal_piece pos buf = (if buf = [] then [] else [(pos, Literal buf)])"

function ref_deltas ::
    "(byte list \<Rightarrow> u32 option) \<Rightarrow> byte list \<Rightarrow> nat \<Rightarrow> nat \<Rightarrow> byte list \<Rightarrow> (nat \<times> Instruction) list" where
  "ref_deltas look data bs i buf =
     (if bs = 0 then []
      else case (if i + bs \<le> length data then look (slice_at data i bs) else None) of
        Some index \<Rightarrow>
          literal_piece (i - length buf) buf @ (i, BlockIndex index) # ref_deltas look data bs (i + bs) []
      | None \<Rightarrow>
          if length data \<le> i then literal_piece (i - length buf) buf
          else if MAX_LITERAL_CHUNK_SIZE \<le> Suc (length buf) then
            (i - length buf, Literal (buf @ [data ! i])) # ref_deltas look data bs (Suc i) []
          else ref_deltas look data bs (Suc i) (buf @ [data ! i]))"
  by pat_completeness auto
termination
  by (relation "measure (\<lambda>(look, data, bs, i, buf). length data - i)") (auto split: if_splits)

declare ref_deltas.simps [simp del]

text \<open>An induction rule with the three cases of the scan.\<close>

lemma ref_deltas_cases_induct [consumes 1, case_names match finish full small]:
  fixes data :: "byte list" and look :: "byte list \<Rightarrow> u32 option" and P :: "nat \<Rightarrow> byte list \<Rightarrow> bool"
  assumes "0 < bs"
    and "\<And>i buf k. i + bs \<le> length data \<Longrightarrow> look (slice_at data i bs) = Some k \<Longrightarrow> P (i + bs) [] \<Longrightarrow> P i buf"
    and "\<And>i buf. length data \<le> i \<Longrightarrow> P i buf"
    and "\<And>i buf. i < length data \<Longrightarrow> MAX_LITERAL_CHUNK_SIZE \<le> Suc (length buf) \<Longrightarrow>
      (if i + bs \<le> length data then look (slice_at data i bs) else None) = None \<Longrightarrow>
      P (Suc i) [] \<Longrightarrow> P i buf"
    and "\<And>i buf. i < length data \<Longrightarrow> \<not> MAX_LITERAL_CHUNK_SIZE \<le> Suc (length buf) \<Longrightarrow>
      (if i + bs \<le> length data then look (slice_at data i bs) else None) = None \<Longrightarrow>
      P (Suc i) (buf @ [data ! i]) \<Longrightarrow> P i buf"
  shows "P i buf"
  using assms
proof (induction look data bs i buf rule: ref_deltas.induct)
  case (1 look data bs i buf)
  note IH = 1(1-3) and bs = 1(4) and rules = 1(5-8)
  have bs0: "bs \<noteq> 0" using bs by simp
  show ?case
  proof (cases "if i + bs \<le> length data then look (slice_at data i bs) else None")
    case (Some k)
    then have "i + bs \<le> length data" "look (slice_at data i bs) = Some k" by (simp_all split: if_splits)
    from rules(1)[OF this IH(3)[OF bs0 Some bs rules]] show ?thesis .
  next
    case None
    consider "length data \<le> i"
      | "\<not> length data \<le> i" "MAX_LITERAL_CHUNK_SIZE \<le> Suc (length buf)"
      | "\<not> length data \<le> i" "\<not> MAX_LITERAL_CHUNK_SIZE \<le> Suc (length buf)" by blast
    then show ?thesis
    proof cases
      case 1
      then show ?thesis by (rule rules(2))
    next
      case 2
      from 2(1) have "i < length data" by simp
      from rules(3)[OF this 2(2) None IH(1)[OF bs0 None 2 bs rules]] show ?thesis .
    next
      case 3
      from 3(1) have "i < length data" by simp
      from rules(4)[OF this 3(2) None IH(2)[OF bs0 None 3 bs rules]] show ?thesis .
    qed
  qed
qed

definition delta_message :: "nat \<times> Instruction \<Rightarrow> SyncRequest" where
  "delta_message d = delta_request (word_of_nat (fst d)) (snd d)"

lemma find_block_lookup:
  "(i + bs \<le> length data \<Longrightarrow> weak = window_hash bs (slice_at data i bs)) \<Longrightarrow>
   find_block blake3 sigs data bs i weak =
     (if i + bs \<le> length data then block_lookup blake3 sigs bs (slice_at data i bs) else None)"
  by (simp add: find_block_def block_lookup_def split: option.split)

subsection \<open>Flushing the buffer\<close>

lemma send_literal_chunks_one:
  assumes "buf \<noteq> []" "length buf \<le> MAX_LITERAL_CHUNK_SIZE"
  shows "send_literal_chunks send buf start 0 s = send (delta_request start (Literal buf)) s"
proof -
  have "send_literal_chunks send buf start (length buf) s' = (s', Inr ())" for s'
    by (subst send_literal_chunks.simps) simp
  with assms show ?thesis
    by (subst send_literal_chunks.simps) (auto simp: slice_at_full Let_def min_def split: prod.split sum.split)
qed

lemma flush_buffer_piece:
  assumes "length buf \<le> MAX_LITERAL_CHUNK_SIZE" "buf \<noteq> [] \<Longrightarrow> start = word_of_nat pos"
  shows "flush_buffer send buf start s = send_all send (map delta_message (literal_piece pos buf)) s"
  using assms
  by (auto simp: flush_buffer_def literal_piece_def send_literal_chunks_one send_all_single delta_message_def
      simp del: send_all.simps(2))

subsection \<open>The loop refines the reference\<close>

text \<open>What the loop keeps: the hasher holds the current window when there is one, the buffer
  is shorter than a full message and ends at the current position, where \<open>start\<close> says.\<close>

definition loop_inv :: "byte list \<Rightarrow> nat \<Rightarrow> nat \<Rightarrow> byte list \<Rightarrow> u64 \<Rightarrow> BuzHash \<Rightarrow> bool" where
  "loop_inv data bs i buf start hasher \<longleftrightarrow>
     buz_sized hasher bs \<and>
     (i + bs \<le> length data \<longrightarrow> buz_holds hasher bs (slice_at data i bs)) \<and>
     length buf < MAX_LITERAL_CHUNK_SIZE \<and> length buf \<le> i \<and>
     (buf \<noteq> [] \<longrightarrow> start = word_of_nat (i - length buf))"

lemma MAX_pos: "0 < MAX_LITERAL_CHUNK_SIZE"
  by (simp add: MAX_LITERAL_CHUNK_SIZE_def)

lemma loop_inv_match:
  assumes "loop_inv data bs i buf start hasher"
    and "h' = (if i + bs + bs \<le> length data then buz_compute hasher (slice_at data (i + bs) bs) else hasher)"
  shows "loop_inv data bs (i + bs) [] start' h'"
  using assms MAX_pos
  by (auto simp: loop_inv_def intro!: buz_compute_holds)

lemma loop_inv_roll:
  assumes "loop_inv data bs i buf start hasher" "0 < bs" "Suc i + bs \<le> length data"
  shows "\<exists>h'. buz_roll hasher (data ! (i + bs)) = Inr h' \<and> buz_sized h' bs \<and>
              buz_holds h' bs (slice_at data (Suc i) bs)"
proof -
  have "buz_holds hasher bs (slice_at data i bs)" using assms by (simp add: loop_inv_def)
  from buz.roll_window[OF this assms(2,3)] show ?thesis using buz.holds_sized by blast
qed


lemma loop_inv_byte:
  assumes "loop_inv data bs i buf start hasher"
    and "buz_sized h' bs" "Suc i + bs \<le> length data \<Longrightarrow> buz_holds h' bs (slice_at data (Suc i) bs)"
    and "start' = (if buf = [] then word_of_nat i else start)"
  shows "Suc (length buf) < MAX_LITERAL_CHUNK_SIZE \<Longrightarrow> loop_inv data bs (Suc i) (buf @ [x]) start' h'"
    and "loop_inv data bs (Suc i) [] start'' h'"
    and "start' = word_of_nat (i - length buf)"
  using assms MAX_pos by (auto simp: loop_inv_def)

text \<open>The step of the loop that takes one byte, by whether the buffer is full after it.\<close>

lemma delta_loop_byte:
  assumes "find_block blake3 sigs data bs i (bz_hash hasher) = None" "i < length data"
    and "if Suc i + bs \<le> length data then buz_roll hasher (data ! (i + bs)) = Inr h' else h' = hasher"
    and "start' = (if buf = [] then word_of_nat i else start)"
  shows "MAX_LITERAL_CHUNK_SIZE \<le> Suc (length buf) \<Longrightarrow>
      delta_loop send blake3 sigs data bs i buf start hasher s =
        (case send_literal_chunks send (buf @ [data ! i]) start' 0 s of
           (s1, Inl e) \<Rightarrow> Some (s1, Inl e)
         | (s1, Inr _) \<Rightarrow> delta_loop send blake3 sigs data bs (Suc i) [] (word_of_nat (Suc i)) h' s1)"
    and "\<not> MAX_LITERAL_CHUNK_SIZE \<le> Suc (length buf) \<Longrightarrow>
      delta_loop send blake3 sigs data bs i buf start hasher s =
        delta_loop send blake3 sigs data bs (Suc i) (buf @ [data ! i]) start' h' s"
  using assms by (subst delta_loop.simps, simp add: Let_def split: prod.split sum.split if_splits)+

text \<open>\<open>meets_ref\<close>: from every loop state at \<open>i\<close> with the buffer
  \<open>buf\<close>, the run of the loop is the run of sends of the reference's messages and of
  \<open>Complete\<close>.  Nothing is assumed of the sink, so every outcome of every send is
  covered.  One lemma for each branch of the loop.\<close>

definition meets_ref ::
    "(SyncRequest \<Rightarrow> 's \<Rightarrow> 's \<times> unit outcome) \<Rightarrow> (byte list \<Rightarrow> byte list) \<Rightarrow> sig_map \<Rightarrow>
     byte list \<Rightarrow> nat \<Rightarrow> nat \<Rightarrow> byte list \<Rightarrow> bool" where
  "meets_ref send blake3 sigs data bs i buf \<longleftrightarrow>
     (\<forall>start hasher s. loop_inv data bs i buf start hasher \<longrightarrow>
        delta_loop send blake3 sigs data bs i buf start hasher s =
        Some (send_all send (map delta_message (ref_deltas (block_lookup blake3 sigs bs) data bs i buf)
                             @ [request (Complete True)]) s))"

lemma meets_refD:
  "meets_ref send blake3 sigs data bs i buf \<Longrightarrow> loop_inv data bs i buf start hasher \<Longrightarrow>
   delta_loop send blake3 sigs data bs i buf start hasher s =
   Some (send_all send (map delta_message (ref_deltas (block_lookup blake3 sigs bs) data bs i buf)
                        @ [request (Complete True)]) s)"
  by (simp add: meets_ref_def)

lemma find_block_inv:
  "loop_inv data bs i buf start hasher \<Longrightarrow>
   find_block blake3 sigs data bs i (bz_hash hasher) =
     (if i + bs \<le> length data then block_lookup blake3 sigs bs (slice_at data i bs) else None)"
  by (intro find_block_lookup) (auto simp: loop_inv_def dest: buz.digest_holds)

lemma flush_buffer_inv:
  "loop_inv data bs i buf start hasher \<Longrightarrow>
   flush_buffer send buf start s = send_all send (map delta_message (literal_piece (i - length buf) buf)) s"
  by (intro flush_buffer_piece) (simp_all add: loop_inv_def)

lemma meets_ref_match:
  assumes "0 < bs" and look: "i + bs \<le> length data" "block_lookup blake3 sigs bs (slice_at data i bs) = Some index"
    and later: "meets_ref send blake3 sigs data bs (i + bs) []"
  shows "meets_ref send blake3 sigs data bs i buf"
proof -
  have ref: "ref_deltas (block_lookup blake3 sigs bs) data bs i buf =
      literal_piece (i - length buf) buf @ (i, BlockIndex index)
        # ref_deltas (block_lookup blake3 sigs bs) data bs (i + bs) []"
    using assms by (subst ref_deltas.simps) simp
  show ?thesis
    unfolding meets_ref_def ref
  proof (intro allI impI)
    fix start hasher s
    assume inv: "loop_inv data bs i buf start hasher"
    note IH = meets_refD[OF later loop_inv_match[OF inv refl]]
    show "delta_loop send blake3 sigs data bs i buf start hasher s =
        Some (send_all send (map delta_message (literal_piece (i - length buf) buf @ (i, BlockIndex index)
          # ref_deltas (block_lookup blake3 sigs bs) data bs (i + bs) []) @ [request (Complete True)]) s)"
      by (subst delta_loop.simps)
        (simp add: find_block_inv[OF inv] flush_buffer_inv[OF inv] look send_all_append IH Let_def
          delta_message_def split: prod.split sum.split)
  qed
qed

lemma meets_ref_end:
  assumes "0 < bs" "length data \<le> i"
  shows "meets_ref send blake3 sigs data bs i buf"
proof -
  have "ref_deltas (block_lookup blake3 sigs bs) data bs i buf = literal_piece (i - length buf) buf"
    using assms by (subst ref_deltas.simps) simp
  then show ?thesis
    using assms unfolding meets_ref_def
    by (intro allI impI, subst delta_loop.simps)
      (simp add: find_block_inv flush_buffer_inv send_all_append send_all_single
        del: send_all.simps(2) split: prod.split sum.split)
qed

text \<open>What the two byte branches share: the hasher after the byte.\<close>

lemma loop_inv_next:
  assumes "loop_inv data bs i buf start hasher" "0 < bs"
  obtains h' where
    "if Suc i + bs \<le> length data then buz_roll hasher (data ! (i + bs)) = Inr h' else h' = hasher"
    "buz_sized h' bs" "Suc i + bs \<le> length data \<Longrightarrow> buz_holds h' bs (slice_at data (Suc i) bs)"
  using loop_inv_roll[OF assms] assms by (cases "Suc i + bs \<le> length data") (auto simp: loop_inv_def)

lemma meets_ref_full:
  assumes "0 < bs" "i < length data" "MAX_LITERAL_CHUNK_SIZE \<le> Suc (length buf)"
    and look: "(if i + bs \<le> length data then block_lookup blake3 sigs bs (slice_at data i bs) else None) = None"
    and later: "meets_ref send blake3 sigs data bs (Suc i) []"
  shows "meets_ref send blake3 sigs data bs i buf"
  unfolding meets_ref_def
proof (intro allI impI)
  fix start hasher s
  assume inv: "loop_inv data bs i buf start hasher"
  define start' where "start' = (if buf = [] then word_of_nat i else start)"
  obtain h' where h': "if Suc i + bs \<le> length data then buz_roll hasher (data ! (i + bs)) = Inr h' else h' = hasher"
    and sized: "buz_sized h' bs" "Suc i + bs \<le> length data \<Longrightarrow> buz_holds h' bs (slice_at data (Suc i) bs)"
    using loop_inv_next[OF inv assms(1)] by metis
  note byte = loop_inv_byte[OF inv sized start'_def]
  have "send_literal_chunks send (buf @ [data ! i]) start' 0 s =
      send (delta_message (i - length buf, Literal (buf @ [data ! i]))) s"
    using inv byte(3) by (subst send_literal_chunks_one) (simp_all add: loop_inv_def delta_message_def)
  moreover have "ref_deltas (block_lookup blake3 sigs bs) data bs i buf =
      (i - length buf, Literal (buf @ [data ! i])) # ref_deltas (block_lookup blake3 sigs bs) data bs (Suc i) []"
    using assms by (subst ref_deltas.simps) simp
  moreover have "find_block blake3 sigs data bs i (bz_hash hasher) = None"
    using find_block_inv[OF inv] look by simp
  note delta_loop_byte(1)[OF this assms(2) h' start'_def assms(3), of send s]
  ultimately show "delta_loop send blake3 sigs data bs i buf start hasher s =
      Some (send_all send (map delta_message (ref_deltas (block_lookup blake3 sigs bs) data bs i buf)
                           @ [request (Complete True)]) s)"
    using meets_refD[OF later byte(2)]
    by (cases "send (delta_message (i - length buf, Literal (buf @ [data ! i]))) s")
      (simp del: of_nat_Suc split: sum.splits)
qed

lemma meets_ref_small:
  assumes "0 < bs" "i < length data" "\<not> MAX_LITERAL_CHUNK_SIZE \<le> Suc (length buf)"
    and look: "(if i + bs \<le> length data then block_lookup blake3 sigs bs (slice_at data i bs) else None) = None"
    and later: "meets_ref send blake3 sigs data bs (Suc i) (buf @ [data ! i])"
  shows "meets_ref send blake3 sigs data bs i buf"
  unfolding meets_ref_def
proof (intro allI impI)
  fix start hasher s
  assume inv: "loop_inv data bs i buf start hasher"
  define start' where "start' = (if buf = [] then word_of_nat i else start)"
  obtain h' where h': "if Suc i + bs \<le> length data then buz_roll hasher (data ! (i + bs)) = Inr h' else h' = hasher"
    and sized: "buz_sized h' bs" "Suc i + bs \<le> length data \<Longrightarrow> buz_holds h' bs (slice_at data (Suc i) bs)"
    using loop_inv_next[OF inv assms(1)] by metis
  have "find_block blake3 sigs data bs i (bz_hash hasher) = None"
    using find_block_inv[OF inv] look by simp
  note step = delta_loop_byte(2)[OF this assms(2) h' start'_def assms(3), of send s]
  have "ref_deltas (block_lookup blake3 sigs bs) data bs i buf =
      ref_deltas (block_lookup blake3 sigs bs) data bs (Suc i) (buf @ [data ! i])"
    using assms by (subst ref_deltas.simps) simp
  then show "delta_loop send blake3 sigs data bs i buf start hasher s =
      Some (send_all send (map delta_message (ref_deltas (block_lookup blake3 sigs bs) data bs i buf)
                           @ [request (Complete True)]) s)"
    using step meets_refD[OF later loop_inv_byte(1)[OF inv sized start'_def]] assms(3) by simp
qed

lemma delta_loop_meets_ref:
  assumes bs: "0 < bs"
  shows "meets_ref send blake3 sigs data bs i buf"
  using bs
proof (induction i buf rule: ref_deltas_cases_induct[where data = data and look = "block_lookup blake3 sigs bs"])
  case (match i buf k)
  from bs match show ?case by (rule meets_ref_match)
next
  case (finish i buf)
  from bs finish show ?case by (rule meets_ref_end)
next
  case (full i buf)
  from bs full show ?case by (rule meets_ref_full)
next
  case (small i buf)
  from bs small show ?case by (rule meets_ref_small)
qed

lemma delta_loop_ref:
  assumes "0 < bs" and "loop_inv data bs i buf start hasher"
  shows "delta_loop send blake3 sigs data bs i buf start hasher s =
    Some (send_all send (map delta_message (ref_deltas (block_lookup blake3 sigs bs) data bs i buf)
                         @ [request (Complete True)]) s)"
  by (rule meets_refD[OF delta_loop_meets_ref[OF assms(1)] assms(2)])


subsection \<open>What the deltas mean\<close>

text \<open>The bytes an instruction stands for, given the blocks of the receiver.\<close>

fun instr_bytes :: "BlockCache \<Rightarrow> Instruction \<Rightarrow> byte list" where
  "instr_bytes cache (Literal b) = b"
| "instr_bytes cache (BlockIndex k) = cache ! unat k"

definition pieces_bytes :: "BlockCache \<Rightarrow> (nat \<times> Instruction) list \<Rightarrow> byte list" where
  "pieces_bytes cache ps = concat (map (instr_bytes cache \<circ> snd) ps)"

text \<open>The pieces lie one after the other, from \<open>pos\<close> on.\<close>

fun contiguous :: "BlockCache \<Rightarrow> nat \<Rightarrow> (nat \<times> Instruction) list \<Rightarrow> bool" where
  "contiguous cache pos [] \<longleftrightarrow> True"
| "contiguous cache pos ((p, x) # ps) \<longleftrightarrow> p = pos \<and> contiguous cache (pos + length (instr_bytes cache x)) ps"

definition look_sound :: "(byte list \<Rightarrow> u32 option) \<Rightarrow> BlockCache \<Rightarrow> byte list \<Rightarrow> nat \<Rightarrow> bool" where
  "look_sound look cache data bs \<longleftrightarrow>
     (\<forall>i k. i + bs \<le> length data \<longrightarrow> look (slice_at data i bs) = Some k \<longrightarrow>
        unat k < length cache \<and> cache ! unat k = slice_at data i bs)"

lemma pieces_bytes_simps [simp]:
  "pieces_bytes cache [] = []"
  "pieces_bytes cache (d # ds) = instr_bytes cache (snd d) @ pieces_bytes cache ds"
  "pieces_bytes cache (xs @ ys) = pieces_bytes cache xs @ pieces_bytes cache ys"
  by (simp_all add: pieces_bytes_def)

lemma pieces_bytes_literal [simp]: "pieces_bytes cache (literal_piece pos buf) = buf"
  by (simp add: literal_piece_def)

lemma contiguous_literal_append [simp]:
  "contiguous cache pos (literal_piece pos buf @ ps) \<longleftrightarrow> contiguous cache (pos + length buf) ps"
  by (simp add: literal_piece_def)

lemma contiguous_literal [simp]: "contiguous cache pos (literal_piece pos buf)"
  by (simp add: literal_piece_def)

lemma ref_deltas_match:
  "0 < bs \<Longrightarrow> i + bs \<le> length data \<Longrightarrow> look (slice_at data i bs) = Some k \<Longrightarrow>
   ref_deltas look data bs i buf =
     literal_piece (i - length buf) buf @ (i, BlockIndex k) # ref_deltas look data bs (i + bs) []"
  by (subst ref_deltas.simps) simp

lemma ref_deltas_end:
  "0 < bs \<Longrightarrow> length data \<le> i \<Longrightarrow> ref_deltas look data bs i buf = literal_piece (i - length buf) buf"
  by (subst ref_deltas.simps) simp

lemma ref_deltas_byte:
  "0 < bs \<Longrightarrow> i < length data \<Longrightarrow>
   (if i + bs \<le> length data then look (slice_at data i bs) else None) = None \<Longrightarrow>
   ref_deltas look data bs i buf =
     (if MAX_LITERAL_CHUNK_SIZE \<le> Suc (length buf)
      then (i - length buf, Literal (buf @ [data ! i])) # ref_deltas look data bs (Suc i) []
      else ref_deltas look data bs (Suc i) (buf @ [data ! i]))"
  by (subst ref_deltas.simps) simp

lemma ref_deltas_bytes:
  assumes bs: "0 < bs" and sound: "look_sound look cache data bs"
  shows "pieces_bytes cache (ref_deltas look data bs i buf) = buf @ drop i data"
  using bs
proof (induction i buf rule: ref_deltas_cases_induct[where data = data and look = look])
  case (match i buf k)
  then have "cache ! unat k = slice_at data i bs" using sound by (simp add: look_sound_def)
  moreover have "slice_at data i bs @ drop (i + bs) data = drop i data"
    by (metis append_take_drop_id slice_at_def drop_drop add.commute)
  ultimately show ?case using match bs by (simp add: ref_deltas_match)
next
  case (finish i buf)
  then show ?case using bs by (simp add: ref_deltas_end)
next
  case (full i buf)
  then show ?case using bs by (simp add: ref_deltas_byte Cons_nth_drop_Suc)
next
  case (small i buf)
  then show ?case using bs by (simp add: ref_deltas_byte Cons_nth_drop_Suc)
qed

lemma ref_deltas_contiguous:
  assumes bs: "0 < bs" and sound: "look_sound look cache data bs" and len: "length buf \<le> i"
  shows "contiguous cache (i - length buf) (ref_deltas look data bs i buf)"
  using bs len
proof (induction i buf rule: ref_deltas_cases_induct[where data = data and look = look])
  case (match i buf k)
  then have "length (cache ! unat k) = bs" using sound by (simp add: look_sound_def)
  with match bs show ?case by (simp add: ref_deltas_match)
next
  case (finish i buf)
  then show ?case using bs by (simp add: ref_deltas_end)
next
  case (full i buf)
  then show ?case using bs by (simp add: ref_deltas_byte Suc_diff_le)
next
  case (small i buf)
  then show ?case using bs by (simp add: ref_deltas_byte)
qed

text \<open>Every literal is nonempty and fits a message; every block index was found by the lookup.\<close>

fun piece_ok :: "(byte list \<Rightarrow> u32 option) \<Rightarrow> byte list \<Rightarrow> nat \<Rightarrow> nat \<times> Instruction \<Rightarrow> bool" where
  "piece_ok look data bs (p, Literal b) \<longleftrightarrow> b \<noteq> [] \<and> length b \<le> MAX_LITERAL_CHUNK_SIZE"
| "piece_ok look data bs (p, BlockIndex k) \<longleftrightarrow> p + bs \<le> length data \<and> look (slice_at data p bs) = Some k"

lemma ref_deltas_pieces_ok:
  assumes bs: "0 < bs" and len: "length buf < MAX_LITERAL_CHUNK_SIZE"
  shows "list_all (piece_ok look data bs) (ref_deltas look data bs i buf)"
  using bs len
proof (induction i buf rule: ref_deltas_cases_induct[where data = data and look = look])
  case (match i buf k)
  then show ?case using bs MAX_pos by (simp add: ref_deltas_match literal_piece_def)
next
  case (finish i buf)
  then show ?case using bs by (simp add: ref_deltas_end literal_piece_def)
next
  case (full i buf)
  then show ?case using bs MAX_pos by (simp add: ref_deltas_byte)
next
  case (small i buf)
  then show ?case using bs by (simp add: ref_deltas_byte)
qed

text \<open>Where every aligned window is found, only the tail after the last whole block is sent as
  literal bytes.\<close>

fun literal_bytes :: "nat \<times> Instruction \<Rightarrow> byte list" where
  "literal_bytes (p, Literal b) = b"
| "literal_bytes (p, BlockIndex k) = []"

lemma literal_bytes_tail:
  assumes bs: "0 < bs" and "length data < i + bs"
  shows "concat (map literal_bytes (ref_deltas look data bs i buf)) = buf @ drop i data"
  using assms
proof (induction i buf rule: ref_deltas_cases_induct[where data = data and look = look])
  case (match i buf k)
  then show ?case by simp
next
  case (finish i buf)
  then show ?case using bs by (simp add: ref_deltas_end literal_piece_def)
next
  case (full i buf)
  then show ?case using bs by (simp add: ref_deltas_byte Cons_nth_drop_Suc)
next
  case (small i buf)
  then show ?case using bs by (simp add: ref_deltas_byte Cons_nth_drop_Suc)
qed

lemma literal_bytes_aligned:
  assumes bs: "0 < bs"
    and found: "\<And>q. q * bs + bs \<le> length data \<Longrightarrow> look (slice_at data (q * bs) bs) \<noteq> None"
  shows "concat (map literal_bytes (ref_deltas look data bs (q * bs) [])) =
           drop (max (q * bs) (length data div bs * bs)) data"
proof (induction "length data - q * bs" arbitrary: q rule: less_induct)
  case less
  show ?case
  proof (cases "q * bs + bs \<le> length data")
    case True
    with found obtain k where "look (slice_at data (q * bs) bs) = Some k" by blast
    moreover have "length data - Suc q * bs < length data - q * bs" using True bs by simp
    note less[OF this]
    moreover have q: "Suc q \<le> length data div bs" using True bs by (simp add: less_eq_div_iff_mult_less_eq)
    then have "Suc q * bs \<le> length data div bs * bs" by (rule mult_le_mono1)
    ultimately show ?thesis
      using True bs Suc_leD[OF q] by (simp add: ref_deltas_match literal_piece_def add.commute max_def)
  next
    case False
    then have "length data div bs < Suc q" using bs by (simp add: div_less_iff_less_mult)
    then have "length data div bs * bs \<le> q * bs" by (intro mult_le_mono1) simp
    then show ?thesis using False bs by (simp add: literal_bytes_tail max_def)
  qed
qed

end
