(* ===== verification/Delta_Roundtrip.thy ===== *)
theory Delta_Roundtrip
  imports Delta_Correct
begin

section \<open>Signatures, lookup table and the transfer of a file\<close>

text \<open>
  What the signature message says of the old file, what the lookup table built from it
  finds, and the theorems about \<open>send_delta_from_block_signatures\<close>: the messages it
  sends, the bytes they stand for, and its behaviour for the block sizes a peer can choose
  badly.
\<close>

subsection \<open>Chunks and signatures\<close>

lemma concat_chunks: "0 < n \<Longrightarrow> concat (chunks n xs) = xs"
proof (induction n xs rule: chunks.induct)
  case (1 n xs)
  then show ?case by (subst chunks.simps) simp
qed

lemma length_chunks_le: "c \<in> set (chunks n xs) \<Longrightarrow> length c \<le> n"
proof (induction n xs rule: chunks.induct)
  case (1 n xs)
  from 1(2) have "n \<noteq> 0" "xs \<noteq> []" by (subst (asm) chunks.simps, simp split: if_splits)+
  with 1 show ?case by (subst (asm) chunks.simps) auto
qed

lemma chunks_nth:
  "0 < n \<Longrightarrow> q < length (chunks n xs) \<Longrightarrow> chunks n xs ! q = slice_at xs (q * n) n"
proof (induction n xs arbitrary: q rule: chunks.induct)
  case (1 n xs)
  from 1(3) have "xs \<noteq> []" by (subst (asm) chunks.simps, simp split: if_splits)
  then have eq: "chunks n xs = take n xs # chunks n (drop n xs)" using 1(2) by (subst chunks.simps) simp
  show ?case
  proof (cases q)
    case 0
    then show ?thesis by (simp add: eq slice_at_def)
  next
    case (Suc p)
    then show ?thesis
      using 1(1)[of p] 1(2,3) \<open>xs \<noteq> []\<close> by (simp add: eq slice_at_def add.commute)
  qed
qed

lemma chunks_complete: "0 < n \<Longrightarrow> q * n + n \<le> length xs \<Longrightarrow> q < length (chunks n xs)"
proof (induction n xs arbitrary: q rule: chunks.induct)
  case (1 n xs)
  then have "xs \<noteq> []" by auto
  then have eq: "chunks n xs = take n xs # chunks n (drop n xs)" using 1(2) by (subst chunks.simps) simp
  show ?case
  proof (cases q)
    case 0
    then show ?thesis by (simp add: eq)
  next
    case (Suc p)
    then show ?thesis using 1(1)[of p] 1(2,3) \<open>xs \<noteq> []\<close> by (simp add: eq)
  qed
qed

text \<open>Each block is signed on its own: the state of the hasher does not leak from one block
  to the next.\<close>

lemma sign_chunks_eq:
  "buz_sized h n \<Longrightarrow> (\<And>c. c \<in> set cs \<Longrightarrow> length c \<le> n) \<Longrightarrow>
   sign_chunks blake3 h cs = map (\<lambda>c. \<lparr>weak_checksum = window_hash n c, strong_checksum = blake3 c\<rparr>) cs"
proof (induction cs arbitrary: h)
  case Nil
  show ?case by simp
next
  case (Cons c cs)
  have "buz_sized (buz_compute h c) n" using Cons.prems by simp
  moreover have "bz_hash (buz_compute h c) = window_hash n c"
    using Cons.prems by (simp add: buz_compute_def Let_def buz_sized_def)
  ultimately show ?case using Cons.IH[of "buz_compute h c"] Cons.prems by (simp add: Let_def)
qed

definition signatures_of :: "(byte list \<Rightarrow> byte list) \<Rightarrow> nat \<Rightarrow> byte list \<Rightarrow> BlockSignature list" where
  "signatures_of blake3 n data =
     map (\<lambda>c. \<lparr>weak_checksum = window_hash n c, strong_checksum = blake3 c\<rparr>) (chunks n data)"

lemma generate_blocks_signatures_ok:
  assumes "get_absolute_path clean p root = Inr q" "fs_read F q = Inr data"
    and "0 < unat bs" "unat bs \<le> isize_max"
  shows "generate_blocks_signatures F clean blake3 p root bs =
    Inr (\<lparr>block_size = bs, blocks = signatures_of blake3 (unat bs) data\<rparr>, chunks (unat bs) data)"
proof -
  obtain h where h: "buz_new (unat bs) = Inr h" "buz_sized h (unat bs)"
    using buz_new_cases[OF assms(4)] by blast
  have "sign_chunks blake3 h (chunks (unat bs) data) = signatures_of blake3 (unat bs) data"
    unfolding signatures_of_def by (rule sign_chunks_eq[OF h(2)]) (rule length_chunks_le)
  with assms h show ?thesis
    by (simp add: generate_blocks_signatures_def Let_def unat_gt_0)
qed

subsection \<open>The lookup table\<close>

lemma build_sig_map_Nil [simp]: "build_sig_map [] = Map.empty"
  by (simp add: build_sig_map_def)

lemma build_sig_map_snoc: "build_sig_map (bs @ [b]) = sig_insert (length bs, b) (build_sig_map bs)"
  by (simp add: build_sig_map_def enumerate_append_eq)

definition sig_lookup :: "sig_map \<Rightarrow> u64 \<Rightarrow> byte list \<Rightarrow> u32 option" where
  "sig_lookup m w h = (case m w of None \<Rightarrow> None | Some strong \<Rightarrow> strong h)"

lemma sig_lookup_insert:
  "sig_lookup (sig_insert (j, b) m) w h =
     (if length (strong_checksum b) = 32 \<and> w = weak_checksum b \<and> h = strong_checksum b
      then Some (word_of_nat j) else sig_lookup m w h)"
  by (auto simp: sig_lookup_def sig_insert_def Let_def split: option.splits)

text \<open>The table finds a pair of checksums exactly where a block of the message has them, and
  gives the (narrowed) index of such a block.\<close>

lemma sig_lookup_build_SomeD:
  "sig_lookup (build_sig_map bs) w h = Some k \<Longrightarrow>
   \<exists>j < length bs. weak_checksum (bs ! j) = w \<and> strong_checksum (bs ! j) = h \<and> k = word_of_nat j"
proof (induction bs rule: rev_induct)
  case Nil
  then show ?case by (simp add: sig_lookup_def)
next
  case (snoc b bs)
  show ?case
  proof (cases "length (strong_checksum b) = 32 \<and> w = weak_checksum b \<and> h = strong_checksum b")
    case True
    then show ?thesis
      using snoc.prems by (intro exI[of _ "length bs"]) (simp add: build_sig_map_snoc sig_lookup_insert)
  next
    case False
    then have "sig_lookup (build_sig_map bs) w h = Some k"
      using snoc.prems by (auto simp: build_sig_map_snoc sig_lookup_insert)
    then obtain j where "j < length bs" "weak_checksum (bs ! j) = w" "strong_checksum (bs ! j) = h"
        "k = word_of_nat j"
      using snoc.IH by blast
    then show ?thesis by (intro exI[of _ j]) (simp add: nth_append)
  qed
qed

lemma sig_lookup_build_complete:
  "b \<in> set bs \<Longrightarrow> length (strong_checksum b) = 32 \<Longrightarrow>
   sig_lookup (build_sig_map bs) (weak_checksum b) (strong_checksum b) \<noteq> None"
  by (induction bs rule: rev_induct) (auto simp: build_sig_map_snoc sig_lookup_insert)

lemma block_lookup_eq: "block_lookup blake3 sigs bs w = sig_lookup sigs (window_hash bs w) (blake3 w)"
  by (simp add: block_lookup_def sig_lookup_def)

text \<open>The strong hash tells the blocks of the old data from the windows of the new data.\<close>

definition strong_separates :: "(byte list \<Rightarrow> byte list) \<Rightarrow> nat \<Rightarrow> byte list \<Rightarrow> byte list \<Rightarrow> bool" where
  "strong_separates blake3 n old new \<longleftrightarrow>
     (\<forall>c \<in> set (chunks n old). \<forall>i. i + n \<le> length new \<longrightarrow>
        blake3 c = blake3 (slice_at new i n) \<longrightarrow> c = slice_at new i n)"

lemma look_sound_signatures:
  assumes "strong_separates blake3 n old new" "length (chunks n old) \<le> 2 ^ 32"
  shows "look_sound (block_lookup blake3 (build_sig_map (signatures_of blake3 n old)) n) (chunks n old) new n"
  unfolding look_sound_def
proof (intro allI impI)
  fix i k
  assume i: "i + n \<le> length new"
    and "block_lookup blake3 (build_sig_map (signatures_of blake3 n old)) n (slice_at new i n) = Some k"
  then obtain j where j: "j < length (chunks n old)" "blake3 (chunks n old ! j) = blake3 (slice_at new i n)"
      "k = word_of_nat j"
    using sig_lookup_build_SomeD by (fastforce simp: block_lookup_eq signatures_of_def)
  then have "unat k = j" using assms(2) by (simp add: unsigned_of_nat take_bit_nat_eq_self)
  moreover have "chunks n old ! j = slice_at new i n"
    using assms(1) i j by (simp add: strong_separates_def)
  ultimately show "unat k < length (chunks n old) \<and> chunks n old ! unat k = slice_at new i n"
    using j by simp
qed

subsection \<open>The sender\<close>

lemma loop_inv_start:
  assumes "buz_sized h bs" "0 < bs"
  shows "loop_inv data bs 0 [] 0
    (buz_compute h (if length data \<le> bs then data else slice_at data 0 bs))"
  using assms MAX_pos by (auto simp: loop_inv_def slice_at_full intro!: buz_compute_holds)

lemma send_delta_ref:
  assumes "fs_read F p = Inr data" "0 < unat (block_size sigs)" "unat (block_size sigs) \<le> isize_max"
  shows "send_delta_from_block_signatures F blake3 send p sigs s =
    Some (send_all send
      (map delta_message (ref_deltas (block_lookup blake3 (build_sig_map (blocks sigs)) (unat (block_size sigs)))
                            data (unat (block_size sigs)) 0 []) @ [request (Complete True)]) s)"
proof -
  obtain h where h: "buz_new (unat (block_size sigs)) = Inr h" "buz_sized h (unat (block_size sigs))"
    using buz_new_cases[OF assms(3)] by blast
  then show ?thesis
    using delta_loop_ref[OF assms(2) loop_inv_start[OF h(2) assms(2)], of send blake3 _ data s] assms(1)
    by (simp add: send_delta_from_block_signatures_def Let_def split: if_splits)
qed

text \<open>The signatures the receiver of the file makes from its old version.\<close>

definition signed :: "(byte list \<Rightarrow> byte list) \<Rightarrow> u64 \<Rightarrow> byte list \<Rightarrow> BlockSignatures" where
  "signed blake3 bs old = \<lparr>block_size = bs, blocks = signatures_of blake3 (unat bs) old\<rparr>"

definition deltas_for :: "(byte list \<Rightarrow> byte list) \<Rightarrow> u64 \<Rightarrow> byte list \<Rightarrow> byte list \<Rightarrow> (nat \<times> Instruction) list" where
  "deltas_for blake3 bs old new =
     ref_deltas (block_lookup blake3 (build_sig_map (signatures_of blake3 (unat bs) old)) (unat bs))
       new (unat bs) 0 []"

lemma send_delta_signed:
  assumes "fs_read F p = Inr new" "0 < unat bs" "unat bs \<le> isize_max"
  shows "send_delta_from_block_signatures F blake3 send p (signed blake3 bs old) s =
    Some (send_all send (map delta_message (deltas_for blake3 bs old new) @ [request (Complete True)]) s)"
  using send_delta_ref[of F p new "signed blake3 bs old"] assms by (simp add: signed_def deltas_for_def)

lemma deltas_for_bytes:
  assumes "0 < unat bs" "strong_separates blake3 (unat bs) old new" "length (chunks (unat bs) old) \<le> 2 ^ 32"
  shows "pieces_bytes (chunks (unat bs) old) (deltas_for blake3 bs old new) = new"
    and "contiguous (chunks (unat bs) old) 0 (deltas_for blake3 bs old new)"
  using ref_deltas_bytes[OF assms(1) look_sound_signatures[OF assms(2,3)], of 0 "[]"]
    ref_deltas_contiguous[OF assms(1) look_sound_signatures[OF assms(2,3)], of "[]" 0]
  by (simp_all add: deltas_for_def)

lemma deltas_for_ok:
  assumes "0 < unat bs"
  shows "list_all (piece_ok (block_lookup blake3 (build_sig_map (signatures_of blake3 (unat bs) old)) (unat bs))
            new (unat bs)) (deltas_for blake3 bs old new)"
  using ref_deltas_pieces_ok[OF assms] MAX_pos by (simp add: deltas_for_def)

text \<open>A block index that is sent is the index of a block.\<close>

lemma deltas_for_index:
  assumes "0 < unat bs" "strong_separates blake3 (unat bs) old new" "length (chunks (unat bs) old) \<le> 2 ^ 32"
    and "(p, BlockIndex k) \<in> set (deltas_for blake3 bs old new)"
  shows "unat k < length (chunks (unat bs) old)"
  using deltas_for_ok[OF assms(1), of blake3 old new] assms(4) look_sound_signatures[OF assms(2,3)]
  by (fastforce simp: list_all_iff look_sound_def)

lemma same_data_found:
  assumes "0 < n" "\<And>x. length (blake3 x) = 32" "q * n + n \<le> length data"
  shows "block_lookup blake3 (build_sig_map (signatures_of blake3 n data)) n (slice_at data (q * n) n) \<noteq> None"
proof -
  let ?c = "slice_at data (q * n) n"
  have "?c \<in> set (chunks n data)"
    using chunks_complete[OF assms(1,3)] chunks_nth[OF assms(1)] by (metis nth_mem)
  then have "\<lparr>weak_checksum = window_hash n ?c, strong_checksum = blake3 ?c\<rparr> \<in> set (signatures_of blake3 n data)"
    by (auto simp: signatures_of_def)
  from sig_lookup_build_complete[OF this] assms(2) show ?thesis by (simp add: block_lookup_eq)
qed

subsection \<open>Bad block sizes\<close>

lemma window_of_size_0:
  assumes "buz_new 0 = Inr h"
  shows "bz_hash (buz_compute h x) = 0" "buz_roll (buz_compute h x) b = Inl Panic"
  using assms by (auto simp: buz_new_def buz_compute_def buz_roll_def Let_def)

lemma buz_new_0: "\<exists>h. buz_new 0 = Inr h"
  by (simp add: buz_new_def)

text \<open>With a block size of 0 and a matching signature the loop sends the same block index for
  ever: on a sink that never fails, no result is ever produced.\<close>

definition stuck_at :: "byte list \<Rightarrow> nat \<Rightarrow> nat \<Rightarrow> byte list \<Rightarrow> BuzHash \<Rightarrow> bool" where
  "stuck_at data bs i buf h \<longleftrightarrow>
     bs = 0 \<and> i \<le> length data \<and> buf = [] \<and> bz_window_size h = 0 \<and> bz_hash h = 0"

lemma stuck_step:
  assumes "stuck_at data bs i buf h"
  shows "stuck_at data bs (i + bs) []
    (if i + bs + bs \<le> length data then buz_compute h (slice_at data (i + bs) bs) else h)"
  using assms by (simp add: stuck_at_def buz_compute_def Let_def)

lemma delta_loop_zero_diverges:
  assumes sigs: "sigs 0 = Some strong" "strong (blake3 []) = Some k"
    and st: "stuck_at data bs i buf h" and opened: "lifetime c = None"
  shows "delta_loop channel_send blake3 sigs data bs i buf start h c = None"
proof (rule ccontr)
  let ?stuck = "\<lambda>send' blake3' sigs' data bs i buf h c. send' = channel_send \<and> blake3' = blake3 \<and>
    sigs' = sigs \<and> stuck_at data bs i buf h \<and> lifetime c = None"
  assume "delta_loop channel_send blake3 sigs data bs i buf start h c \<noteq> None"
  then obtain r where "delta_loop channel_send blake3 sigs data bs i buf start h c = Some r" by blast
  then have "\<not> ?stuck channel_send blake3 sigs data bs i buf h c"
  proof (rule delta_loop.raw_induct[where P =
      "\<lambda>send' blake3' sigs' data bs i buf start h c r. \<not> ?stuck send' blake3' sigs' data bs i buf h c",
      rotated], goal_cases)
    case (1 rec send' blake3' sigs' data bs i buf start h c r)
    show ?case
    proof
      assume st: "?stuck send' blake3' sigs' data bs i buf h c"
      then have "find_block blake3 sigs data bs i (bz_hash h) = Some k"
        using sigs by (simp add: find_block_def stuck_at_def)
      moreover have "flush_buffer channel_send buf start c = (c, Inr ())"
        using st by (simp add: flush_buffer_def stuck_at_def)
      moreover let ?c = "c\<lparr>accepted := accepted c @ [delta_request (word_of_nat i) (BlockIndex k)]\<rparr>"
      have "channel_send (delta_request (word_of_nat i) (BlockIndex k)) c = (?c, Inr ())"
        using st by (simp add: channel_send_open)
      ultimately have "rec channel_send blake3 sigs data bs (i + bs) [] start
          (if i + bs + bs \<le> length data then buz_compute h (slice_at data (i + bs) bs) else h) ?c = Some r"
        using 1(2) st by (simp add: Let_def)
      from 1(1)[OF this] stuck_step[of data bs i buf h] st show False by simp
    qed
  qed
  with st opened show False by simp
qed

subsection \<open>An example strong hash\<close>

text \<open>A 32-byte hash that separates short blocks, for concrete instances of the results.\<close>

definition example_hash :: "byte list \<Rightarrow> byte list" where
  "example_hash x = take 32 (word_of_nat (length x) # x @ replicate 32 0)"

lemma length_example_hash [simp]: "length (example_hash x) = 32"
  by (simp add: example_hash_def)

lemma example_hash_inj:
  assumes "length x \<le> 31" "length y \<le> 31" "example_hash x = example_hash y"
  shows "x = y"
proof -
  have "(word_of_nat (length x) :: byte) = word_of_nat (length y)"
    and tl: "take 31 (x @ replicate 32 0) = take 31 (y @ replicate 32 0)"
    using assms(3) by (simp_all add: example_hash_def)
  then have "unat (word_of_nat (length x) :: byte) = unat (word_of_nat (length y) :: byte)" by simp
  then have len: "length x = length y"
    using assms(1,2) by (simp add: unsigned_of_nat take_bit_nat_eq_self)
  have "take (length x) (take 31 (x @ replicate 32 0)) = take (length x) (take 31 (y @ replicate 32 0))"
    by (simp only: tl)
  then show ?thesis using assms(1,2) len by (simp add: min_absorb1)
qed

lemma strong_separates_example: "n \<le> 31 \<Longrightarrow> strong_separates example_hash n old new"
  unfolding strong_separates_def
proof (intro ballI allI impI)
  fix c i
  assume n: "n \<le> 31" and c: "c \<in> set (chunks n old)" and eq: "example_hash c = example_hash (slice_at new i n)"
  have "length c \<le> 31" using length_chunks_le[OF c] n by simp
  moreover have "length (slice_at new i n) \<le> 31" using n by simp
  ultimately show "c = slice_at new i n" using eq by (rule example_hash_inj)
qed

subsection \<open>The signatures a file gets\<close>

lemma generate_blocks_signatures_InrD:
  assumes "generate_blocks_signatures F clean blake3 p root bs = Inr (sig, cache)"
  shows "\<exists>q old. get_absolute_path clean p root = Inr q \<and>
      (fs_read F q = Inr old \<or> fs_read F q = Inl NotFound \<and> old = []) \<and>
      0 < unat bs \<and> unat bs \<le> isize_max \<and>
      sig = signed blake3 bs old \<and> cache = chunks (unat bs) old"
proof -
  obtain q where q: "get_absolute_path clean p root = Inr q"
    using assms by (auto simp: generate_blocks_signatures_def and_then_Inr_iff)
  obtain h where h: "buz_new (unat bs) = Inr h" and pos: "bs \<noteq> 0"
    using assms by (auto simp: generate_blocks_signatures_def and_then_Inr_iff split: if_splits)
  have le: "unat bs \<le> isize_max" using h by (simp add: buz_new_def split: if_splits)
  have sign: "sign_chunks blake3 h (chunks (unat bs) old) = signatures_of blake3 (unat bs) old" for old
    unfolding signatures_of_def by (rule sign_chunks_eq[OF buz_new_sized[OF h]]) (rule length_chunks_le)
  show ?thesis
    using assms q h pos le sign
    by (auto simp: generate_blocks_signatures_def and_then_Inr_iff signed_def Let_def unat_gt_0
        split: sum.splits io_error.splits)
qed

lemma generate_blocks_signatures_NotFound:
  assumes "get_absolute_path clean p root = Inr q" "fs_read F q = Inl NotFound"
    and "0 < unat bs" "unat bs \<le> isize_max"
  shows "generate_blocks_signatures F clean blake3 p root bs = Inr (signed blake3 bs [], [])"
  using assms buz_new_cases[OF assms(4)]
  by (auto simp: generate_blocks_signatures_def signed_def signatures_of_def chunks.simps Let_def unat_gt_0)

subsection \<open>Properties\<close>

text \<open>C4: On every sink, for every block size the hasher can be made for, the sender sends
  exactly the messages of the reference generator (hashing each window from scratch), in
  order, then \<open>Complete\<close>, and returns what the last send returned: the rolling hash,
  the literal buffer and its start index are an implementation of that list.\<close>

theorem delta_stream_refines_reference:
  assumes "fs_read F p = Inr data" "0 < unat (block_size sigs)" "unat (block_size sigs) \<le> isize_max"
  shows "send_delta_from_block_signatures F blake3 send p sigs s =
    Some (send_all send
      (map delta_message (ref_deltas (block_lookup blake3 (build_sig_map (blocks sigs)) (unat (block_size sigs)))
                            data (unat (block_size sigs)) 0 []) @ [request (Complete True)]) s)"
  by (rule send_delta_ref[OF assms])

theorem delta_stream_refines_reference_witness:
  "\<exists>ms. send_delta_from_block_signatures (single_file ''f'' [1, 2, 3]) example_hash channel_send ''/f''
     (signed example_hash 2 [1, 2]) new_channel =
     Some (send_all channel_send (ms @ [request (Complete True)]) new_channel)"
proof -
  have "fs_read (single_file ''f'' [1, 2, 3]) ''/f'' = Inr [1, 2, 3]"
    by (rule fs_read_single_file) (simp add: resolve_single_file, code_simp)
  from delta_stream_refines_reference[OF this, of "signed example_hash 2 [1, 2]" example_hash channel_send new_channel]
  show ?thesis
    by (intro exI) (simp add: signed_def isize_max_def)
qed

text \<open>C38: End to end: whatever the receiver signs as its old version, if the strong hash tells
  those blocks from the windows of the new file and there are at most $2^{32}$ of them, then on
  every sink the sender produces deltas that lie one after the other from offset 0, stand for
  exactly the new contents given the receiver's blocks, whose literals are nonempty and fit one
  message and whose indices are those of the receiver's blocks, and then \<open>Complete\<close>.\<close>

theorem delta_stream_reconstructs_file:
  assumes signed: "generate_blocks_signatures F clean blake3 p root bs = Inr (sig, cache)"
    and new: "fs_read G q = Inr new"
    and distinguished: "\<forall>c \<in> set cache. \<forall>i. i + unat bs \<le> length new \<longrightarrow>
        blake3 c = blake3 (slice_at new i (unat bs)) \<longrightarrow> c = slice_at new i (unat bs)"
    and small: "length cache \<le> 2 ^ 32"
  shows "\<exists>ps. send_delta_from_block_signatures G blake3 send q sig s =
      Some (send_all send (map delta_message ps @ [request (Complete True)]) s) \<and>
    contiguous cache 0 ps \<and> pieces_bytes cache ps = new \<and>
    (\<forall>(pos, x) \<in> set ps. case x of
        Literal b \<Rightarrow> b \<noteq> [] \<and> length b \<le> MAX_LITERAL_CHUNK_SIZE
      | BlockIndex k \<Rightarrow> unat k < length cache)"
proof -
  obtain old where bs: "0 < unat bs" "unat bs \<le> isize_max"
    and sig: "sig = signed blake3 bs old" and cache: "cache = chunks (unat bs) old"
    using generate_blocks_signatures_InrD[OF signed] by blast
  have sep: "strong_separates blake3 (unat bs) old new"
    using distinguished by (simp add: strong_separates_def cache)
  note few = small[unfolded cache]
  note ok = deltas_for_ok[OF bs(1), of blake3 old new]
  have "case x of Literal b \<Rightarrow> b \<noteq> [] \<and> length b \<le> MAX_LITERAL_CHUNK_SIZE
      | BlockIndex k \<Rightarrow> unat k < length cache" if "(pos, x) \<in> set (deltas_for blake3 bs old new)" for pos x
    using ok that deltas_for_index[OF bs(1) sep few] by (cases x) (auto simp: list_all_iff cache)
  then show ?thesis
    using send_delta_signed[OF new bs] deltas_for_bytes[OF bs(1) sep few]
    unfolding sig cache by (intro exI[of _ "deltas_for blake3 bs old new"]) auto
qed

theorem delta_stream_reconstructs_file_witness:
  "\<exists>ps. send_delta_from_block_signatures (single_file ''f'' [1, 2, 9, 3, 4]) example_hash channel_send ''/f''
      (signed example_hash 2 [1, 2, 3, 4]) new_channel =
      Some (send_all channel_send (map delta_message ps @ [request (Complete True)]) new_channel) \<and>
    pieces_bytes (chunks 2 [1, 2, 3, 4]) ps = [1, 2, 9, 3, 4]"
proof -
  have "get_absolute_path lexical_clean ''f'' ''/'' = Inr ''/f''" by code_simp
  moreover have r: "resolve (single_file ''f'' c) ''/f'' = [''f'']" for c
    by (simp add: resolve_single_file, code_simp)
  ultimately have "generate_blocks_signatures (single_file ''f'' [1, 2, 3, 4]) lexical_clean example_hash ''f'' ''/'' 2 =
      Inr (signed example_hash 2 [1, 2, 3, 4], chunks 2 [1, 2, 3, 4])"
    unfolding signed_def
    by (subst generate_blocks_signatures_ok[where q = "''/f''" and data = "[1, 2, 3, 4]"])
      (simp_all add: fs_read_single_file isize_max_def)
  moreover have "strong_separates example_hash 2 [1, 2, 3, 4] [1, 2, 9, 3, 4]"
    by (rule strong_separates_example) simp
  moreover have "length (chunks 2 [1, 2, 3, 4 :: byte]) \<le> 2 ^ 32" by (simp add: chunks.simps)
  ultimately show ?thesis
    using delta_stream_reconstructs_file[OF _ fs_read_single_file[OF r], of
        "single_file ''f'' [1, 2, 3, 4]" lexical_clean example_hash "''f''" "''/''" 2
        "signed example_hash 2 [1, 2, 3, 4]" "chunks 2 [1, 2, 3, 4]" "[1, 2, 9, 3, 4]" channel_send new_channel]
    by (simp add: strong_separates_def) blast
qed

text \<open>A file that did not change costs no data beyond its last partial block: with
  signatures of the same contents every literal byte that is sent lies after the last whole
  block.  This rests on the strong hash being 32 bytes long only.\<close>

theorem unchanged_file_sends_only_tail:
  assumes "fs_read F p = Inr data" "0 < unat bs" "unat bs \<le> isize_max"
    and "\<forall>x. length (blake3 x) = 32"
  shows "\<exists>ps. send_delta_from_block_signatures F blake3 send p (signed blake3 bs data) s =
      Some (send_all send (map delta_message ps @ [request (Complete True)]) s) \<and>
    concat (map literal_bytes ps) = drop (length data div unat bs * unat bs) data"
proof -
  have "concat (map literal_bytes (deltas_for blake3 bs data data)) = drop (length data div unat bs * unat bs) data"
    using literal_bytes_aligned[OF assms(2), of data _ 0] same_data_found[OF assms(2)] assms(4)
    by (simp add: deltas_for_def)
  then show ?thesis using send_delta_signed[OF assms(1-3), of blake3 send data s] by blast
qed

theorem unchanged_file_sends_only_tail_witness:
  "\<exists>ps. send_delta_from_block_signatures (single_file ''f'' [7, 7, 8, 8, 9]) example_hash channel_send ''/f''
      (signed example_hash 2 [7, 7, 8, 8, 9]) new_channel =
      Some (send_all channel_send (map delta_message ps @ [request (Complete True)]) new_channel) \<and>
    concat (map literal_bytes ps) = [9]"
proof -
  have "fs_read (single_file ''f'' [7, 7, 8, 8, 9]) ''/f'' = Inr [7, 7, 8, 8, 9]"
    by (rule fs_read_single_file) (simp add: resolve_single_file, code_simp)
  from unchanged_file_sends_only_tail[OF this, of 2 example_hash channel_send new_channel] show ?thesis
    by (simp add: isize_max_def)
qed

text \<open>When the receiver goes away after \<open>n\<close> messages, fewer than the file needs, it has
  got exactly the first \<open>n\<close> messages of the stream and the sender returns a send error;
  otherwise it has got the whole stream and the sender succeeds.\<close>

theorem delta_stream_receiver_gone:
  assumes "fs_read F p = Inr data" "0 < unat bs" "unat bs \<le> isize_max" "lifetime c = Some n"
  shows "let ms = map delta_message (deltas_for blake3 bs old data) @ [request (Complete True)]
    in send_delta_from_block_signatures F blake3 channel_send p (signed blake3 bs old) c =
      Some (if length ms \<le> n
            then (c\<lparr>accepted := accepted c @ ms, lifetime := Some (n - length ms)\<rparr>, Inr ())
            else (c\<lparr>accepted := accepted c @ take n ms, lifetime := Some 0\<rparr>, Inl (Err SendError)))"
  using send_delta_signed[OF assms(1-3), of blake3 channel_send old c]
  by (simp add: channel_send_all_closing[OF assms(4)] Let_def)

theorem delta_stream_receiver_gone_witness:
  "send_delta_from_block_signatures (single_file ''f'' [1, 2, 3]) example_hash channel_send ''/f''
      (signed example_hash 2 []) \<lparr>accepted = [], lifetime = Some 0\<rparr> =
    Some (\<lparr>accepted = [], lifetime = Some 0\<rparr>, Inl (Err SendError))"
proof -
  have "fs_read (single_file ''f'' [1, 2, 3]) ''/f'' = Inr [1, 2, 3]"
    by (rule fs_read_single_file) (simp add: resolve_single_file, code_simp)
  from delta_stream_receiver_gone[OF this, of 2 "\<lparr>accepted = [], lifetime = Some 0\<rparr>" 0 example_hash "[]"]
  show ?thesis by (simp add: isize_max_def)
qed

text \<open>C39: A block size of 0 in a signature message: if the message also has the checksums of the
  empty block, the sender repeats one block index for ever on a sink that does not fail (no
  result at all); without it, the sender panics at the first byte of any nonempty file.\<close>

theorem zero_block_size_hangs_or_panics:
  assumes "fs_read F p = Inr data" "block_size sigs = 0" "lifetime c = None"
  shows "(sig_lookup (build_sig_map (blocks sigs)) 0 (blake3 []) \<noteq> None \<longrightarrow>
            send_delta_from_block_signatures F blake3 channel_send p sigs c = None) \<and>
         (sig_lookup (build_sig_map (blocks sigs)) 0 (blake3 []) = None \<and> data \<noteq> [] \<longrightarrow>
            send_delta_from_block_signatures F blake3 channel_send p sigs c = Some (c, Inl Panic))"
proof (intro conjI impI)
  let ?sigs = "build_sig_map (blocks sigs)"
  obtain h where h: "buz_new 0 = Inr h" using buz_new_0 by blast
  have run: "send_delta_from_block_signatures F blake3 channel_send p sigs c =
      delta_loop channel_send blake3 ?sigs data 0 0 [] 0 (buz_compute h (if data = [] then data else [])) c"
    using assms(1,2) h by (auto simp: send_delta_from_block_signatures_def Let_def)
  {
    assume "sig_lookup ?sigs 0 (blake3 []) \<noteq> None"
    then obtain strong k where "?sigs 0 = Some strong" "strong (blake3 []) = Some k"
      by (auto simp: sig_lookup_def split: option.splits)
    moreover have "stuck_at data 0 0 [] (buz_compute h w)" for w
      using h by (auto simp: stuck_at_def buz_new_def buz_compute_def Let_def)
    ultimately show "send_delta_from_block_signatures F blake3 channel_send p sigs c = None"
      using assms(3) unfolding run by (rule delta_loop_zero_diverges)
  next
    assume "sig_lookup ?sigs 0 (blake3 []) = None \<and> data \<noteq> []"
    then have "find_block blake3 ?sigs data 0 0 0 = None" and "data \<noteq> []"
      by (simp_all add: find_block_def sig_lookup_def split: option.splits)
    then show "send_delta_from_block_signatures F blake3 channel_send p sigs c = Some (c, Inl Panic)"
      unfolding run
      by (subst delta_loop.simps) (auto simp: window_of_size_0[OF h] Let_def Suc_le_eq MAX_LITERAL_CHUNK_SIZE_def)
  }
qed

theorem zero_block_size_hangs_or_panics_witness:
  "send_delta_from_block_signatures (single_file ''f'' [1]) example_hash channel_send ''/f''
     \<lparr>block_size = 0, blocks = [\<lparr>weak_checksum = 0, strong_checksum = example_hash []\<rparr>]\<rparr> new_channel = None \<and>
   send_delta_from_block_signatures (single_file ''f'' [1]) example_hash channel_send ''/f''
     \<lparr>block_size = 0, blocks = []\<rparr> new_channel = Some (new_channel, Inl Panic)"
proof -
  have "fs_read (single_file ''f'' [1]) ''/f'' = Inr [1]"
    by (rule fs_read_single_file) (simp add: resolve_single_file, code_simp)
  note run = zero_block_size_hangs_or_panics[OF this]
  have "sig_lookup (build_sig_map [\<lparr>weak_checksum = 0, strong_checksum = example_hash []\<rparr>]) 0 (example_hash []) \<noteq> None"
    using sig_lookup_insert[of 0 "\<lparr>weak_checksum = 0, strong_checksum = example_hash []\<rparr>" Map.empty]
    by (simp add: build_sig_map_def)
  moreover have "sig_lookup (build_sig_map []) 0 (example_hash []) = None" by (simp add: sig_lookup_def)
  ultimately show ?thesis
    using run[of "\<lparr>block_size = 0, blocks = [\<lparr>weak_checksum = 0, strong_checksum = example_hash []\<rparr>]\<rparr>"
        new_channel example_hash]
      run[of "\<lparr>block_size = 0, blocks = []\<rparr>" new_channel example_hash]
    by (simp add: new_channel_def)
qed

text \<open>The signatures of a file: the blocks the receiver keeps are its old contents (nothing
  when there is no file) cut at the block size, every block but the last of full size, and the
  message has, in the same order, each block's rolling hash and strong hash computed on that
  block alone, although one hasher is reused for all of them.\<close>

theorem signatures_describe_file:
  assumes "generate_blocks_signatures F clean blake3 p root bs = Inr (sig, cache)"
  shows "\<exists>q old. get_absolute_path clean p root = Inr q \<and>
    (fs_read F q = Inr old \<or> fs_read F q = Inl NotFound \<and> old = []) \<and>
    concat cache = old \<and> block_size sig = bs \<and> length (blocks sig) = length cache \<and>
    (\<forall>j < length cache. cache ! j = slice_at old (j * unat bs) (unat bs) \<and>
       blocks sig ! j = \<lparr>weak_checksum = window_hash (unat bs) (cache ! j), strong_checksum = blake3 (cache ! j)\<rparr>)"
proof -
  obtain q old where *: "get_absolute_path clean p root = Inr q"
      "fs_read F q = Inr old \<or> fs_read F q = Inl NotFound \<and> old = []" "0 < unat bs"
      "sig = signed blake3 bs old" "cache = chunks (unat bs) old"
    using generate_blocks_signatures_InrD[OF assms] by blast
  then show ?thesis
    by (intro exI[of _ q] exI[of _ old])
      (auto simp: signed_def signatures_of_def concat_chunks chunks_nth)
qed

theorem signatures_describe_file_witness:
  "\<exists>old. concat (chunks 2 [5, 6, 7 :: byte]) = old \<and> length (blocks (signed example_hash 2 [5, 6, 7])) = 2"
proof -
  have "get_absolute_path lexical_clean ''f'' ''/'' = Inr ''/f''" by code_simp
  moreover have "fs_read (single_file ''f'' [5, 6, 7]) ''/f'' = Inr [5, 6, 7]"
    by (rule fs_read_single_file) (simp add: resolve_single_file, code_simp)
  ultimately have "generate_blocks_signatures (single_file ''f'' [5, 6, 7]) lexical_clean example_hash ''f'' ''/'' 2 =
      Inr (signed example_hash 2 [5, 6, 7], chunks 2 [5, 6, 7])"
    unfolding signed_def by (subst generate_blocks_signatures_ok) (simp_all add: isize_max_def)
  from signatures_describe_file[OF this] show ?thesis by (auto simp: chunks.simps)
qed

text \<open>When signing fails: a path that leaves the directory is refused with its own error
  before anything is read, a read error other than a missing file is passed on, and a block size
  of 0 or above \<open>isize::MAX\<close> panics even for a missing or empty file.  The message
  is then not sent.\<close>

theorem signing_failures:
  "generate_blocks_signatures F clean blake3 p root bs = Inl e \<longleftrightarrow>
     get_absolute_path clean p root = Inl e \<or>
     (\<exists>q. get_absolute_path clean p root = Inr q \<and>
       ((\<exists>io. fs_read F q = Inl io \<and> io \<noteq> NotFound \<and> e = Err (Io io)) \<or>
        (fs_read F q = Inl NotFound \<or> (\<exists>data. fs_read F q = Inr data)) \<and>
          (bs = 0 \<or> isize_max < unat bs) \<and> e = Panic))"
proof (cases "get_absolute_path clean p root")
  case (Inl x)
  then show ?thesis by (auto simp: generate_blocks_signatures_def)
next
  case (Inr q)
  have big: "buz_new (unat bs) = Inl x \<longleftrightarrow> isize_max < unat bs \<and> x = Panic" for x
    by (auto simp: buz_new_def)
  show ?thesis
  proof (cases "fs_read F q")
    case (Inl io)
    then show ?thesis
      using Inr by (cases "io = NotFound"; cases "buz_new (unat bs)"; cases io)
        (auto simp: generate_blocks_signatures_def big buz_new_def Let_def split: if_splits)
  next
    case r: (Inr data)
    then show ?thesis
      using Inr by (cases "buz_new (unat bs)")
        (auto simp: generate_blocks_signatures_def big buz_new_def Let_def split: if_splits)
  qed
qed

end
