(* ===== verification/Delta_Writer.thy ===== *)
theory Delta_Writer
  imports Delta_Roundtrip
begin

section \<open>Writing the new version of a file\<close>

text \<open>
  Models src/utils/writer.rs.  \<open>delta_writer\<close> spawns a task that owns the receiving
  end of a channel of deltas: it creates a temporary file beside the target, applies each
  delta it receives, and when the channel is closed renames the temporary file to the target
  and sets its modification time.  A run of the task is a function of the deltas it receives
  before the channel is closed; it returns the file system it leaves and how it ended, which
  the source only logs.

  \<open>set_file_mtime\<close> of the crate filetime is a parameter; its result is not looked at.
  An index beyond the cache is a panic of the task.
\<close>

subsection \<open>The task\<close>

text \<open>One delta: seek first, then write the block or the literal.\<close>

definition writer_step :: "BlockCache \<Rightarrow> string list \<Rightarrow> Delta \<Rightarrow> file_system \<Rightarrow> file_system outcome" where
  "writer_step cache file d F =
     and_then (from_io (fs_seek (delta_index d))) (\<lambda>pos.
       case instruction d of
         Some (BlockIndex block_index) \<Rightarrow>
           if unat block_index < length cache
           then from_io (fs_write_all F file pos (cache ! unat block_index))
           else Inl Panic
       | Some (Literal bytes) \<Rightarrow> from_io (fs_write_all F file pos bytes)
       | None \<Rightarrow> Inl (Err (Io InvalidData)))"

text \<open>The loop over the channel.  On a failure the file system stays as it was left.\<close>

fun writer_loop ::
    "BlockCache \<Rightarrow> string list \<Rightarrow> Delta list \<Rightarrow> file_system \<Rightarrow> file_system \<times> unit outcome" where
  "writer_loop cache file [] F = (F, Inr ())"
| "writer_loop cache file (d # ds) F =
     (case writer_step cache file d F of
        Inl e \<Rightarrow> (F, Inl e)
      | Inr F' \<Rightarrow> writer_loop cache file ds F')"

text \<open>\<open>FileTime::from_unix_time(seconds, nanos as u32)\<close>\<close>

definition file_time :: "Timestamp \<Rightarrow> mtime" where
  "file_time ts = \<lparr>mt_secs = sint (ts_seconds ts), mt_nanos = unat (ts_nanos ts)\<rparr>"

definition delta_writer ::
    "(file_system \<Rightarrow> PathBuf \<Rightarrow> mtime \<Rightarrow> io_error + file_system) \<Rightarrow> PathBuf \<Rightarrow> BlockCache \<Rightarrow>
     Timestamp \<Rightarrow> Delta list \<Rightarrow> file_system \<Rightarrow> file_system \<times> unit outcome" where
  "delta_writer set_file_mtime path cache modified_ts ds F =
     (case fs_create F (tmp_file path) of
        Inl e \<Rightarrow> (F, Inl (Err (Io e)))
      | Inr (file, F1) \<Rightarrow>
          (case writer_loop cache file ds F1 of
             (F2, Inl e) \<Rightarrow> (F2, Inl e)
           | (F2, Inr _) \<Rightarrow>
               (case fs_rename F2 (tmp_file path) path of
                  Inl e \<Rightarrow> (F2, Inl (Err (Io e)))
                | Inr F3 \<Rightarrow>
                    ((case set_file_mtime F3 path (file_time modified_ts) of Inl _ \<Rightarrow> F3 | Inr F4 \<Rightarrow> F4),
                     Inr ()))))"

subsection \<open>What the writer needs of filetime\<close>

text \<open>Setting the time of a file succeeds on an existing file only and changes nothing but
  that time.\<close>

locale mtime_setter =
  fixes set_file_mtime :: "file_system \<Rightarrow> PathBuf \<Rightarrow> mtime \<Rightarrow> io_error + file_system"
  assumes set_mtime_Inr: "set_file_mtime F p t = Inr F' \<Longrightarrow>
    \<exists>c m. nodes F (resolve F p) = Some (File c m) \<and> F' = put_file (resolve F p) c t F"
begin

lemma set_mtime_contents:
  assumes "set_file_mtime F p t = Inr F'"
  shows "contents F' q = contents F q"
  using set_mtime_Inr[OF assms] by (auto simp: contents_def)

lemma set_mtime_frame:
  assumes "set_file_mtime F p t = Inr F'" "k \<noteq> resolve F p"
  shows "nodes F' k = nodes F k"
  using set_mtime_Inr[OF assms(1)] assms(2) by auto

end

definition utimens :: "file_system \<Rightarrow> PathBuf \<Rightarrow> mtime \<Rightarrow> io_error + file_system" where
  "utimens F p t =
     (case lookup_file F (resolve F p) of
        Inl e \<Rightarrow> Inl e
      | Inr (c, m) \<Rightarrow> Inr (put_file (resolve F p) c t F))"

interpretation utimens: mtime_setter utimens
  by unfold_locales (auto simp: utimens_def lookup_file_def split: sum.splits if_splits option.splits node.splits)

subsection \<open>The temporary file\<close>

text \<open>A path the writer is given: it has a file name, and an extension that is UTF-8.\<close>

definition writable_name :: "PathBuf \<Rightarrow> string \<Rightarrow> bool" where
  "writable_name p f \<longleftrightarrow> last_segment p = Some f \<and> (\<forall>e. extension p = Some e \<longrightarrow> utf8_valid e)"

lemma resolve_snoc:
  "components p = cs @ [Normal f] \<Longrightarrow> resolve F p = foldl resolve_step (cwd F) cs @ [f]"
  by (simp add: resolve_def)

lemma resolve_target:
  "writable_name p f \<Longrightarrow> resolve F p = butlast (resolve F p) @ [f]"
  using resolve_snoc[of p "butlast (components p)" f F] components_last_segment[of p f]
  by (simp add: writable_name_def)

lemma resolve_tmp_file:
  "writable_name p f \<Longrightarrow> resolve F (tmp_file p) = butlast (resolve F p) @ [f @ ''.tmp'']"
  using resolve_snoc[of p "butlast (components p)" f F] components_last_segment[of p f]
    resolve_snoc[of "tmp_file p" "butlast (components p)" "f @ ''.tmp''" F] tmp_file_components[of p f]
  by (simp add: writable_name_def)

lemma tmp_file_elsewhere:
  assumes "writable_name p f"
  shows "resolve F (tmp_file p) \<noteq> resolve F p"
  using resolve_target[OF assms, of F] resolve_tmp_file[OF assms, of F]
  by (metis append_self_conv last_snoc list.distinct(1))

subsection \<open>What the task touches\<close>

lemma writer_step_Inr:
  "writer_step cache k d F = Inr F' \<longleftrightarrow>
     (\<exists>x c m. unat (delta_index d) < 2 ^ 63 \<and> instruction d = Some x \<and>
        (\<forall>j. x = BlockIndex j \<longrightarrow> unat j < length cache) \<and> nodes F k = Some (File c m) \<and>
        F' = put_file k (write_at c (unat (delta_index d)) (instr_bytes cache x)) (clock F) F)"
proof (cases "instruction d")
  case None
  then show ?thesis by (simp add: writer_step_def and_then_Inr_iff)
next
  case (Some x)
  then show ?thesis
    by (cases x) (auto simp: writer_step_def and_then_Inr_iff from_io_Inr_iff fs_seek_Inr fs_write_all_Inr)
qed

lemma writer_step_same: "writer_step cache k d F = Inr F' \<Longrightarrow> same_except {k} F F'"
  by (auto simp: writer_step_Inr)

lemma writer_step_file: "writer_step cache k d F = Inr F' \<Longrightarrow> \<exists>c m. nodes F' k = Some (File c m)"
  by (auto simp: writer_step_Inr)

lemma writer_loop_same: "writer_loop cache k ds F = (F', r) \<Longrightarrow> same_except {k} F F'"
proof (induction ds arbitrary: F)
  case Nil
  then show ?case by simp
next
  case (Cons d ds)
  then show ?case
    by (auto dest: writer_step_same intro: same_except_trans split: sum.splits)
qed

lemma writer_loop_file:
  "writer_loop cache k ds F = (F', r) \<Longrightarrow> nodes F k = Some (File c m) \<Longrightarrow> \<exists>c m. nodes F' k = Some (File c m)"
proof (induction ds arbitrary: F c m)
  case Nil
  then show ?case by auto
next
  case (Cons d ds)
  show ?case
  proof (cases "writer_step cache k d F")
    case (Inl e)
    then show ?thesis using Cons.prems by auto
  next
    case (Inr F1)
    then show ?thesis using Cons.prems Cons.IH writer_step_file by fastforce
  qed
qed

text \<open>However a run ends, it leaves every file but the target and the temporary one alone; a
  run that fails leaves the target alone too.\<close>

lemma writer_prefix_same:
  assumes "fs_create F tmp = Inr (k, F1)" "writer_loop cache k ds F1 = (F2, r)"
  shows "same_except {k} F F2" "k = resolve F tmp" "\<exists>c m. nodes F2 k = Some (File c m)"
proof -
  have 1: "k = resolve F tmp" "F1 = put_file k [] (clock F) F" using assms(1) by (simp_all add: fs_create_Inr)
  then show "k = resolve F tmp" by simp
  have "same_except {k} F F1" using 1 by simp
  then show "same_except {k} F F2" using writer_loop_same[OF assms(2)] by (rule same_except_trans)
  show "\<exists>c m. nodes F2 k = Some (File c m)" using writer_loop_file[OF assms(2)] 1 by simp
qed

lemma delta_writer_failed_same:
  assumes "delta_writer set_file_mtime p cache ts ds F = (F', Inl e)"
  shows "same_except {resolve F (tmp_file p)} F F'"
proof (cases "fs_create F (tmp_file p)")
  case (Inl io)
  then show ?thesis using assms by (simp add: delta_writer_def)
next
  case (Inr kF)
  obtain k F1 where kF: "kF = (k, F1)" by (cases kF)
  obtain F2 r where loop: "writer_loop cache k ds F1 = (F2, r)" by (cases "writer_loop cache k ds F1")
  note pre = writer_prefix_same[OF Inr[unfolded kF] loop]
  have "F' = F2" using assms Inr kF loop by (auto simp: delta_writer_def split: sum.splits)
  then show ?thesis using pre by simp
qed

lemma delta_writer_same:
  assumes run: "delta_writer set_file_mtime p cache ts ds F = (F', r)" and setter: "mtime_setter set_file_mtime"
  shows "same_except {resolve F p, resolve F (tmp_file p)} F F'"
proof (cases r)
  case (Inl e)
  then show ?thesis
    using delta_writer_failed_same[of set_file_mtime p cache ts ds F F' e] run same_except_mono by blast
next
  case (Inr u)
  obtain k F1 where create: "fs_create F (tmp_file p) = Inr (k, F1)"
    using run Inr by (auto simp: delta_writer_def split: sum.splits prod.splits)
  obtain F2 r' where loop: "writer_loop cache k ds F1 = (F2, r')" by (cases "writer_loop cache k ds F1")
  note pre = writer_prefix_same[OF create loop]
  have res: "resolve F2 q = resolve F q" for q using same_except_resolve[OF pre(1)] .
  obtain F3 where rename: "fs_rename F2 (tmp_file p) p = Inr F3"
    and F': "F' = (case set_file_mtime F3 p (file_time ts) of Inl _ \<Rightarrow> F3 | Inr F4 \<Rightarrow> F4)"
    using run Inr create loop by (auto simp: delta_writer_def split: sum.splits)
  have F3: "same_except {resolve F p, k} F F3"
    using rename pre by (auto simp: fs_rename_Inr same_except_def res)
  show ?thesis
  proof (cases "set_file_mtime F3 p (file_time ts)")
    case (Inl e)
    then show ?thesis using F3 pre(2) by (simp add: F')
  next
    case (Inr F4)
    then have "same_except {resolve F p, k} F3 F4"
      using mtime_setter.set_mtime_Inr[OF setter Inr] same_except_resolve[OF F3] by auto
    with F3 show ?thesis using Inr pre(2) by (simp add: F' same_except_trans)
  qed
qed

lemma delta_writer_done:
  assumes run: "delta_writer set_file_mtime p cache ts ds F = (F', Inr ())"
    and setter: "mtime_setter set_file_mtime" and name: "writable_name p f"
  shows "same_except {resolve F p, resolve F (tmp_file p)} F F'"
    and "nodes F' (resolve F (tmp_file p)) = None"
    and "\<exists>c m. nodes F' (resolve F p) = Some (File c m)"
proof -
  let ?l = "resolve F p"
  obtain k F1 where create: "fs_create F (tmp_file p) = Inr (k, F1)"
    using run by (auto simp: delta_writer_def split: sum.splits prod.splits)
  obtain F2 r where loop: "writer_loop cache k ds F1 = (F2, r)" by (cases "writer_loop cache k ds F1")
  note pre = writer_prefix_same[OF create loop]
  have res: "resolve F2 q = resolve F q" for q using same_except_resolve[OF pre(1)] .
  obtain F3 where rename: "fs_rename F2 (tmp_file p) p = Inr F3"
    and F': "F' = (case set_file_mtime F3 p (file_time ts) of Inl _ \<Rightarrow> F3 | Inr F4 \<Rightarrow> F4)"
    using run create loop by (auto simp: delta_writer_def split: sum.splits)
  obtain c m where F3: "F3 = put_file ?l c m (F2\<lparr>nodes := (nodes F2)(k := None)\<rparr>)"
    using rename by (auto simp: fs_rename_Inr res pre(2))
  have kl: "k \<noteq> ?l" using tmp_file_elsewhere[OF name] pre(2) by simp
  have "\<exists>m. F' = put_file ?l c m F3"
  proof (cases "set_file_mtime F3 p (file_time ts)")
    case (Inl e)
    then show ?thesis by (intro exI[of _ m]) (simp add: F' F3)
  next
    case (Inr F4)
    then show ?thesis
      using mtime_setter.set_mtime_Inr[OF setter Inr] by (auto simp: F' F3 res)
  qed
  then obtain m' where F'': "F' = put_file ?l c m' F3" by blast
  show "nodes F' (resolve F (tmp_file p)) = None" "\<exists>c m. nodes F' ?l = Some (File c m)"
    using kl pre(2) by (simp_all add: F'' F3)
  show "same_except {?l, resolve F (tmp_file p)} F F'"
    using pre(1,2) by (auto simp: F'' F3 same_except_def)
qed

subsection \<open>Pieces that lie one after the other\<close>

definition piece_delta :: "nat \<times> Instruction \<Rightarrow> Delta" where
  "piece_delta d = \<lparr>delta_index = word_of_nat (fst d), instruction = Some (snd d)\<rparr>"

definition indices_ok :: "BlockCache \<Rightarrow> (nat \<times> Instruction) list \<Rightarrow> bool" where
  "indices_ok cache ps \<longleftrightarrow> (\<forall>(pos, x) \<in> set ps. case x of BlockIndex j \<Rightarrow> unat j < length cache | Literal _ \<Rightarrow> True)"

lemma unat_word_of_nat_64: "n < 2 ^ 63 \<Longrightarrow> unat (word_of_nat n :: u64) = n"
  by (simp add: unsigned_of_nat take_bit_nat_eq_self)

lemma writer_step_piece:
  assumes "nodes F k = Some (File c m)" "length c < 2 ^ 63"
    and "\<forall>j. x = BlockIndex j \<longrightarrow> unat j < length cache"
  shows "writer_step cache k (piece_delta (length c, x)) F =
    Inr (put_file k (c @ instr_bytes cache x) (clock F) F)"
  using assms
  by (auto simp: writer_step_Inr piece_delta_def unat_word_of_nat_64 write_at_end)

lemma writer_loop_pieces:
  assumes "nodes F k = Some (File c m)" "contiguous cache (length c) ps" "indices_ok cache ps"
    and "length c + length (pieces_bytes cache ps) < 2 ^ 63"
  shows "\<exists>m'. writer_loop cache k (map piece_delta ps) F = (put_file k (c @ pieces_bytes cache ps) m' F, Inr ())"
  using assms
proof (induction ps arbitrary: F c m)
  case Nil
  then show ?case by (auto intro!: exI[of _ m] simp: put_file_same)
next
  case (Cons d ps)
  obtain x where d: "d = (length c, x)" using Cons.prems(2) by (cases d) auto
  let ?F = "put_file k (c @ instr_bytes cache x) (clock F) F"
  have step: "writer_step cache k (piece_delta d) F = Inr ?F"
    unfolding d using Cons.prems by (intro writer_step_piece) (auto simp: indices_ok_def d)
  have "\<exists>m'. writer_loop cache k (map piece_delta ps) ?F =
      (put_file k ((c @ instr_bytes cache x) @ pieces_bytes cache ps) m' ?F, Inr ())"
    using Cons.prems by (intro Cons.IH) (auto simp: d indices_ok_def)
  then show ?case by (simp add: step[unfolded d] d)
qed

text \<open>A run of the task on the pieces of a file.\<close>

definition can_replace :: "file_system \<Rightarrow> PathBuf \<Rightarrow> bool" where
  "can_replace F p \<longleftrightarrow> is_dir F (butlast (resolve F p)) \<and>
     \<not> is_dir F (resolve F p) \<and> \<not> is_dir F (resolve F (tmp_file p)) \<and>
     fault F (resolve F p) = None \<and> fault F (resolve F (tmp_file p)) = None"

lemma butlast_resolve_tmp:
  "writable_name p f \<Longrightarrow> butlast (resolve F (tmp_file p)) = butlast (resolve F p)"
  using resolve_tmp_file[of p f F] by simp

lemma delta_writer_pieces:
  assumes setter: "mtime_setter set_file_mtime" and name: "writable_name p f" and can: "can_replace F p"
    and ps: "contiguous cache 0 ps" "indices_ok cache ps" "length (pieces_bytes cache ps) < 2 ^ 63"
  shows "\<exists>F' m. delta_writer set_file_mtime p cache ts (map piece_delta ps) F = (F', Inr ()) \<and>
    nodes F' (resolve F p) = Some (File (pieces_bytes cache ps) m) \<and> nodes F' (resolve F (tmp_file p)) = None \<and>
    same_except {resolve F p, resolve F (tmp_file p)} F F'"
proof -
  let ?k = "resolve F (tmp_file p)" and ?l = "resolve F p"
  let ?data = "pieces_bytes cache ps"
  let ?F1 = "put_file ?k [] (clock F) F"
  have kl: "?k \<noteq> ?l" using tmp_file_elsewhere[OF name] .
  have create: "fs_create F (tmp_file p) = Inr (?k, ?F1)"
    using can by (simp add: fs_create_Inr can_replace_def butlast_resolve_tmp[OF name])
  obtain m1 where loop: "writer_loop cache ?k (map piece_delta ps) ?F1 = (put_file ?k ?data m1 ?F1, Inr ())"
    using writer_loop_pieces[of ?F1 ?k "[]" "clock F" cache ps] ps by auto
  let ?F2 = "put_file ?k ?data m1 F"
  have k: "\<not> is_dir F ?k" using can by (simp add: can_replace_def)
  let ?F3 = "put_file ?l ?data m1 (?F2\<lparr>nodes := (nodes ?F2)(?k := None)\<rparr>)"
  have rename: "fs_rename ?F2 (tmp_file p) p = Inr ?F3"
    using can kl k by (simp add: fs_rename_Inr can_replace_def is_dir_put_file)
  define F4 where "F4 = (case set_file_mtime ?F3 p (file_time ts) of Inl _ \<Rightarrow> ?F3 | Inr F' \<Rightarrow> F')"
  have "\<exists>m. F4 = put_file ?l ?data m ?F3"
  proof (cases "set_file_mtime ?F3 p (file_time ts)")
    case (Inl e)
    then show ?thesis by (intro exI[of _ m1]) (simp add: F4_def)
  next
    case (Inr F')
    then show ?thesis using mtime_setter.set_mtime_Inr[OF setter Inr] by (auto simp: F4_def)
  qed
  then obtain m where F4: "F4 = put_file ?l ?data m ?F3" by blast
  have "delta_writer set_file_mtime p cache ts (map piece_delta ps) F = (F4, Inr ())"
    using create loop rename by (simp add: delta_writer_def F4_def)
  moreover have "nodes F4 ?l = Some (File ?data m)" "nodes F4 ?k = None" using kl by (simp_all add: F4)
  moreover have "same_except {?l, ?k} F F4" by (simp add: F4 same_except_def)
  ultimately show ?thesis by blast
qed

text \<open>The deltas among the messages of a stream, in order.\<close>

definition deltas_of :: "SyncRequest list \<Rightarrow> Delta list" where
  "deltas_of ms = concat (map (\<lambda>m. case payload m of Some (DeltaP d) \<Rightarrow> [d] | _ \<Rightarrow> []) ms)"

lemma deltas_of_stream: "deltas_of (map delta_message ps @ [request (Complete True)]) = map piece_delta ps"
  by (induction ps) (simp_all add: deltas_of_def delta_message_def delta_request_def request_def piece_delta_def)

lemma contents_File: "nodes F (resolve F p) = Some (File c m) \<Longrightarrow> contents F p = Some c"
  by (simp add: contents_def)

text \<open>A stream of deltas, sent over an open channel and applied by the writer.\<close>

lemma deltas_for_indices:
  assumes "0 < unat bs" "strong_separates blake3 (unat bs) old new" "length (chunks (unat bs) old) \<le> 2 ^ 32"
  shows "indices_ok (chunks (unat bs) old) (deltas_for blake3 bs old new)"
  using deltas_for_index[OF assms] by (auto simp: indices_ok_def split: Instruction.split)

lemma transfer_pieces:
  assumes "fs_read G src = Inr new" "length new < 2 ^ 63"
    and bs: "0 < unat bs" "unat bs \<le> isize_max"
    and sep: "strong_separates blake3 (unat bs) old new" and few: "length (chunks (unat bs) old) \<le> 2 ^ 32"
    and writer: "mtime_setter set_file_mtime" "writable_name q f" "can_replace R q"
  shows "\<exists>c R' m. send_delta_from_block_signatures G blake3 channel_send src (signed blake3 bs old) new_channel
      = Some (c, Inr ()) \<and>
    delta_writer set_file_mtime q (chunks (unat bs) old) ts (deltas_of (accepted c)) R = (R', Inr ()) \<and>
    nodes R' (resolve R q) = Some (File new m) \<and> nodes R' (resolve R (tmp_file q)) = None \<and>
    same_except {resolve R q, resolve R (tmp_file q)} R R'"
proof -
  let ?ps = "deltas_for blake3 bs old new" and ?cache = "chunks (unat bs) old"
  let ?c = "new_channel\<lparr>accepted := map delta_message ?ps @ [request (Complete True)]\<rparr>"
  have bytes: "pieces_bytes ?cache ?ps = new" "contiguous ?cache 0 ?ps"
    using deltas_for_bytes[OF bs(1) sep few] by simp_all
  have "send_delta_from_block_signatures G blake3 channel_send src (signed blake3 bs old) new_channel = Some (?c, Inr ())"
    using send_delta_signed[OF assms(1) bs, of blake3 channel_send old new_channel]
    by (simp add: channel_send_all_open new_channel_def)
  moreover have "deltas_of (accepted ?c) = map piece_delta ?ps" by (simp add: deltas_of_stream)
  moreover have "length (pieces_bytes ?cache ?ps) < 2 ^ 63" using assms(2) by (simp add: bytes)
  note delta_writer_pieces[OF writer bytes(2) deltas_for_indices[OF bs(1) sep few] this, of ts]
  ultimately show ?thesis unfolding bytes(1) by (intro exI[of _ ?c]) simp
qed

subsection \<open>Properties\<close>

text \<open>C3: A transfer from end to end.  The receiver signs its old version of a file, the sender
  computes and sends the deltas for its own version over an open channel, and the writer applies
  the deltas the receiver gets: the target then has exactly the sender's bytes, the temporary
  file is gone and nothing else changed.  Assumed: the strong hash tells the old blocks from the
  new windows, at most $2^{32}$ blocks, a file size a signed offset can hold, and a target the
  system lets the writer replace.\<close>

theorem transfer_delivers_file:
  assumes signed: "generate_blocks_signatures R clean blake3 p root bs = Inr (sig, cache)"
    and path: "get_absolute_path clean p root = Inr q"
    and new: "fs_read G src = Inr new" "length new < 2 ^ 63"
    and distinguished: "\<forall>c \<in> set cache. \<forall>i. i + unat bs \<le> length new \<longrightarrow>
        blake3 c = blake3 (slice_at new i (unat bs)) \<longrightarrow> c = slice_at new i (unat bs)"
    and small: "length cache \<le> 2 ^ 32"
    and writer: "mtime_setter set_file_mtime" "writable_name q f" "can_replace R q"
  shows "\<exists>c R'. send_delta_from_block_signatures G blake3 channel_send src sig new_channel = Some (c, Inr ()) \<and>
    delta_writer set_file_mtime q cache ts (deltas_of (accepted c)) R = (R', Inr ()) \<and>
    contents R' q = Some new \<and> contents R' (tmp_file q) = None \<and>
    same_except {resolve R q, resolve R (tmp_file q)} R R'"
proof -
  obtain old where bs: "0 < unat bs" "unat bs \<le> isize_max"
    and sig: "sig = signed blake3 bs old" and cache: "cache = chunks (unat bs) old"
    using generate_blocks_signatures_InrD[OF signed] by blast
  have sep: "strong_separates blake3 (unat bs) old new"
    using distinguished by (simp add: strong_separates_def cache)
  from transfer_pieces[OF new bs sep small[unfolded cache] writer] show ?thesis
    unfolding sig cache by (fastforce simp: contents_def same_except_resolve)
qed

text \<open>A file system with a directory and one file in it, for concrete instances.\<close>

definition example_tree :: "(string \<rightharpoonup> byte list) \<Rightarrow> file_system" where
  "example_tree files = \<lparr>nodes = (\<lambda>k. case k of
       [d] \<Rightarrow> if d = ''srv'' then Some Dir else None
     | [d, f] \<Rightarrow> if d = ''srv'' then map_option (\<lambda>c. File c \<lparr>mt_secs = 0, mt_nanos = 0\<rparr>) (files f) else None
     | _ \<Rightarrow> None), cwd = [], fault = (\<lambda>_. None), clock = \<lparr>mt_secs = 9, mt_nanos = 0\<rparr>\<rparr>"

lemma resolve_example_tree: "resolve (example_tree files) p = foldl resolve_step [] (components p)"
  by (simp add: resolve_def example_tree_def)

lemma example_paths:
  "resolve (example_tree files) ''/srv/f'' = [''srv'', ''f'']"
  "resolve (example_tree files) ''/srv/f.tmp'' = [''srv'', ''f.tmp'']"
  "tmp_file ''/srv/f'' = ''/srv/f.tmp''"
  "get_absolute_path lexical_clean ''f'' ''/srv'' = Inr ''/srv/f''"
  "writable_name ''/srv/f'' ''f''"
proof -
  show "resolve (example_tree files) ''/srv/f'' = [''srv'', ''f'']"
    unfolding resolve_example_tree by code_simp
  show "resolve (example_tree files) ''/srv/f.tmp'' = [''srv'', ''f.tmp'']"
    unfolding resolve_example_tree by code_simp
  show "tmp_file ''/srv/f'' = ''/srv/f.tmp''" "get_absolute_path lexical_clean ''f'' ''/srv'' = Inr ''/srv/f''"
    by code_simp+
  have "last_segment ''/srv/f'' = Some ''f''" "extension ''/srv/f'' = None" by code_simp+
  then show "writable_name ''/srv/f'' ''f''" by (simp add: writable_name_def)
qed

lemma example_read: "files ''f'' = Some c \<Longrightarrow> fs_read (example_tree files) ''/srv/f'' = Inr c"
  by (simp add: fs_read_Inr example_paths) (simp add: example_tree_def is_dir_def)

lemma example_can_replace: "can_replace (example_tree files) ''/srv/f''"
  unfolding can_replace_def example_paths
  by (cases "files ''f''"; cases "files ''f.tmp''") (simp_all add: example_tree_def is_dir_def)

theorem transfer_delivers_file_witness:
  "\<exists>c R'. send_delta_from_block_signatures (example_tree [''f'' \<mapsto> [1, 2, 9, 3]]) example_hash channel_send ''/srv/f''
      (signed example_hash 2 [1, 2, 3]) new_channel = Some (c, Inr ()) \<and>
    delta_writer utimens ''/srv/f'' (chunks 2 [1, 2, 3]) timestamp_default (deltas_of (accepted c))
      (example_tree [''f'' \<mapsto> [1, 2, 3]]) = (R', Inr ()) \<and>
    contents R' ''/srv/f'' = Some [1, 2, 9, 3]"
proof -
  let ?R = "example_tree [''f'' \<mapsto> [1, 2, 3]]" and ?G = "example_tree [''f'' \<mapsto> [1, 2, 9, 3]]"
  have "generate_blocks_signatures ?R lexical_clean example_hash ''f'' ''/srv'' 2 =
      Inr (signed example_hash 2 [1, 2, 3], chunks 2 [1, 2, 3])"
    unfolding signed_def
    by (subst generate_blocks_signatures_ok[OF example_paths(4) example_read]) (simp_all add: isize_max_def)
  moreover have "strong_separates example_hash 2 [1, 2, 3] [1, 2, 9, 3]"
    by (rule strong_separates_example) simp
  moreover have "length (chunks 2 [1, 2, 3 :: byte]) \<le> 2 ^ 32" by (simp add: chunks.simps)
  moreover have "fs_read ?G ''/srv/f'' = Inr [1, 2, 9, 3]" by (rule example_read) simp
  ultimately show ?thesis
    using transfer_delivers_file[OF _ example_paths(4) _ _ _ _ utimens.mtime_setter_axioms example_paths(5)
        example_can_replace, of "[''f'' \<mapsto> [1, 2, 3]]" example_hash 2 "signed example_hash 2 [1, 2, 3]"
        "chunks 2 [1, 2, 3]" ?G "''/srv/f''" "[1, 2, 9, 3]" timestamp_default]
    by (simp add: strong_separates_def) blast
qed

text \<open>C26: A write that fails never damages the target: whatever deltas arrive and wherever the
  run stops (a bad offset, a delta with no instruction, an index that panics, a failing rename),
  every path except the temporary file has the contents it had.\<close>

theorem failed_write_keeps_target:
  assumes "delta_writer set_file_mtime p cache ts ds F = (F', Inl e)" and "writable_name p f"
  shows "contents F' p = contents F p \<and>
    (\<forall>q. resolve F q = resolve F (tmp_file p) \<or> contents F' q = contents F q)"
  using same_except_contents[OF delta_writer_failed_same[OF assms(1)]] tmp_file_elsewhere[OF assms(2), of F]
  by fastforce

theorem failed_write_keeps_target_witness:
  "contents (fst (delta_writer utimens ''/srv/f'' [] timestamp_default
      [\<lparr>delta_index = 0, instruction = Some (Literal [5])\<rparr>, \<lparr>delta_index = 1, instruction = Some (BlockIndex 0)\<rparr>]
      (example_tree [''f'' \<mapsto> [1, 2, 3]]))) ''/srv/f'' = Some [1, 2, 3]"
proof -
  let ?F = "example_tree [''f'' \<mapsto> [1, 2, 3]]" and ?tmp = "[''srv'', ''f.tmp'']"
  let ?ds = "[\<lparr>delta_index = 0, instruction = Some (Literal [5])\<rparr>,
    \<lparr>delta_index = 1, instruction = Some (BlockIndex 0)\<rparr>] :: Delta list"
  have "fs_create ?F (tmp_file ''/srv/f'') = Inr (?tmp, put_file ?tmp [] (clock ?F) ?F)"
    by (simp add: fs_create_Inr example_paths) (simp add: example_tree_def is_dir_def)
  then obtain F' where run: "delta_writer utimens ''/srv/f'' [] timestamp_default ?ds ?F = (F', Inl Panic)"
    by (simp add: delta_writer_def writer_step_def fs_seek_def fs_write_all_def)
  have "contents ?F ''/srv/f'' = Some [1, 2, 3]"
    by (simp add: contents_def example_paths) (simp add: example_tree_def)
  then show ?thesis using failed_write_keeps_target[OF run example_paths(5)] run by simp
qed

text \<open>C40: The writer never creates a directory: a file planned into a directory the receiver
  does not have yet cannot be written, whatever is sent, and the run changes nothing.\<close>

theorem write_needs_parent_directory:
  assumes "writable_name p f" "\<not> is_dir F (butlast (resolve F p))" "nodes F (resolve F (tmp_file p)) = None"
  shows "\<exists>e. delta_writer set_file_mtime p cache ts ds F = (F, Inl (Err (Io e)))"
proof -
  let ?k = "resolve F (tmp_file p)"
  have "?k \<noteq> []" using resolve_tmp_file[OF assms(1), of F] by auto
  then have "\<not> is_dir F ?k" using assms(3) by (simp add: is_dir_def)
  moreover have "\<not> is_dir F (butlast ?k)" using assms(2) butlast_resolve_tmp[OF assms(1)] by simp
  ultimately obtain e where "fs_create F (tmp_file p) = Inl e"
    by (cases "fault F ?k") (auto simp: fs_create_def)
  then show ?thesis by (simp add: delta_writer_def)
qed

theorem write_needs_parent_directory_witness:
  "\<exists>e. delta_writer utimens ''/new/f'' [] timestamp_default [] (example_tree Map.empty) =
     (example_tree Map.empty, Inl (Err (Io e)))"
proof -
  have name: "writable_name ''/new/f'' ''f''"
  proof -
    have "last_segment ''/new/f'' = Some ''f''" "extension ''/new/f'' = None" by code_simp+
    then show ?thesis by (simp add: writable_name_def)
  qed
  have target: "resolve (example_tree Map.empty) ''/new/f'' = [''new'', ''f'']"
    unfolding resolve_example_tree by code_simp
  have "resolve (example_tree Map.empty) (tmp_file ''/new/f'') = [''new'', ''f.tmp'']"
    using resolve_tmp_file[OF name, of "example_tree Map.empty"] target by simp
  with target show ?thesis
    by (intro write_needs_parent_directory[OF name]) (simp_all add: example_tree_def is_dir_def)
qed

text \<open>The temporary name is not checked: a file of the user that has it is overwritten and
  gone once the target has been written.\<close>

theorem write_destroys_file_with_tmp_name:
  assumes "delta_writer set_file_mtime p cache ts ds F = (F', Inr ())"
    and "mtime_setter set_file_mtime" "writable_name p f"
  shows "contents F' (tmp_file p) = None \<and> (\<exists>c. contents F' p = Some c)"
  using delta_writer_done[OF assms] same_except_resolve[of _ F F'] by (auto simp: contents_def)

theorem write_destroys_file_with_tmp_name_witness:
  "\<exists>F'. contents (example_tree [''f.tmp'' \<mapsto> [7, 7]]) ''/srv/f.tmp'' = Some [7, 7] \<and>
     delta_writer utimens ''/srv/f'' [] timestamp_default [] (example_tree [''f.tmp'' \<mapsto> [7, 7]]) = (F', Inr ()) \<and>
     contents F' ''/srv/f.tmp'' = None"
proof -
  let ?F = "example_tree [''f.tmp'' \<mapsto> [7, 7]]"
  obtain F' where run: "delta_writer utimens ''/srv/f'' [] timestamp_default [] ?F = (F', Inr ())"
    using delta_writer_pieces[OF utimens.mtime_setter_axioms example_paths(5) example_can_replace,
        of "[]" "[]" timestamp_default "[''f.tmp'' \<mapsto> [7, 7]]"]
    by (auto simp: indices_ok_def)
  moreover have "contents ?F ''/srv/f.tmp'' = Some [7, 7]"
    by (simp add: contents_def example_paths) (simp add: example_tree_def)
  ultimately show ?thesis
    using write_destroys_file_with_tmp_name[OF run utimens.mtime_setter_axioms example_paths(5)]
    by (auto simp: example_paths)
qed

end
