(* ===== verification/Btree_Map.thy ===== *)
theory Btree_Map
  imports Path_Buf
begin

section \<open>Ordered maps\<close>

text \<open>
  \<open>BTreeMap\<close> and \<open>BTreeSet\<close> as the standard library documents and builds
  them: a list of entries in strictly ascending order of their keys.  Keys are compared
  through \<open>key\<close> (for a path, its components), so two keys can be equal and still
  differ as bytes: \<open>insert\<close> then keeps the old key, while \<open>from_iter\<close>,
  which sorts stably and drops all but the last of equal keys, keeps the last one.
\<close>

subsection \<open>Operations\<close>

fun bt_get :: "('p \<Rightarrow> 'k) \<Rightarrow> 'p \<Rightarrow> ('p \<times> 'v) list \<Rightarrow> 'v option" where
  "bt_get key k [] = None"
| "bt_get key k ((p, v) # t) = (if key p = key k then Some v else bt_get key k t)"

fun bt_insert ::
    "('p \<Rightarrow> 'k::linorder) \<Rightarrow> 'p \<Rightarrow> 'v \<Rightarrow> ('p \<times> 'v) list \<Rightarrow> ('p \<times> 'v) list" where
  "bt_insert key k v [] = [(k, v)]"
| "bt_insert key k v ((p, w) # t) =
     (if key k < key p then (k, v) # (p, w) # t
      else if key k = key p then (p, v) # t
      else (p, w) # bt_insert key k v t)"

text \<open>\<open>DedupSortedIter\<close>: of equal neighbours only the last one passes.\<close>

fun dedup_sorted :: "('p \<Rightarrow> 'k) \<Rightarrow> ('p \<times> 'v) list \<Rightarrow> ('p \<times> 'v) list" where
  "dedup_sorted key (x # y # zs) =
     (if key (fst x) = key (fst y) then dedup_sorted key (y # zs)
      else x # dedup_sorted key (y # zs))"
| "dedup_sorted key xs = xs"

definition bt_from_iter ::
    "('p \<Rightarrow> 'k::linorder) \<Rightarrow> ('p \<times> 'v) list \<Rightarrow> ('p \<times> 'v) list" where
  "bt_from_iter key xs = dedup_sorted key (sort_key (\<lambda>x. key (fst x)) xs)"

definition bt_keys :: "('p \<times> 'v) list \<Rightarrow> 'p list" where
  "bt_keys t = map fst t"

definition bset_from_iter :: "('p \<Rightarrow> 'k::linorder) \<Rightarrow> 'p list \<Rightarrow> 'p list" where
  "bset_from_iter key ps = bt_keys (bt_from_iter key (map (\<lambda>p. (p, ())) ps))"

definition bt_inv :: "('p \<Rightarrow> 'k::linorder) \<Rightarrow> ('p \<times> 'v) list \<Rightarrow> bool" where
  "bt_inv key t \<longleftrightarrow> sorted_wrt (<) (map (\<lambda>x. key (fst x)) t)"

definition bt_abs :: "('p \<Rightarrow> 'k) \<Rightarrow> ('p \<times> 'v) list \<Rightarrow> ('k \<rightharpoonup> 'v)" where
  "bt_abs key t = map_of (map (\<lambda>(p, v). (key p, v)) t)"

subsection \<open>Their laws\<close>

lemma bt_abs_Nil [simp]: "bt_abs key [] = Map.empty"
  by (simp add: bt_abs_def)

lemma bt_abs_Cons [simp]: "bt_abs key ((p, v) # t) = (bt_abs key t)(key p \<mapsto> v)"
  by (simp add: bt_abs_def)

lemma bt_get_abs: "bt_get key k t = bt_abs key t (key k)"
  by (induction key k t rule: bt_get.induct) simp_all

lemma dom_bt_abs: "dom (bt_abs key t) = key ` set (bt_keys t)"
  by (force simp: bt_abs_def dom_map_of_conv_image_fst bt_keys_def)

lemma bt_inv_Nil [simp]: "bt_inv key []"
  by (simp add: bt_inv_def)

lemma bt_inv_Cons [simp]:
  "bt_inv key (x # t) \<longleftrightarrow> (\<forall>y \<in> set t. key (fst x) < key (fst y)) \<and> bt_inv key t"
  by (simp add: bt_inv_def)

lemma bt_insert_keys: "key ` fst ` set (bt_insert key k v t) = insert (key k) (key ` fst ` set t)"
  by (induction key k v t rule: bt_insert.induct) (auto simp: image_iff)

lemma bt_insert_inv: "bt_inv key t \<Longrightarrow> bt_inv key (bt_insert key k v t)"
proof (induction key k v t rule: bt_insert.induct)
  case (2 key k v p w t)
  show ?case
  proof (cases "key k < key p \<or> key k = key p")
    case True
    then show ?thesis using "2.prems" by auto
  next
    case False
    then have "key p < key k" by (auto simp: not_less order_le_less)
    moreover have "\<forall>y \<in> set (bt_insert key k v t). key (fst y) \<in> insert (key k) (key ` fst ` set t)"
      using bt_insert_keys[of key k v t] by blast
    ultimately have "\<forall>y \<in> set (bt_insert key k v t). key p < key (fst y)"
      using "2.prems" by fastforce
    then show ?thesis using False 2 by auto
  qed
qed simp

lemma bt_insert_abs: "bt_inv key t \<Longrightarrow> bt_abs key (bt_insert key k v t) = (bt_abs key t)(key k \<mapsto> v)"
  by (induction key k v t rule: bt_insert.induct) (auto simp: fun_upd_twist)

lemma set_dedup_sorted: "set (dedup_sorted key xs) \<subseteq> set xs"
  by (induction key xs rule: dedup_sorted.induct) auto

lemma dedup_sorted_keys: "(\<lambda>x. key (fst x)) ` set (dedup_sorted key xs) = (\<lambda>x. key (fst x)) ` set xs"
  by (induction key xs rule: dedup_sorted.induct) auto

lemma dedup_sorted_inv:
  "sorted (map (\<lambda>x. key (fst x)) xs) \<Longrightarrow> bt_inv key (dedup_sorted key (xs :: ('p \<times> 'v) list))"
proof (induction key xs rule: dedup_sorted.induct)
  case (1 key x y zs)
  then have sorted: "sorted (map (\<lambda>x. key (fst x)) (y # zs))" by simp
  show ?case
  proof (cases "key (fst x) = key (fst y)")
    case True
    then show ?thesis using 1 sorted by simp
  next
    case False
    then have "key (fst x) < key (fst z)" if "z \<in> set (dedup_sorted key (y # zs))" for z
    proof -
      have "z \<in> set (y # zs)" using that set_dedup_sorted[of key "y # zs"] by blast
      then have "key (fst y) \<le> key (fst z)" using sorted by auto
      moreover have "key (fst x) < key (fst y)" using 1 False by auto
      ultimately show ?thesis by simp
    qed
    then show ?thesis using 1 sorted False by simp
  qed
qed simp_all

text \<open>Of a sorted list, each key keeps its last value.\<close>

lemma bt_abs_dedup_sorted:
  "sorted (map (\<lambda>x. key (fst x)) xs) \<Longrightarrow>
     bt_abs key (dedup_sorted key xs) = map_of (rev (map (\<lambda>(p, v). (key p, v)) xs))"
proof (induction key xs rule: dedup_sorted.induct)
  case (1 key x y zs)
  let ?r = "map_of (rev (map (\<lambda>(p, v). (key p, v)) (y # zs)))"
  have IH: "bt_abs key (dedup_sorted key (y # zs)) = ?r"
    using 1 by (cases "key (fst x) = key (fst y)") simp_all
  obtain p v where x: "x = (p, v)" by (cases x)
  obtain q w where y: "y = (q, w)" by (cases y)
  have app: "map_of (rev (map (\<lambda>(p, v). (key p, v)) (x # y # zs))) = [key p \<mapsto> v] ++ ?r"
    by (simp add: x)
  show ?case
  proof (cases "key p = key q")
    case True
    then have "key p \<in> dom ?r" by (auto simp: y dom_map_of_conv_image_fst image_iff)
    then have "[key p \<mapsto> v] ++ ?r = ?r" by (intro ext) (auto simp: map_add_def split: option.splits)
    then show ?thesis using True IH app by (simp add: x y)
  next
    case False
    have "key p \<noteq> key (fst z)" if "z \<in> set (y # zs)" for z
    proof -
      have "key (fst y) \<le> key (fst z)" and "key p \<le> key (fst y)" using 1 that by (auto simp: x)
      then show ?thesis using False by (auto simp: y)
    qed
    then have "key p \<notin> (\<lambda>z. key (fst z)) ` set (y # zs)" by blast
    moreover have "dom ?r = (\<lambda>z. key (fst z)) ` set (y # zs)"
      unfolding dom_map_of_conv_image_fst set_rev set_map image_image by (intro image_cong) auto
    ultimately have "key p \<notin> dom ?r" by simp
    then have "[key p \<mapsto> v] ++ ?r = ?r(key p \<mapsto> v)"
      by (intro ext) (auto simp: map_add_def split: option.splits)
    then show ?thesis using False IH app by (simp add: x y)
  qed
qed (auto split: prod.splits)

lemma map_of_rev_filter:
  "map_of (rev xs) k = map_of (rev (filter (\<lambda>x. fst x = k) xs)) k"
  by (induction xs) (auto simp: map_add_def split: option.splits)

text \<open>A stable sort keeps the order of the entries of one key, so the last one stays last.\<close>

lemma map_of_rev_sort_key:
  "map_of (rev (map (\<lambda>(p, v). (key p, v)) (sort_key (\<lambda>x. key (fst x)) xs))) =
   map_of (rev (map (\<lambda>(p, v). (key p, v)) xs))"
proof
  fix k
  have "filter (\<lambda>x. fst x = k) (map (\<lambda>(p, v). (key p, v)) (sort_key (\<lambda>x. key (fst x)) xs)) =
        filter (\<lambda>x. fst x = k) (map (\<lambda>(p, v). (key p, v)) xs)"
  proof -
    have "filter (\<lambda>x. key (fst x) = k) (sort_key (\<lambda>x. key (fst x)) xs) =
          filter (\<lambda>x. key (fst x) = k) xs"
      using sort_key_stable[of "\<lambda>x. key (fst x)" k xs] by (simp add: eq_commute)
    then show ?thesis by (simp add: filter_map o_def case_prod_beta)
  qed
  then show "map_of (rev (map (\<lambda>(p, v). (key p, v)) (sort_key (\<lambda>x. key (fst x)) xs))) k =
      map_of (rev (map (\<lambda>(p, v). (key p, v)) xs)) k"
    by (metis map_of_rev_filter)
qed

lemma bt_from_iter_inv: "bt_inv key (bt_from_iter key xs)"
  by (simp add: bt_from_iter_def dedup_sorted_inv)

lemma bt_from_iter_abs:
  "bt_abs key (bt_from_iter key xs) = map_of (rev (map (\<lambda>(p, v). (key p, v)) xs))"
  by (simp add: bt_from_iter_def bt_abs_dedup_sorted map_of_rev_sort_key)

lemma set_bt_from_iter: "set (bt_from_iter key xs) \<subseteq> set xs"
  unfolding bt_from_iter_def using set_dedup_sorted[of key] by (metis set_sort)

lemma bt_from_iter_keys: "key ` set (bt_keys (bt_from_iter key xs)) = key ` fst ` set xs"
  using dedup_sorted_keys[of key "sort_key (\<lambda>x. key (fst x)) xs"]
  by (simp add: bt_keys_def bt_from_iter_def image_image)


lemma bset_from_iter_keys: "key ` set (bset_from_iter key ps) = key ` set ps"
  by (simp add: bset_from_iter_def bt_from_iter_keys image_image)

lemma bset_from_iter_sorted: "sorted_wrt (<) (map key (bset_from_iter key ps))"
  using bt_from_iter_inv[of key "map (\<lambda>p. (p, ())) ps"]
  by (simp add: bset_from_iter_def bt_keys_def bt_inv_def o_def)

lemma set_bset_from_iter: "set (bset_from_iter key ps) \<subseteq> set ps"
  using set_bt_from_iter[of key "map (\<lambda>p. (p, ())) ps"]
  by (auto simp: bset_from_iter_def bt_keys_def)

subsection \<open>The interface the comparison of two states uses\<close>

text \<open>
  Looking up and listing keys, as far as equal keys are concerned: \<open>denote t\<close> is the
  finite map that the tree stands for.
\<close>

locale ordered_map =
  fixes key :: "'p \<Rightarrow> 'k::linorder"
    and lookup :: "'p \<Rightarrow> 'm \<Rightarrow> 'v option"
    and keys :: "'m \<Rightarrow> 'p list"
    and denote :: "'m \<Rightarrow> 'k \<rightharpoonup> 'v"
  assumes lookup_denote: "lookup p t = denote t (key p)"
    and keys_denote: "key ` set (keys t) = dom (denote t)"
begin

lemma lookup_cong: "key p = key q \<Longrightarrow> lookup p t = lookup q t"
  by (simp add: lookup_denote)

lemma lookup_keys: "p \<in> set (keys t) \<Longrightarrow> \<exists>v. lookup p t = Some v"
  using keys_denote[of t] by (auto simp: lookup_denote)

end

text \<open>Two maps and the set of the keys of both.\<close>

locale map_pair =
  l: ordered_map key lookup_l keys_l denote_l + r: ordered_map key lookup_r keys_r denote_r
  for key :: "'p \<Rightarrow> 'k::linorder"
    and lookup_l :: "'p \<Rightarrow> 'm \<Rightarrow> 'v option" and keys_l :: "'m \<Rightarrow> 'p list"
    and denote_l :: "'m \<Rightarrow> 'k \<rightharpoonup> 'v"
    and lookup_r :: "'p \<Rightarrow> 'n \<Rightarrow> 'w option" and keys_r :: "'n \<Rightarrow> 'p list"
    and denote_r :: "'n \<Rightarrow> 'k \<rightharpoonup> 'w" +
  fixes key_set :: "'p list \<Rightarrow> 'p list"
  assumes key_set_sorted: "sorted_wrt (<) (map key (key_set ps))"
    and key_set_keys: "key ` set (key_set ps) = key ` set ps"
begin

lemma all_keys: "key ` set (key_set (keys_l s @ keys_r t)) = dom (denote_l s) \<union> dom (denote_r t)"
  by (simp add: key_set_keys image_Un l.keys_denote r.keys_denote)

lemma some_side:
  "p \<in> set (key_set (keys_l s @ keys_r t)) \<Longrightarrow> lookup_l p s \<noteq> None \<or> lookup_r p t \<noteq> None"
  using all_keys[of s t] by (auto simp: l.lookup_denote r.lookup_denote)

lemma key_set_inj: "inj_on key (set (key_set ps))"
proof -
  have "distinct (map key (key_set ps))"
    using key_set_sorted[of ps] strict_sorted_iff by blast
  then show ?thesis by (simp add: distinct_map)
qed

lemma key_set_distinct: "distinct (map key (key_set ps))"
  using key_set_sorted[of ps] strict_sorted_iff by blast

end

interpretation tree: ordered_map key "bt_get key" bt_keys "bt_abs key" for key :: "'p \<Rightarrow> 'k::linorder"
  by unfold_locales (simp_all add: bt_get_abs dom_bt_abs)

interpretation trees: map_pair key "bt_get key" bt_keys "bt_abs key"
    "bt_get key" bt_keys "bt_abs key" "bset_from_iter key" for key :: "'p \<Rightarrow> 'k::linorder"
  by unfold_locales (rule bset_from_iter_sorted bset_from_iter_keys)+

text \<open>The trees of the program are keyed by the components of a path.\<close>

type_synonym 'v path_map = "(PathBuf \<times> 'v) list"

abbreviation path_get :: "PathBuf \<Rightarrow> 'v path_map \<Rightarrow> 'v option" where
  "path_get \<equiv> bt_get components"

abbreviation path_insert :: "PathBuf \<Rightarrow> 'v \<Rightarrow> 'v path_map \<Rightarrow> 'v path_map" where
  "path_insert \<equiv> bt_insert components"

abbreviation path_set :: "PathBuf list \<Rightarrow> PathBuf list" where
  "path_set \<equiv> bset_from_iter components"

end
