(* ===== verification/Sync_State.thy ===== *)
theory Sync_State
  imports Btree_Map Wire_Types File_System
begin

section \<open>The state of a directory and the sync plan\<close>

text \<open>
  Models src/sync/state.rs: the metadata of a file, the state of a directory, the
  difference of two states (\<open>compare_states\<close>) that a client sends, and the plan the
  server makes from it (\<open>generate_sync_plan\<close>).  Reading a directory and the
  state file are in State_Files.
\<close>

subsection \<open>Data\<close>

record FileMetadata =
  fm_hash :: "byte list"
  fm_modified_ts :: Timestamp

record SyncState =
  last_sync_timestamp_micros :: i64
  tree :: "FileMetadata path_map"

datatype ChangeType = Added | Removed | Modified

record Diff =
  diff_path :: PathBuf
  change :: ChangeType
  diff_hash :: "byte list"
  diff_modified_ts :: Timestamp

text \<open>\<open>impl TryFrom<Diff> for FileStatus\<close>\<close>

definition file_status_of_diff :: "Diff \<Rightarrow> FileStatus outcome" where
  "file_status_of_diff d =
     and_then (ok_or StringInvalid (to_str (diff_path d)))
       (\<lambda>p. Inr \<lparr>fs_path = p, fs_timestamp = Some (diff_modified_ts d),
                 fs_file_type = file_type_i32 Other, fs_hash = diff_hash d\<rparr>)"

subsection \<open>Time stamps\<close>

definition proto_timestamp_gt :: "Timestamp \<Rightarrow> Timestamp \<Rightarrow> bool" where
  "proto_timestamp_gt a b \<longleftrightarrow>
     sint (ts_seconds b) < sint (ts_seconds a) \<or>
     ts_seconds a = ts_seconds b \<and> sint (ts_nanos b) < sint (ts_nanos a)"

subsection \<open>Comparing two states\<close>

text \<open>One round of the loop: what is pushed for a path (at most one difference).\<close>

definition compare_path ::
    "SyncState \<Rightarrow> SyncState \<Rightarrow> PathBuf \<Rightarrow> Diff list outcome" where
  "compare_path before_state now_state path =
     (case (path_get path (tree now_state), path_get path (tree before_state)) of
        (Some now_meta, Some before_meta) \<Rightarrow>
          if fm_hash now_meta \<noteq> fm_hash before_meta then
            (let (hs, mts) =
               (if proto_timestamp_gt (fm_modified_ts now_meta) (fm_modified_ts before_meta)
                then (fm_hash now_meta, fm_modified_ts now_meta)
                else (fm_hash before_meta, fm_modified_ts before_meta))
             in Inr [\<lparr>diff_path = path, change = Modified, diff_hash = hs, diff_modified_ts = mts\<rparr>])
          else Inr []
      | (Some meta, None) \<Rightarrow>
          Inr [\<lparr>diff_path = path, change = Added,
                diff_hash = fm_hash meta, diff_modified_ts = fm_modified_ts meta\<rparr>]
      | (None, Some meta) \<Rightarrow>
          Inr [\<lparr>diff_path = path, change = Removed,
                diff_hash = fm_hash meta, diff_modified_ts = fm_modified_ts meta\<rparr>]
      | (None, None) \<Rightarrow> Inl Panic)"

text \<open>A loop that pushes the results of its rounds, and stops at the first failure.\<close>

fun collect_each :: "('p \<Rightarrow> 'd list outcome) \<Rightarrow> 'p list \<Rightarrow> 'd list outcome" where
  "collect_each f [] = Inr []"
| "collect_each f (p # ps) =
     and_then (f p) (\<lambda>d. and_then (collect_each f ps) (\<lambda>ds. Inr (d @ ds)))"

definition compare_states :: "SyncState \<Rightarrow> SyncState \<Rightarrow> Diff list outcome" where
  "compare_states before_state now_state =
     collect_each (compare_path before_state now_state)
       (path_set (filter (\<lambda>p. \<not> has_hidden_components p)
          (bt_keys (tree before_state) @ bt_keys (tree now_state))))"

definition file_status_vec_to_tree :: "FileStatus list \<Rightarrow> byte list path_map" where
  "file_status_vec_to_tree v = fold (\<lambda>f t. path_insert (fs_path f) (fs_hash f) t) v []"

subsection \<open>The sync plan\<close>

definition remote_tree_of :: "FileStatus list \<Rightarrow> FileStatus path_map" where
  "remote_tree_of remote_files = bt_from_iter components (map (\<lambda>r. (fs_path r, r)) remote_files)"

text \<open>The direction of a file and the time stamp that goes with it.\<close>

definition unwrap_or_default :: "Timestamp option \<Rightarrow> Timestamp" where
  "unwrap_or_default t = (case t of None \<Rightarrow> timestamp_default | Some t \<Rightarrow> t)"

fun plan_direction ::
    "FileMetadata option \<Rightarrow> FileStatus option \<Rightarrow> (TransferDirection \<times> Timestamp) outcome" where
  "plan_direction (Some local_file) (Some remote_file) =
     (if fs_hash remote_file \<noteq> fm_hash local_file then
        (let remote_file_timestamp = unwrap_or_default (fs_timestamp remote_file) in
         if proto_timestamp_gt (fm_modified_ts local_file) remote_file_timestamp
         then Inr (Download, fm_modified_ts local_file)
         else if proto_timestamp_gt remote_file_timestamp (fm_modified_ts local_file)
         then Inr (Upload, remote_file_timestamp)
         else Inr (Skip, fm_modified_ts local_file))
      else Inr (Skip, timestamp_default))"
| "plan_direction (Some local_file) None = Inr (Download, fm_modified_ts local_file)"
| "plan_direction None (Some remote_file) =
     Inr (Upload, unwrap_or_default (fs_timestamp remote_file))"
| "plan_direction None None = Inl Panic"

definition plan_path ::
    "SyncState \<Rightarrow> FileStatus path_map \<Rightarrow> PathBuf \<Rightarrow> FileAction list outcome" where
  "plan_path state_now remote_tree path =
     and_then (plan_direction (path_get path (tree state_now)) (path_get path remote_tree))
       (\<lambda>(direction, latest_timestamp).
     and_then (ok_or StringInvalid (to_str path)) (\<lambda>path_str.
     Inr [\<lparr>fa_path = path_str, fa_direction = direction_i32 direction,
           fa_timestamp_latest_modified = Some latest_timestamp\<rparr>]))"

definition generate_sync_plan :: "SyncState \<Rightarrow> FileStatus list \<Rightarrow> FileAction list outcome" where
  "generate_sync_plan state_now remote_files =
     (let remote_tree = remote_tree_of remote_files in
      collect_each (plan_path state_now remote_tree)
        (path_set (bt_keys (tree state_now) @ bt_keys remote_tree)))"


subsection \<open>Loops over the union of two maps\<close>

lemma collect_each_Inr:
  "(\<And>p. p \<in> set ps \<Longrightarrow> f p = Inr (g p)) \<Longrightarrow> collect_each f ps = Inr (concat (map g ps))"
  by (induction ps) auto

lemma collect_each_Inl:
  "collect_each f ps = Inl e \<Longrightarrow> \<exists>p \<in> set ps. f p = Inl e"
  by (induction ps) (auto simp: and_then_Inl_iff)

lemma collect_each_Inl_iff:
  "(\<exists>e. collect_each f ps = Inl e) \<longleftrightarrow> (\<exists>p \<in> set ps. \<exists>e. f p = Inl e)"
proof (induction ps)
  case Nil
  then show ?case by simp
next
  case (Cons p ps)
  show ?case
  proof (cases "f p")
    case (Inl e)
    then show ?thesis by simp
  next
    case (Inr d)
    then show ?thesis using Cons.IH by (simp add: and_then_Inl_iff)
  qed
qed

text \<open>
  \<open>at_most_one\<close>: every round pushes nothing, or one result with the key of the round.
  Then the results have the keys of the rounds that pushed, in the same order.
\<close>

definition at_most_one :: "('p \<Rightarrow> 'k) \<Rightarrow> ('d \<Rightarrow> 'k) \<Rightarrow> ('p \<Rightarrow> 'd list) \<Rightarrow> 'p list \<Rightarrow> bool" where
  "at_most_one key dkey g ps \<longleftrightarrow> (\<forall>p \<in> set ps. g p = [] \<or> (\<exists>d. g p = [d] \<and> dkey d = key p))"

lemma at_most_one_sorted:
  assumes "sorted_wrt (<) (map key ps)" and "at_most_one key dkey g ps"
  shows "sorted_wrt (<) (map dkey (concat (map g ps)))"
proof -
  have "sorted_wrt (<) (map dkey (concat (map g qs)))" if "set qs \<subseteq> set ps" "sorted_wrt (<) (map key qs)" for qs
    using that
  proof (induction qs)
    case Nil
    then show ?case by simp
  next
    case (Cons q qs)
    have "dkey d \<in> key ` set qs" if "d \<in> set (concat (map g qs))" for d
      using that assms(2) Cons.prems(1) by (fastforce simp: at_most_one_def)
    moreover have "\<forall>k \<in> key ` set qs. key q < k" using Cons.prems(2) by auto
    moreover have "g q = [] \<or> (\<exists>d. g q = [d] \<and> dkey d = key q)"
      using assms(2) Cons.prems(1) by (simp add: at_most_one_def)
    ultimately have "g q = [] \<or> (\<exists>d. g q = [d] \<and> (\<forall>d' \<in> set (concat (map g qs)). dkey d < dkey d'))"
      by metis
    moreover have "sorted_wrt (<) (map dkey (concat (map g qs)))" using Cons by simp
    ultimately show ?case by auto
  qed
  then show ?thesis using assms(1) by blast
qed

lemma at_most_one_mem:
  assumes "at_most_one key dkey g ps"
  shows "d \<in> set (concat (map g ps)) \<longleftrightarrow> (\<exists>p \<in> set ps. g p = [d])"
proof
  assume "d \<in> set (concat (map g ps))"
  then obtain p where "p \<in> set ps" and "d \<in> set (g p)" by auto
  moreover from \<open>p \<in> set ps\<close> have "g p = [] \<or> (\<exists>d. g p = [d])"
    using assms by (auto simp: at_most_one_def)
  ultimately show "\<exists>p \<in> set ps. g p = [d]" by force
qed force

text \<open>Read as a map, the results are the entries of the keys that were visited.\<close>

lemma map_of_rounds:
  assumes "\<And>p. p \<in> set ps \<Longrightarrow>
      map entry (g p) = (case e (key p) of None \<Rightarrow> [] | Some x \<Rightarrow> [(key p, x)])"
  shows "map_of (map entry (concat (map g ps))) c = (if c \<in> key ` set ps then e c else None)"
  using assms
proof (induction ps)
  case Nil
  then show ?case by simp
next
  case (Cons p ps)
  then have "map_of (map entry (concat (map g ps))) c = (if c \<in> key ` set ps then e c else None)"
    by simp
  moreover have "map entry (g p) = (case e (key p) of None \<Rightarrow> [] | Some x \<Rightarrow> [(key p, x)])"
    using Cons.prems by simp
  ultimately show ?case by (auto simp: map_add_def split: option.splits)
qed

text \<open>Whether a path is hidden depends on its components only.\<close>

definition hidden_key :: "component list \<Rightarrow> bool" where
  "hidden_key c \<longleftrightarrow> list_ex hidden_component c"

lemma has_hidden_components_key: "has_hidden_components p \<longleftrightarrow> hidden_key (components p)"
  by (simp add: has_hidden_components_def hidden_key_def)

subsection \<open>Time stamps\<close>

lemma proto_timestamp_gt_irrefl [plan_simps]: "\<not> proto_timestamp_gt a a"
  by (simp add: proto_timestamp_gt_def)

lemma proto_timestamp_gt_asym: "proto_timestamp_gt a b \<Longrightarrow> \<not> proto_timestamp_gt b a"
  by (auto simp: proto_timestamp_gt_def)

lemma proto_timestamp_gt_total: "a \<noteq> b \<Longrightarrow> proto_timestamp_gt a b \<or> proto_timestamp_gt b a"
proof -
  assume "a \<noteq> b"
  then have "ts_seconds a \<noteq> ts_seconds b \<or> ts_nanos a \<noteq> ts_nanos b"
    using Timestamp.equality[of a b] by auto
  then have "sint (ts_seconds a) \<noteq> sint (ts_seconds b) \<or>
      ts_seconds a = ts_seconds b \<and> sint (ts_nanos a) \<noteq> sint (ts_nanos b)"
    by (metis signed_word_eqI)
  then show ?thesis by (auto simp: proto_timestamp_gt_def)
qed

lemma proto_timestamp_gt_eqI: "\<not> proto_timestamp_gt a b \<Longrightarrow> \<not> proto_timestamp_gt b a \<Longrightarrow> a = b"
  using proto_timestamp_gt_total by blast

text \<open>The comparison of time stamps is a strict linear order on (seconds, nanoseconds) read
  as signed numbers, so of two different time stamps exactly one is newer.\<close>

theorem proto_timestamp_gt_strict_linear:
  "(\<not> proto_timestamp_gt a a) \<and>
   (proto_timestamp_gt a b \<and> proto_timestamp_gt b c \<longrightarrow> proto_timestamp_gt a c) \<and>
   (a \<noteq> b \<longrightarrow> proto_timestamp_gt a b \<noteq> proto_timestamp_gt b a)"
  using proto_timestamp_gt_total[of a b] proto_timestamp_gt_asym[of a b]
  by (auto simp: proto_timestamp_gt_def)

theorem proto_timestamp_gt_strict_linear_witness:
  "proto_timestamp_gt \<lparr>ts_seconds = 2, ts_nanos = 0\<rparr> \<lparr>ts_seconds = - 1, ts_nanos = 5\<rparr>"
proof -
  let ?a = "\<lparr>ts_seconds = 2, ts_nanos = 0\<rparr>" and ?b = "\<lparr>ts_seconds = 1, ts_nanos = 9\<rparr>"
  let ?c = "\<lparr>ts_seconds = - 1, ts_nanos = 5\<rparr>"
  have "proto_timestamp_gt ?a ?b" and "proto_timestamp_gt ?b ?c"
    by (simp_all add: proto_timestamp_gt_def)
  then show ?thesis using proto_timestamp_gt_strict_linear[of ?a ?b ?c] by blast
qed


subsection \<open>Comparing two states\<close>

text \<open>
  The contract of \<open>compare_states\<close> on finite maps from components to metadata: a
  change of the hash is a modification, reported with the newer of the two versions.
\<close>

type_synonym change_entry = "ChangeType \<times> byte list \<times> Timestamp"

fun change_of :: "FileMetadata option \<Rightarrow> FileMetadata option \<Rightarrow> change_entry option" where
  "change_of (Some n) (Some b) =
     (if fm_hash n = fm_hash b then None
      else let m = (if proto_timestamp_gt (fm_modified_ts n) (fm_modified_ts b) then n else b)
           in Some (Modified, fm_hash m, fm_modified_ts m))"
| "change_of (Some n) None = Some (Added, fm_hash n, fm_modified_ts n)"
| "change_of None (Some b) = Some (Removed, fm_hash b, fm_modified_ts b)"
| "change_of None None = None"

definition state_map :: "SyncState \<Rightarrow> component list \<Rightarrow> FileMetadata option" where
  "state_map s = bt_abs components (tree s)"

definition diff_map :: "Diff list \<Rightarrow> component list \<Rightarrow> change_entry option" where
  "diff_map ds = map_of (map (\<lambda>d. (components (diff_path d), (change d, diff_hash d, diff_modified_ts d))) ds)"

definition diff_entry :: "PathBuf \<Rightarrow> change_entry option \<Rightarrow> Diff list" where
  "diff_entry p e = (case e of None \<Rightarrow> []
     | Some (k, h, t) \<Rightarrow> [\<lparr>diff_path = p, change = k, diff_hash = h, diff_modified_ts = t\<rparr>])"

lemma path_get_state_map: "path_get p (tree s) = state_map s (components p)"
  by (simp add: state_map_def bt_get_abs)

lemma compare_path_eq:
  assumes "state_map before (components p) \<noteq> None \<or> state_map now (components p) \<noteq> None"
  shows "compare_path before now p =
     Inr (diff_entry p (change_of (state_map now (components p)) (state_map before (components p))))"
  using assms
  by (auto simp: compare_path_def path_get_state_map diff_entry_def Let_def
      split: option.splits)

lemma diff_entry_at_most_one:
  "at_most_one components (\<lambda>d. components (diff_path d)) (\<lambda>p. diff_entry p (e p)) ps"
  by (auto simp: at_most_one_def diff_entry_def split: option.splits)

definition changed_paths :: "SyncState \<Rightarrow> SyncState \<Rightarrow> PathBuf list" where
  "changed_paths before now =
     path_set (filter (\<lambda>p. \<not> has_hidden_components p) (bt_keys (tree before) @ bt_keys (tree now)))"

lemma changed_paths_keys:
  "components ` set (changed_paths before now) =
     {c \<in> dom (state_map before) \<union> dom (state_map now). \<not> hidden_key c}"
  by (auto simp: changed_paths_def bset_from_iter_keys state_map_def dom_bt_abs has_hidden_components_key)

lemma changed_paths_ex:
  assumes "c \<in> dom (state_map before) \<union> dom (state_map now)" and "\<not> hidden_key c"
  shows "\<exists>p. p \<in> set (changed_paths before now) \<and> components p = c"
proof -
  have "c \<in> components ` set (changed_paths before now)"
    using assms by (simp add: changed_paths_keys)
  then show ?thesis by auto
qed

lemma changed_paths_some:
  "p \<in> set (changed_paths before now) \<Longrightarrow>
     state_map before (components p) \<noteq> None \<or> state_map now (components p) \<noteq> None"
  using changed_paths_keys[of before now] by blast

lemma changed_paths_sorted: "sorted_wrt (<) (map components (changed_paths before now))"
  by (simp add: changed_paths_def bset_from_iter_sorted)

lemma compare_states_eq:
  "compare_states before now =
     Inr (concat (map (\<lambda>p. diff_entry p (change_of (state_map now (components p))
                                                    (state_map before (components p))))
                      (changed_paths before now)))"
  unfolding compare_states_def changed_paths_def [symmetric]
  by (rule collect_each_Inr) (rule compare_path_eq, rule changed_paths_some)

lemma diff_entry_single:
  "diff_entry p e = [d] \<longleftrightarrow> e = Some (change d, diff_hash d, diff_modified_ts d) \<and> diff_path d = p"
  by (auto simp: diff_entry_def split: option.splits)

lemma compare_states_mem:
  assumes "compare_states before now = Inr ds"
  shows "d \<in> set ds \<longleftrightarrow> diff_path d \<in> set (changed_paths before now) \<and>
     change_of (state_map now (components (diff_path d))) (state_map before (components (diff_path d)))
       = Some (change d, diff_hash d, diff_modified_ts d)"
proof -
  have ds: "ds = concat (map (\<lambda>p. diff_entry p (change_of (state_map now (components p))
      (state_map before (components p)))) (changed_paths before now))"
    using assms by (simp add: compare_states_eq)
  show ?thesis
    unfolding ds
    by (subst at_most_one_mem[OF diff_entry_at_most_one]) (auto simp: diff_entry_single)
qed

lemma compare_states_sorted:
  "compare_states before now = Inr ds \<Longrightarrow> sorted_wrt (<) (map (\<lambda>d. components (diff_path d)) ds)"
  using at_most_one_sorted[OF changed_paths_sorted diff_entry_at_most_one]
  by (auto simp: compare_states_eq)

lemma change_of_None_iff: "change_of n b \<noteq> None \<Longrightarrow> n \<noteq> None \<or> b \<noteq> None"
  by (cases n; cases b) auto

lemma compare_states_diff_map:
  assumes "compare_states before now = Inr ds"
  shows "diff_map ds c = (if hidden_key c then None else change_of (state_map now c) (state_map before c))"
proof -
  let ?e = "\<lambda>c. change_of (state_map now c) (state_map before c)"
  have "diff_map ds c = (if c \<in> components ` set (changed_paths before now) then ?e c else None)"
    using assms unfolding diff_map_def compare_states_eq sum.inject
    by (elim subst, intro map_of_rounds) (auto simp: diff_entry_def split: option.splits)
  then show ?thesis
    using change_of_None_iff[of "state_map now c" "state_map before c"]
    by (auto simp: changed_paths_keys)
qed

text \<open>C21: Comparing two states never reaches its \<open>unreachable!\<close>, reports each path once in
  ascending order, and as a map from paths to changes it is exactly the abstract difference:
  hidden paths never, and every other path by the presence and the hash of its two versions.\<close>

theorem compare_states_refines:
  "\<exists>ds. compare_states before now = Inr ds \<and>
     sorted_wrt (<) (map (\<lambda>d. components (diff_path d)) ds) \<and>
     diff_map ds = (\<lambda>c. if hidden_key c then None else change_of (state_map now c) (state_map before c))"
proof -
  obtain ds where ds: "compare_states before now = Inr ds" by (simp add: compare_states_eq)
  with compare_states_sorted[OF ds] compare_states_diff_map[OF ds] show ?thesis by auto
qed


text \<open>The difference is empty exactly when no visible path was added, removed or changed its
  hash; time stamps alone make no difference.\<close>

theorem compare_states_empty_iff:
  "compare_states before now = Inr [] \<longleftrightarrow>
     (\<forall>c. \<not> hidden_key c \<longrightarrow>
        map_option fm_hash (state_map now c) = map_option fm_hash (state_map before c))"
proof -
  have none: "change_of n b = None \<longleftrightarrow> map_option fm_hash n = map_option fm_hash b" for n b
    by (cases n; cases b) (auto simp: Let_def)
  obtain ds where ds: "compare_states before now = Inr ds" by (simp add: compare_states_eq)
  have "ds = [] \<longleftrightarrow> (\<forall>c. diff_map ds c = None)"
    by (auto simp: diff_map_def map_of_eq_None_iff)
  with ds show ?thesis
    using compare_states_diff_map[OF ds] none by (auto split: if_splits)
qed

theorem compare_states_empty_iff_witness:
  "\<not> hidden_key [Normal ''a''] \<and>
   map_option fm_hash (state_map \<lparr>last_sync_timestamp_micros = 0, tree = []\<rparr> [Normal ''a'']) =
   map_option fm_hash (state_map \<lparr>last_sync_timestamp_micros = 9, tree = []\<rparr> [Normal ''a''])"
proof -
  have "compare_states \<lparr>last_sync_timestamp_micros = 9, tree = []\<rparr> \<lparr>last_sync_timestamp_micros = 0, tree = []\<rparr> = Inr []"
    by code_simp
  moreover have "\<not> hidden_key [Normal ''a'']" by (simp add: hidden_key_def) code_simp
  ultimately show ?thesis using compare_states_empty_iff by blast
qed

subsection \<open>The sync plan\<close>

text \<open>
  The contract of \<open>generate_sync_plan\<close> on finite maps: what the plan says of a path,
  given the server's and the client's version of it.
\<close>

definition remote_map :: "FileStatus list \<Rightarrow> component list \<Rightarrow> FileStatus option" where
  "remote_map files = map_of (rev (map (\<lambda>r. (components (fs_path r), r)) files))"

fun decide :: "FileMetadata option \<Rightarrow> FileStatus option \<Rightarrow> (TransferDirection \<times> Timestamp) option" where
  "decide None None = None"
| "decide (Some l) None = Some (Download, fm_modified_ts l)"
| "decide None (Some r) = Some (Upload, unwrap_or_default (fs_timestamp r))"
| "decide (Some l) (Some r) =
     (let t = unwrap_or_default (fs_timestamp r) in
      if fs_hash r = fm_hash l then Some (Skip, timestamp_default)
      else if proto_timestamp_gt (fm_modified_ts l) t then Some (Download, fm_modified_ts l)
      else if proto_timestamp_gt t (fm_modified_ts l) then Some (Upload, t)
      else Some (Skip, fm_modified_ts l))"

definition plan_map :: "FileAction list \<Rightarrow> component list \<Rightarrow> (i32 \<times> Timestamp option) option" where
  "plan_map plan =
     map_of (map (\<lambda>a. (components (fa_path a), (fa_direction a, fa_timestamp_latest_modified a))) plan)"

definition plan_entry :: "PathBuf \<Rightarrow> (TransferDirection \<times> Timestamp) option \<Rightarrow> FileAction list" where
  "plan_entry p e = (case e of None \<Rightarrow> []
     | Some (d, t) \<Rightarrow> [\<lparr>fa_path = p, fa_direction = direction_i32 d,
                       fa_timestamp_latest_modified = Some t\<rparr>])"

definition planned_paths :: "SyncState \<Rightarrow> FileStatus list \<Rightarrow> PathBuf list" where
  "planned_paths s files = path_set (bt_keys (tree s) @ bt_keys (remote_tree_of files))"

lemma path_get_remote_map: "path_get p (remote_tree_of files) = remote_map files (components p)"
  by (simp add: bt_get_abs remote_tree_of_def bt_from_iter_abs remote_map_def o_def)

lemma dom_remote_map: "dom (remote_map files) = (\<lambda>r. components (fs_path r)) ` set files"
  by (auto simp: remote_map_def dom_map_of_conv_image_fst image_image)

lemma planned_paths_keys:
  "components ` set (planned_paths s files) = dom (state_map s) \<union> dom (remote_map files)"
proof -
  have "dom (remote_map files) = components ` set (bt_keys (remote_tree_of files))"
    by (simp add: dom_remote_map remote_tree_of_def bt_from_iter_keys image_image)
  then show ?thesis
    by (simp add: planned_paths_def bset_from_iter_keys image_Un state_map_def dom_bt_abs)
qed

lemma planned_paths_from:
  "p \<in> set (planned_paths s files) \<Longrightarrow> p \<in> set (bt_keys (tree s)) \<or> p \<in> fs_path ` set files"
proof -
  assume "p \<in> set (planned_paths s files)"
  then have "p \<in> set (bt_keys (tree s) @ bt_keys (remote_tree_of files))"
    unfolding planned_paths_def by (rule subsetD[OF set_bset_from_iter])
  moreover have "set (bt_keys (remote_tree_of files)) \<subseteq> fs_path ` set files"
    unfolding remote_tree_of_def bt_keys_def set_map
    using image_mono[OF set_bt_from_iter[of components "map (\<lambda>r. (fs_path r, r)) files"], of fst]
    by (simp add: image_image)
  ultimately show ?thesis by auto
qed

lemma plan_direction_eq:
  "l \<noteq> None \<or> r \<noteq> None \<Longrightarrow> plan_direction l r = Inr (the (decide l r))"
  by (cases l; cases r) (auto simp: Let_def)

lemma decide_Some_iff: "(\<exists>e. decide l r = Some e) \<longleftrightarrow> l \<noteq> None \<or> r \<noteq> None"
  by (cases l; cases r) (auto simp: Let_def)

lemma planned_decide:
  assumes "p \<in> set (planned_paths s files)"
  shows "\<exists>d t. decide (state_map s (components p)) (remote_map files (components p)) = Some (d, t)"
proof -
  have "components p \<in> dom (state_map s) \<union> dom (remote_map files)"
    using assms planned_paths_keys by blast
  then have "\<exists>e. decide (state_map s (components p)) (remote_map files (components p)) = Some e"
    by (subst decide_Some_iff) auto
  then show ?thesis by simp
qed

lemma plan_path_eq:
  assumes "p \<in> set (planned_paths s files)"
  shows "plan_path s (remote_tree_of files) p =
     (if utf8_valid p
      then Inr (plan_entry p (decide (state_map s (components p)) (remote_map files (components p))))
      else Inl (Err StringInvalid))"
proof -
  obtain d t where dt: "decide (state_map s (components p)) (remote_map files (components p)) = Some (d, t)"
    using planned_decide[OF assms] by blast
  then have "state_map s (components p) \<noteq> None \<or> remote_map files (components p) \<noteq> None"
    using decide_Some_iff by blast
  then show ?thesis
    using dt by (simp add: plan_path_def path_get_state_map path_get_remote_map plan_direction_eq
        plan_entry_def to_str_def)
qed

lemma generate_sync_plan_paths:
  "generate_sync_plan s files =
     collect_each (plan_path s (remote_tree_of files)) (planned_paths s files)"
  by (simp add: generate_sync_plan_def planned_paths_def Let_def)

lemma generate_sync_plan_eq:
  assumes "\<forall>p \<in> set (planned_paths s files). utf8_valid p"
  shows "generate_sync_plan s files =
     Inr (concat (map (\<lambda>p. plan_entry p (decide (state_map s (components p)) (remote_map files (components p))))
                      (planned_paths s files)))"
  unfolding generate_sync_plan_paths
  by (rule collect_each_Inr) (use assms in \<open>simp add: plan_path_eq\<close>)

lemma generate_sync_plan_utf8:
  assumes "generate_sync_plan s files = Inr plan"
  shows "\<forall>p \<in> set (planned_paths s files). utf8_valid p"
proof (rule ccontr)
  assume "\<not> ?thesis"
  then have "\<exists>p \<in> set (planned_paths s files). \<exists>e. plan_path s (remote_tree_of files) p = Inl e"
    by (auto simp: plan_path_eq)
  then have "\<exists>e. generate_sync_plan s files = Inl e"
    unfolding generate_sync_plan_paths by (simp add: collect_each_Inl_iff)
  with assms show False by simp
qed

lemma plan_entry_at_most_one:
  "at_most_one components (\<lambda>a. components (fa_path a)) (\<lambda>p. plan_entry p (e p)) ps"
  by (auto simp: at_most_one_def plan_entry_def split: option.splits)

lemma generate_sync_plan_map:
  assumes "generate_sync_plan s files = Inr plan"
  shows "plan_map plan c =
     map_option (\<lambda>(d, t). (direction_i32 d, Some t)) (decide (state_map s c) (remote_map files c))"
proof -
  let ?e = "\<lambda>c. map_option (\<lambda>(d, t). (direction_i32 d, Some t)) (decide (state_map s c) (remote_map files c))"
  note eq = generate_sync_plan_eq[OF generate_sync_plan_utf8[OF assms]]
  have "plan_map plan c = (if c \<in> components ` set (planned_paths s files) then ?e c else None)"
    using assms unfolding plan_map_def eq sum.inject
    by (elim subst, intro map_of_rounds) (auto simp: plan_entry_def split: option.splits)
  moreover have "c \<notin> components ` set (planned_paths s files) \<Longrightarrow> ?e c = None"
    unfolding planned_paths_keys by (auto simp: domIff)
  ultimately show ?thesis by simp
qed

lemma generate_sync_plan_sorted:
  assumes "generate_sync_plan s files = Inr plan"
  shows "sorted_wrt (<) (map (\<lambda>a. components (fa_path a)) plan)"
proof -
  have "sorted_wrt (<) (map components (planned_paths s files))"
    by (simp add: planned_paths_def bset_from_iter_sorted)
  from at_most_one_sorted[OF this plan_entry_at_most_one] show ?thesis
    using assms generate_sync_plan_eq[OF generate_sync_plan_utf8[OF assms]] by auto
qed

lemma plan_mem_map:
  assumes "generate_sync_plan s files = Inr plan" and "a \<in> set plan"
  shows "plan_map plan (components (fa_path a)) = Some (fa_direction a, fa_timestamp_latest_modified a)"
proof -
  have "distinct (map (\<lambda>a. components (fa_path a)) plan)"
    using generate_sync_plan_sorted[OF assms(1)] strict_sorted_iff by blast
  then show ?thesis
    using assms(2) by (auto simp: plan_map_def o_def intro!: map_of_is_SomeI)
qed

lemma plan_mem_decide:
  assumes "generate_sync_plan s files = Inr plan" and "a \<in> set plan"
  shows "\<exists>d t. decide (state_map s (components (fa_path a))) (remote_map files (components (fa_path a)))
      = Some (d, t) \<and> fa_direction a = direction_i32 d \<and> fa_timestamp_latest_modified a = Some t"
  using plan_mem_map[OF assms] generate_sync_plan_map[OF assms(1), of "components (fa_path a)"] by auto


text \<open>C20: On paths that are UTF-8 the server always produces a plan; the plan lists every path of
  either side once, in ascending order, and as a map from paths to (direction, time stamp) it is
  exactly the abstract decision on the server's tree and the client's list (of entries for the
  same path, the last one).\<close>

theorem generate_sync_plan_refines:
  assumes "\<forall>p \<in> set (bt_keys (tree s)). utf8_valid p" and "\<forall>r \<in> set files. utf8_valid (fs_path r)"
  shows "\<exists>plan. generate_sync_plan s files = Inr plan \<and>
     sorted_wrt (<) (map (\<lambda>a. components (fa_path a)) plan) \<and>
     plan_map plan = (\<lambda>c. map_option (\<lambda>(d, t). (direction_i32 d, Some t))
                            (decide (state_map s c) (remote_map files c)))"
proof -
  have "\<forall>p \<in> set (planned_paths s files). utf8_valid p"
    using assms planned_paths_from by fastforce
  then obtain plan where plan: "generate_sync_plan s files = Inr plan"
    using generate_sync_plan_eq by blast
  with generate_sync_plan_sorted[OF plan] generate_sync_plan_map[OF plan] show ?thesis by auto
qed

definition example_meta :: "byte \<Rightarrow> i64 \<Rightarrow> FileMetadata" where
  "example_meta h t = \<lparr>fm_hash = [h], fm_modified_ts = \<lparr>ts_seconds = t, ts_nanos = 0\<rparr>\<rparr>"

definition example_status :: "string \<Rightarrow> byte \<Rightarrow> i64 \<Rightarrow> FileStatus" where
  "example_status p h t = \<lparr>fs_path = p, fs_timestamp = Some \<lparr>ts_seconds = t, ts_nanos = 0\<rparr>,
     fs_file_type = 0, fs_hash = [h]\<rparr>"

definition example_server :: SyncState where
  "example_server = \<lparr>last_sync_timestamp_micros = 0,
     tree = [(''a'', example_meta 1 2000), (''b'', example_meta 7 5)]\<rparr>"

theorem generate_sync_plan_refines_witness:
  "\<exists>plan. generate_sync_plan example_server [example_status ''a'' 2 1000, example_status ''c'' 3 9] = Inr plan \<and>
     plan_map plan [Normal ''a''] = Some (1, Some \<lparr>ts_seconds = 2000, ts_nanos = 0\<rparr>)"
proof -
  have "\<forall>p \<in> set (bt_keys (tree example_server)). utf8_valid p"
    and "\<forall>r \<in> set [example_status ''a'' 2 1000, example_status ''c'' 3 9]. utf8_valid (fs_path r)"
    by code_simp+
  from generate_sync_plan_refines[OF this] obtain plan where
    "generate_sync_plan example_server [example_status ''a'' 2 1000, example_status ''c'' 3 9] = Inr plan"
    "plan_map plan [Normal ''a''] = map_option (\<lambda>(d, t). (direction_i32 d, Some t))
       (decide (state_map example_server [Normal ''a''])
         (remote_map [example_status ''a'' 2 1000, example_status ''c'' 3 9] [Normal ''a'']))"
    by metis
  moreover have "map_option (\<lambda>(d, t). (direction_i32 d, Some t))
       (decide (state_map example_server [Normal ''a''])
         (remote_map [example_status ''a'' 2 1000, example_status ''c'' 3 9] [Normal ''a''])) =
       Some (1, Some \<lparr>ts_seconds = 2000, ts_nanos = 0\<rparr>)"
    by code_simp
  ultimately show ?thesis by metis
qed

text \<open>A file travels from the side that has the newer version: Download only when the client
  lacks the file or has an older one, Upload only when the server does, and Skip only when both
  have it with the same hash or the same time stamp.  The time stamp sent along is that of the
  winning version.\<close>

theorem plan_prefers_newer:
  assumes "generate_sync_plan s files = Inr plan" and "a \<in> set plan"
    and "l = state_map s (components (fa_path a))" and "r = remote_map files (components (fa_path a))"
  shows "(fa_direction a = direction_i32 Download \<longleftrightarrow> (\<exists>m. l = Some m \<and>
            fa_timestamp_latest_modified a = Some (fm_modified_ts m) \<and>
            (r = None \<or> (\<exists>f. r = Some f \<and> fs_hash f \<noteq> fm_hash m \<and>
               proto_timestamp_gt (fm_modified_ts m) (unwrap_or_default (fs_timestamp f)))))) \<and>
         (fa_direction a = direction_i32 Upload \<longleftrightarrow> (\<exists>f. r = Some f \<and>
            fa_timestamp_latest_modified a = Some (unwrap_or_default (fs_timestamp f)) \<and>
            (l = None \<or> (\<exists>m. l = Some m \<and> fs_hash f \<noteq> fm_hash m \<and>
               proto_timestamp_gt (unwrap_or_default (fs_timestamp f)) (fm_modified_ts m))))) \<and>
         (fa_direction a = direction_i32 Skip \<longleftrightarrow> (\<exists>m f. l = Some m \<and> r = Some f \<and>
            (fs_hash f = fm_hash m \<or> fm_modified_ts m = unwrap_or_default (fs_timestamp f))))"
proof -
  obtain d t where dt: "decide l r = Some (d, t)" "fa_direction a = direction_i32 d"
      "fa_timestamp_latest_modified a = Some t"
    using plan_mem_decide[OF assms(1,2)] assms(3,4) by blast
  show ?thesis
    unfolding dt(2,3) direction_i32_inject using dt(1)
    by (cases l; cases r)
      (auto simp: Let_def proto_timestamp_gt_irrefl
        dest: proto_timestamp_gt_asym intro: proto_timestamp_gt_eqI split: if_splits)
qed

theorem plan_prefers_newer_witness:
  "\<exists>a. generate_sync_plan example_server [example_status ''a'' 2 1000, example_status ''b'' 7 5] =
      Inr [a, \<lparr>fa_path = ''b'', fa_direction = 0,
              fa_timestamp_latest_modified = Some timestamp_default\<rparr>] \<and>
     fa_direction a = direction_i32 Download"
proof -
  let ?a = "\<lparr>fa_path = ''a'', fa_direction = 1,
      fa_timestamp_latest_modified = Some \<lparr>ts_seconds = 2000, ts_nanos = 0\<rparr>\<rparr>"
  have plan: "generate_sync_plan example_server [example_status ''a'' 2 1000, example_status ''b'' 7 5] =
      Inr [?a, \<lparr>fa_path = ''b'', fa_direction = 0, fa_timestamp_latest_modified = Some timestamp_default\<rparr>]"
    by code_simp
  have l: "state_map example_server [Normal ''a''] = Some (example_meta 1 2000)" by code_simp
  have r: "remote_map [example_status ''a'' 2 1000, example_status ''b'' 7 5] [Normal ''a''] =
      Some (example_status ''a'' 2 1000)" by code_simp
  have c: "components ''a'' = [Normal ''a'']" by code_simp
  have gt: "proto_timestamp_gt (fm_modified_ts (example_meta 1 2000))
      (unwrap_or_default (fs_timestamp (example_status ''a'' 2 1000)))" by code_simp
  have "fa_direction ?a = direction_i32 Download"
    by (rule iffD2[OF conjunct1[OF plan_prefers_newer[OF plan]]])
      (auto simp: c l r gt, auto simp: example_meta_def example_status_def)
  with plan show ?thesis by blast
qed

text \<open>The only way for the server to fail at making a plan is a path that is not UTF-8; it
  never reaches its \<open>unreachable!\<close>.\<close>

theorem generate_sync_plan_fails_iff:
  "(generate_sync_plan s files = Inl e \<longrightarrow> e = Err StringInvalid) \<and>
   ((\<exists>e. generate_sync_plan s files = Inl e) \<longleftrightarrow>
      (\<exists>p \<in> set (planned_paths s files). \<not> utf8_valid p))"
proof
  show "generate_sync_plan s files = Inl e \<longrightarrow> e = Err StringInvalid"
    unfolding generate_sync_plan_paths
    by (auto dest!: collect_each_Inl simp: plan_path_eq split: if_splits)
  show "(\<exists>e. generate_sync_plan s files = Inl e) \<longleftrightarrow>
      (\<exists>p \<in> set (planned_paths s files). \<not> utf8_valid p)"
    unfolding generate_sync_plan_paths
    by (auto simp: collect_each_Inl_iff plan_path_eq split: if_splits)
qed

theorem generate_sync_plan_fails_iff_witness:
  "generate_sync_plan \<lparr>last_sync_timestamp_micros = 0, tree = [([CHR 0xFF], example_meta 1 1)]\<rparr> [] =
     Inl (Err StringInvalid)"
proof -
  let ?s = "\<lparr>last_sync_timestamp_micros = 0, tree = [([CHR 0xFF], example_meta 1 1)]\<rparr>"
  have "\<exists>p \<in> set (planned_paths ?s []). \<not> utf8_valid p" by code_simp
  then obtain e where "generate_sync_plan ?s [] = Inl e"
    using generate_sync_plan_fails_iff[of ?s "[]"] by blast
  moreover from this have "e = Err StringInvalid"
    using generate_sync_plan_fails_iff[of ?s "[]" e] by blast
  ultimately show ?thesis by simp
qed

end
