(* ===== verification/State_Files.thy ===== *)
theory State_Files
  imports Sync_State
begin

section \<open>Reading a directory, and the state file\<close>

text \<open>
  Models the rest of src/sync/state.rs: \<open>FileMetadata::new\<close> and
  \<open>generate_state\<close>, which read a directory, and \<open>save_state\<close>,
  \<open>load_state\<close> and the serde module \<open>timestamp_proto\<close>, which keep a state
  between two runs.

  Parameters, for code outside the repository: \<open>blake3\<close> (the crate's hash of a
  byte string), \<open>walkdir\<close> (the entries that the crate walkdir yields, \<open>None\<close> for
  an entry that is an error), \<open>now\<close> (chrono's clock, in microseconds), and the
  encoder and decoder of serde_json.
\<close>

subsection \<open>Time stamps in the state file\<close>

text \<open>Integer division of Rust, which rounds towards zero, and its remainder.\<close>

definition quot :: "int \<Rightarrow> int \<Rightarrow> int" where
  "quot a b = sgn a * (\<bar>a\<bar> div b)"

definition remr :: "int \<Rightarrow> int \<Rightarrow> int" where
  "remr a b = a - quot a b * b"

text \<open>The module \<open>timestamp_proto\<close>: what the state file keeps of a time stamp.\<close>

definition timestamp_serialize :: "Timestamp \<Rightarrow> i64" where
  "timestamp_serialize ts = ts_seconds ts * 1000000 + word_of_int (quot (sint (ts_nanos ts)) 1000)"

definition timestamp_deserialize :: "i64 \<Rightarrow> Timestamp" where
  "timestamp_deserialize micros =
     \<lparr>ts_seconds = word_of_int (quot (sint micros) 1000000),
      ts_nanos = word_of_int (remr (sint micros) 1000000 * 1000)\<rparr>"

subsection \<open>Reading the state of a directory\<close>

definition FileMetadata_new ::
    "file_system \<Rightarrow> (byte list \<Rightarrow> byte list) \<Rightarrow> PathBuf \<Rightarrow> FileMetadata outcome" where
  "FileMetadata_new F blake3 path =
     and_then (from_io (fs_read F path)) (\<lambda>file.
     and_then (from_io (fs_modified F path)) (\<lambda>modified.
     if mt_secs modified < 0 then Inl (Err SystemTime)
     else Inr \<lparr>fm_hash = blake3 file,
               fm_modified_ts = \<lparr>ts_seconds = word_of_int (mt_secs modified),
                                  ts_nanos = word_of_nat (mt_nanos modified)\<rparr>\<rparr>))"

record dir_entry =
  de_path :: PathBuf
  de_is_file :: "bool option"

definition keep_entry :: "bool \<Rightarrow> dir_entry \<Rightarrow> bool" where
  "keep_entry ignore_hidden e \<longleftrightarrow>
     de_is_file e = Some True \<and> (if ignore_hidden then \<not> has_hidden_components (de_path e) else True)"

fun collect_files ::
    "file_system \<Rightarrow> (byte list \<Rightarrow> byte list) \<Rightarrow> PathBuf \<Rightarrow> dir_entry list \<Rightarrow>
     FileMetadata path_map \<Rightarrow> FileMetadata path_map outcome" where
  "collect_files F blake3 root_path [] file_tree = Inr file_tree"
| "collect_files F blake3 root_path (e # es) file_tree =
     (let metadata = FileMetadata_new F blake3 (de_path e) in
      and_then (get_relative_path (de_path e) root_path) (\<lambda>relative_path.
      and_then metadata (\<lambda>m.
      collect_files F blake3 root_path es (path_insert relative_path m file_tree))))"

definition generate_state ::
    "file_system \<Rightarrow> (byte list \<Rightarrow> byte list) \<Rightarrow> (PathBuf \<Rightarrow> dir_entry option list) \<Rightarrow> i64 \<Rightarrow>
     PathBuf \<Rightarrow> bool \<Rightarrow> SyncState outcome" where
  "generate_state F blake3 walkdir now root_path ignore_hidden =
     and_then (collect_files F blake3 root_path
                 (filter (keep_entry ignore_hidden) (List.map_filter id (walkdir root_path))) [])
       (\<lambda>t. Inr \<lparr>last_sync_timestamp_micros = now, tree = t\<rparr>)"

subsection \<open>Saving and loading\<close>

definition state_file_path :: PathBuf where
  "state_file_path = path_join (path_join ''.'' ''.harmonic'') ''state.json''"

text \<open>
  The data serde hands to the JSON encoder, with time stamps as microseconds; reading it
  back inserts the entries one by one.
\<close>

type_synonym state_repr = "i64 \<times> (PathBuf \<times> (byte list \<times> i64)) list"

definition state_to_repr :: "SyncState \<Rightarrow> state_repr" where
  "state_to_repr s =
     (last_sync_timestamp_micros s,
      map (\<lambda>(p, m). (p, (fm_hash m, timestamp_serialize (fm_modified_ts m)))) (tree s))"

definition state_of_repr :: "state_repr \<Rightarrow> SyncState" where
  "state_of_repr r =
     \<lparr>last_sync_timestamp_micros = fst r,
      tree = fold (\<lambda>(p, (h, t)).
               path_insert p \<lparr>fm_hash = h, fm_modified_ts = timestamp_deserialize t\<rparr>) (snd r) []\<rparr>"

definition save_state ::
    "(state_repr \<Rightarrow> byte list option) \<Rightarrow> SyncState \<Rightarrow> file_system \<Rightarrow> file_system outcome" where
  "save_state encode state F =
     and_then (ok_or Json (encode (state_to_repr state)))
       (\<lambda>state_json. from_io (fs_write F state_file_path state_json))"

text \<open>\<open>fs::read_to_string\<close> fails on bytes that are not UTF-8.\<close>

definition bytes_to_string :: "byte list \<Rightarrow> string" where
  "bytes_to_string bs = map (\<lambda>b. char_of (unat b)) bs"

definition fs_read_to_string :: "file_system \<Rightarrow> PathBuf \<Rightarrow> io_error + byte list" where
  "fs_read_to_string F p =
     (case fs_read F p of
        Inl e \<Rightarrow> Inl e
      | Inr bs \<Rightarrow> if utf8_valid (bytes_to_string bs) then Inr bs else Inl InvalidData)"

definition load_state ::
    "(byte list \<Rightarrow> state_repr option) \<Rightarrow> file_system \<Rightarrow> SyncState outcome" where
  "load_state decode F =
     (case fs_read_to_string F state_file_path of
        Inr state_json \<Rightarrow>
          and_then (ok_or Json (decode state_json)) (\<lambda>r. Inr (state_of_repr r))
      | Inl NotFound \<Rightarrow> Inr \<lparr>last_sync_timestamp_micros = 0, tree = []\<rparr>
      | Inl _ \<Rightarrow> Inl (Err ConfigError))"

subsection \<open>Properties of saving and loading\<close>

lemma bt_insert_snoc:
  "(\<And>x. x \<in> set t \<Longrightarrow> key (fst x) < key p) \<Longrightarrow> bt_insert key p v t = t @ [(p, v)]"
  by (induction key p v t rule: bt_insert.induct) fastforce+

text \<open>Inserting the entries of an ordered map one by one builds it again.\<close>

lemma fold_insert_sorted:
  "bt_inv key (u @ t) \<Longrightarrow> fold (\<lambda>(p, v). bt_insert key p v) t u = u @ t"
proof (induction t arbitrary: u)
  case Nil
  then show ?case by simp
next
  case (Cons x t)
  obtain p v where x: "x = (p, v)" by (cases x)
  have "key (fst y) < key p" if "y \<in> set u" for y
    using Cons.prems that by (auto simp: bt_inv_def sorted_wrt_append x)
  then have "bt_insert key p v u = u @ [x]" by (simp add: bt_insert_snoc x)
  with Cons.IH[of "u @ [x]"] Cons.prems show ?case by (simp add: x)
qed

text \<open>What survives a round through the state file: whole microseconds.\<close>

definition timestamp_micros :: "Timestamp \<Rightarrow> Timestamp" where
  "timestamp_micros ts = ts\<lparr>ts_nanos := word_of_int (sint (ts_nanos ts) div 1000 * 1000)\<rparr>"

definition normal_timestamp :: "Timestamp \<Rightarrow> bool" where
  "normal_timestamp ts \<longleftrightarrow> 0 \<le> sint (ts_seconds ts) \<and> sint (ts_seconds ts) \<le> 9223372036853 \<and>
     0 \<le> sint (ts_nanos ts) \<and> sint (ts_nanos ts) < 1000000000"

lemma timestamp_roundtrip:
  assumes "normal_timestamp ts"
  shows "timestamp_deserialize (timestamp_serialize ts) = timestamp_micros ts"
proof -
  define s n where "s = sint (ts_seconds ts)" and "n = sint (ts_nanos ts)"
  have bounds: "0 \<le> s" "s \<le> 9223372036853" "0 \<le> n" "n < 1000000000"
    using assms by (simp_all add: normal_timestamp_def s_def n_def)
  have div: "0 \<le> n div 1000" "n div 1000 < 1000000" using bounds by auto
  have q: "quot n 1000 = n div 1000" using bounds by (cases "n = 0") (simp_all add: quot_def)
  have "timestamp_serialize ts = word_of_int (s * 1000000 + n div 1000)"
    by (simp add: timestamp_serialize_def s_def q[unfolded n_def] n_def)
  moreover have "sint (word_of_int (s * 1000000 + n div 1000) :: i64) = s * 1000000 + n div 1000"
    using bounds div by (intro sint_word_of_int_64) auto
  ultimately have m: "sint (timestamp_serialize ts) = s * 1000000 + n div 1000" by simp
  have q2: "quot (s * 1000000 + n div 1000) 1000000 = s"
    using bounds div by (cases "s * 1000000 + n div 1000 = 0") (simp_all add: quot_def)
  then have r2: "remr (s * 1000000 + n div 1000) 1000000 = n div 1000" by (simp add: remr_def)
  show ?thesis
    unfolding timestamp_deserialize_def m q2 r2
    by (simp add: timestamp_micros_def s_def n_def)
qed

text \<open>A time stamp of a file (not before the epoch, below the year 294247) survives the state
  file up to whole microseconds.\<close>

theorem timestamp_proto_roundtrip:
  assumes "0 \<le> sint (ts_seconds ts)" and "sint (ts_seconds ts) \<le> 9223372036853"
    and "0 \<le> sint (ts_nanos ts)" and "sint (ts_nanos ts) < 1000000000"
  shows "timestamp_deserialize (timestamp_serialize ts) =
           ts\<lparr>ts_nanos := word_of_int (sint (ts_nanos ts) div 1000 * 1000)\<rparr>"
  using timestamp_roundtrip[of ts] assms by (simp add: normal_timestamp_def timestamp_micros_def)

theorem timestamp_proto_roundtrip_witness:
  "timestamp_deserialize (timestamp_serialize \<lparr>ts_seconds = 1700000000, ts_nanos = 123456789\<rparr>) =
     \<lparr>ts_seconds = 1700000000, ts_nanos = 123456000\<rparr>"
  using timestamp_proto_roundtrip[of "\<lparr>ts_seconds = 1700000000, ts_nanos = 123456789\<rparr>"] by simp


lemma metadata_with_ts: "\<lparr>fm_hash = fm_hash m, fm_modified_ts = t\<rparr> = m\<lparr>fm_modified_ts := t\<rparr>"
  by (cases m) simp

lemma fold_repr:
  "fold (\<lambda>(p, (h, t)). path_insert p \<lparr>fm_hash = h, fm_modified_ts = timestamp_deserialize t\<rparr>)
     (map (\<lambda>(p, m). (p, (fm_hash m, timestamp_serialize (fm_modified_ts m)))) es) u =
   fold (\<lambda>(p, m). path_insert p m)
     (map (\<lambda>(p, m). (p, m\<lparr>fm_modified_ts := timestamp_deserialize (timestamp_serialize (fm_modified_ts m))\<rparr>)) es) u"
  by (induction es arbitrary: u) (auto simp: metadata_with_ts)

lemma state_of_repr_to_repr:
  assumes "bt_inv components (tree s)"
    and "\<forall>(p, m) \<in> set (tree s). normal_timestamp (fm_modified_ts m)"
  shows "state_of_repr (state_to_repr s) =
     s\<lparr>tree := map (\<lambda>(p, m). (p, m\<lparr>fm_modified_ts := timestamp_micros (fm_modified_ts m)\<rparr>)) (tree s)\<rparr>"
proof -
  let ?t = "map (\<lambda>(p, m). (p, m\<lparr>fm_modified_ts := timestamp_deserialize (timestamp_serialize (fm_modified_ts m))\<rparr>)) (tree s)"
  have "bt_inv components ([] @ ?t)"
    using assms(1) by (simp add: bt_inv_def o_def case_prod_beta)
  then have built: "fold (\<lambda>(p, m). path_insert p m) ?t [] = ?t"
    using fold_insert_sorted[of components "[]" ?t] by simp
  have micros: "?t = map (\<lambda>(p, m). (p, m\<lparr>fm_modified_ts := timestamp_micros (fm_modified_ts m)\<rparr>)) (tree s)"
    using assms(2) by (auto simp: timestamp_roundtrip)
  have "tree (state_of_repr (state_to_repr s)) = ?t"
    unfolding state_of_repr_def state_to_repr_def snd_conv SyncState.simps fold_repr by (rule built)
  moreover have "last_sync_timestamp_micros (state_of_repr (state_to_repr s)) = last_sync_timestamp_micros s"
    by (simp add: state_of_repr_def state_to_repr_def)
  ultimately show ?thesis unfolding micros by (intro SyncState.equality) simp_all
qed

definition saved_state :: "SyncState \<Rightarrow> SyncState" where
  "saved_state s = s\<lparr>tree := map (\<lambda>(p, m). (p, m\<lparr>fm_modified_ts := timestamp_micros (fm_modified_ts m)\<rparr>)) (tree s)\<rparr>"

lemma load_after_save:
  assumes codec: "\<forall>r b. encode r = Some b \<longrightarrow> decode b = Some r \<and> utf8_valid (bytes_to_string b)"
    and "bt_inv components (tree s)"
    and "\<forall>(p, m) \<in> set (tree s). normal_timestamp (fm_modified_ts m)"
    and "save_state encode s F = Inr F'"
  shows "load_state decode F' = Inr (saved_state s)"
proof -
  obtain b where b: "encode (state_to_repr s) = Some b" and w: "fs_write F state_file_path b = Inr F'"
    using assms(4) by (auto simp: save_state_def and_then_Inr_iff from_io_def ok_or_def
        split: option.splits sum.splits)
  have dec: "decode b = Some (state_to_repr s)" and utf8: "utf8_valid (bytes_to_string b)"
    using codec b by blast+
  have "fs_read_to_string F' state_file_path = Inr b"
    using fs_read_after_write[OF w] utf8 by (simp add: fs_read_to_string_def)
  then show ?thesis
    using dec state_of_repr_to_repr[OF assms(2,3)] by (simp add: load_state_def saved_state_def)
qed

text \<open>C31: What \<open>save_state\<close> writes, \<open>load_state\<close> reads back: the same paths, hashes
  and last sync time, and the time stamps up to whole microseconds.  The encoder is only assumed
  to give UTF-8 that its decoder undoes.\<close>

theorem save_load_roundtrip:
  assumes codec: "\<forall>r b. encode r = Some b \<longrightarrow> decode b = Some r \<and> utf8_valid (bytes_to_string b)"
    and "bt_inv components (tree s)"
    and "\<forall>(p, m) \<in> set (tree s). normal_timestamp (fm_modified_ts m)"
    and "save_state encode s F = Inr F'"
  shows "load_state decode F' = Inr
     (s\<lparr>tree := map (\<lambda>(p, m). (p, m\<lparr>fm_modified_ts := timestamp_micros (fm_modified_ts m)\<rparr>)) (tree s)\<rparr>)"
  using load_after_save[OF assms] by (simp add: saved_state_def)

definition example_disk :: file_system where
  "example_disk = \<lparr>nodes = [[''home'', ''.harmonic''] \<mapsto> Dir, [''home''] \<mapsto> Dir],
     cwd = [''home''], fault = (\<lambda>_. None), clock = \<lparr>mt_secs = 0, mt_nanos = 0\<rparr>\<rparr>"

definition example_saved :: SyncState where
  "example_saved = \<lparr>last_sync_timestamp_micros = 7,
     tree = [(''a'', \<lparr>fm_hash = [1], fm_modified_ts = \<lparr>ts_seconds = 3, ts_nanos = 4567\<rparr>\<rparr>)]\<rparr>"

theorem save_load_roundtrip_witness:
  "\<exists>encode decode F'. save_state encode example_saved example_disk = Inr F' \<and>
     load_state decode F' = Inr \<lparr>last_sync_timestamp_micros = 7,
     tree = [(''a'', \<lparr>fm_hash = [1], fm_modified_ts = \<lparr>ts_seconds = 3, ts_nanos = 4000\<rparr>\<rparr>)]\<rparr>"
proof -
  let ?r = "state_to_repr example_saved"
  let ?enc = "\<lambda>r. if r = ?r then Some [123, 125 :: byte] else None"
  let ?dec = "\<lambda>b. if b = [123, 125 :: byte] then Some ?r else None"
  have utf8: "utf8_valid (bytes_to_string [123, 125])" by code_simp
  have codec: "\<forall>r b. ?enc r = Some b \<longrightarrow> ?dec b = Some r \<and> utf8_valid (bytes_to_string b)"
    using utf8 by (auto split: if_splits)
  have path: "resolve example_disk state_file_path = [''home'', ''.harmonic'', ''state.json'']"
    by code_simp
  have inv: "bt_inv components (tree example_saved)" by (simp add: example_saved_def)
  have ts: "\<forall>(p, m) \<in> set (tree example_saved). normal_timestamp (fm_modified_ts m)"
    by (simp add: example_saved_def normal_timestamp_def)
  have "fs_write example_disk state_file_path [123, 125] =
      Inr (put_file [''home'', ''.harmonic'', ''state.json''] [123, 125] (clock example_disk) example_disk)"
    by (simp add: fs_write_Inr path) (simp add: example_disk_def is_dir_def)
  then have saved: "save_state ?enc example_saved example_disk =
      Inr (put_file [''home'', ''.harmonic'', ''state.json''] [123, 125] (clock example_disk) example_disk)"
    by (simp add: save_state_def)
  show ?thesis
    using saved save_load_roundtrip[OF codec inv ts saved]
    by (intro exI conjI) (assumption, simp add: example_saved_def timestamp_micros_def)
qed

text \<open>Loading a state on every other branch: with no state file the client starts from the
  empty state, any other failure to read it is a configuration error, and contents that do not
  decode are a JSON error.\<close>

theorem load_state_failures:
  "(fs_read_to_string F state_file_path = Inl NotFound \<longrightarrow>
      load_state decode F = Inr \<lparr>last_sync_timestamp_micros = 0, tree = []\<rparr>) \<and>
   (\<forall>e. fs_read_to_string F state_file_path = Inl e \<and> e \<noteq> NotFound \<longrightarrow>
      load_state decode F = Inl (Err ConfigError)) \<and>
   (\<forall>b. fs_read_to_string F state_file_path = Inr b \<and> decode b = None \<longrightarrow>
      load_state decode F = Inl (Err Json))"
  by (auto simp: load_state_def split: io_error.splits)

theorem load_state_failures_witness:
  "load_state (\<lambda>_. None) example_disk = Inr \<lparr>last_sync_timestamp_micros = 0, tree = []\<rparr>"
proof -
  have path: "resolve example_disk state_file_path = [''home'', ''.harmonic'', ''state.json'']"
    by code_simp
  have "fs_read_to_string example_disk state_file_path = Inl NotFound"
    by (simp add: fs_read_to_string_def fs_read_def path Let_def)
      (simp add: example_disk_def lookup_file_def is_dir_def missing_kind_def upt_conv_Cons)
  then show ?thesis using load_state_failures[of example_disk "\<lambda>_. None"] by blast
qed


subsection \<open>The state of a directory\<close>

definition kept_entries :: "(PathBuf \<Rightarrow> dir_entry option list) \<Rightarrow> PathBuf \<Rightarrow> bool \<Rightarrow> dir_entry list" where
  "kept_entries walkdir root ignore_hidden =
     filter (keep_entry ignore_hidden) (List.map_filter id (walkdir root))"

text \<open>An entry contributes its metadata under its path relative to the root.\<close>

definition contributes ::
    "file_system \<Rightarrow> (byte list \<Rightarrow> byte list) \<Rightarrow> PathBuf \<Rightarrow> dir_entry \<Rightarrow> component list \<Rightarrow> FileMetadata \<Rightarrow> bool" where
  "contributes F blake3 root e c m \<longleftrightarrow>
     (\<exists>rel. get_relative_path (de_path e) root = Inr rel \<and> components rel = c) \<and>
     FileMetadata_new F blake3 (de_path e) = Inr m"

lemma contributes_path:
  "contributes F blake3 root e c m \<Longrightarrow> components (de_path e) = components root @ c"
  by (auto simp: contributes_def get_relative_path_def strip_prefix_components split: option.splits)

lemma collect_files_inv:
  "collect_files F blake3 root es t = Inr t' \<Longrightarrow> bt_inv components t \<Longrightarrow> bt_inv components t'"
  by (induction F blake3 root es t rule: collect_files.induct)
    (auto simp: and_then_Inr_iff Let_def bt_insert_inv)

lemma collect_files_sound:
  "collect_files F blake3 root es t = Inr t' \<Longrightarrow> bt_inv components t \<Longrightarrow>
     bt_abs components t' c = Some m \<Longrightarrow>
     bt_abs components t c = Some m \<or> (\<exists>e \<in> set es. contributes F blake3 root e c m)"
proof (induction es arbitrary: t)
  case Nil
  then show ?case by simp
next
  case (Cons e es)
  then obtain rel m0 where rel: "get_relative_path (de_path e) root = Inr rel"
    and m0: "FileMetadata_new F blake3 (de_path e) = Inr m0"
    and rest: "collect_files F blake3 root es (path_insert rel m0 t) = Inr t'"
    by (auto simp: and_then_Inr_iff Let_def)
  have "bt_abs components (path_insert rel m0 t) c = Some m \<or>
      (\<exists>e \<in> set es. contributes F blake3 root e c m)"
    by (rule Cons.IH[OF rest bt_insert_inv[OF Cons.prems(2)] Cons.prems(3)])
  then show ?case
    using rel m0 Cons.prems(2) by (auto simp: bt_insert_abs contributes_def split: if_splits)
qed

lemma collect_files_complete:
  "collect_files F blake3 root es t = Inr t' \<Longrightarrow> bt_inv components t \<Longrightarrow>
     dom (bt_abs components t) \<subseteq> dom (bt_abs components t') \<and>
     (\<forall>e \<in> set es. \<exists>c m. contributes F blake3 root e c m \<and> c \<in> dom (bt_abs components t'))"
proof (induction es arbitrary: t)
  case Nil
  then show ?case by simp
next
  case (Cons e es)
  then obtain rel m0 where rel: "get_relative_path (de_path e) root = Inr rel"
    and m0: "FileMetadata_new F blake3 (de_path e) = Inr m0"
    and rest: "collect_files F blake3 root es (path_insert rel m0 t) = Inr t'"
    by (auto simp: and_then_Inr_iff Let_def)
  have IH: "dom (bt_abs components (path_insert rel m0 t)) \<subseteq> dom (bt_abs components t') \<and>
      (\<forall>e \<in> set es. \<exists>c m. contributes F blake3 root e c m \<and> c \<in> dom (bt_abs components t'))"
    by (rule Cons.IH[OF rest bt_insert_inv[OF Cons.prems(2)]])
  have "contributes F blake3 root e (components rel) m0" using rel m0 by (simp add: contributes_def)
  moreover have "insert (components rel) (dom (bt_abs components t)) \<subseteq> dom (bt_abs components t')"
    using IH Cons.prems(2) by (simp add: bt_insert_abs)
  ultimately show ?case using IH by auto
qed

lemma kept_entries_visible:
  "e \<in> set (kept_entries walkdir root True) \<Longrightarrow> \<not> hidden_key (components (de_path e))"
  by (simp add: kept_entries_def keep_entry_def has_hidden_components_key)

lemma generate_state_Inr:
  "generate_state F blake3 walkdir now root h = Inr s \<longleftrightarrow>
     last_sync_timestamp_micros s = now \<and>
     collect_files F blake3 root (kept_entries walkdir root h) [] = Inr (tree s)"
  by (cases s) (auto simp: generate_state_def kept_entries_def and_then_Inr_iff)

text \<open>C32: The state of a directory is an ordered map with exactly the kept entries of the walk:
  each regular file is listed under its path relative to the root, with the hash and the
  modification time of that file, and nothing else is listed; with hidden files ignored no
  listed path has a hidden component.\<close>

theorem generate_state_lists_files:
  assumes "generate_state F blake3 walkdir now root ignore_hidden = Inr s"
  shows "bt_inv components (tree s) \<and>
     (\<forall>c m. state_map s c = Some m \<longrightarrow>
        (\<exists>e \<in> set (kept_entries walkdir root ignore_hidden).
           components (de_path e) = components root @ c \<and> FileMetadata_new F blake3 (de_path e) = Inr m)) \<and>
     (\<forall>e \<in> set (kept_entries walkdir root ignore_hidden).
        \<exists>c \<in> dom (state_map s). components (de_path e) = components root @ c) \<and>
     (ignore_hidden \<longrightarrow> (\<forall>c \<in> dom (state_map s). \<not> hidden_key c))"
proof -
  have collect: "collect_files F blake3 root (kept_entries walkdir root ignore_hidden) [] = Inr (tree s)"
    using assms by (simp add: generate_state_Inr)
  have sound: "\<exists>e \<in> set (kept_entries walkdir root ignore_hidden). contributes F blake3 root e c m"
    if "state_map s c = Some m" for c m
    using collect_files_sound[OF collect] that by (simp add: state_map_def)
  have complete: "\<forall>e \<in> set (kept_entries walkdir root ignore_hidden).
      \<exists>c m. contributes F blake3 root e c m \<and> c \<in> dom (state_map s)"
    using collect_files_complete[OF collect] by (simp add: state_map_def)
  have "\<not> hidden_key c" if ih: "ignore_hidden" and c: "c \<in> dom (state_map s)" for c
  proof -
    obtain m where "state_map s c = Some m" using c by blast
    then obtain e where e: "e \<in> set (kept_entries walkdir root ignore_hidden)"
        "contributes F blake3 root e c m"
      using sound by blast
    have "\<not> hidden_key (components (de_path e))" using e(1) ih kept_entries_visible by simp
    then show ?thesis using contributes_path[OF e(2)] by (simp add: hidden_key_def)
  qed
  moreover have "bt_inv components (tree s)" using collect_files_inv[OF collect] by simp
  ultimately show ?thesis
    using sound complete contributes_path by (meson contributes_def)
qed

text \<open>The hidden check looks at the whole path of an entry, the root included.  So a sync
  directory below a hidden directory, or given as a path that begins with \<open>.\<close>, has an
  empty state whatever files it holds.\<close>

theorem hidden_root_hides_everything:
  assumes "has_hidden_components root"
    and "\<forall>e. Some e \<in> set (walkdir root) \<longrightarrow> starts_with (de_path e) root"
  shows "generate_state F blake3 walkdir now root True =
           Inr \<lparr>last_sync_timestamp_micros = now, tree = []\<rparr>"
proof -
  have "\<not> keep_entry True e" if "Some e \<in> set (walkdir root)" for e
  proof -
    from that assms(2) obtain cs where "components (de_path e) = components root @ cs"
      by (auto simp: starts_with_def prefix_def)
    then show ?thesis
      using assms(1) by (simp add: keep_entry_def has_hidden_components_def)
  qed
  then have "kept_entries walkdir root True = []"
    by (auto simp: kept_entries_def filter_empty_conv List.map_filter_def)
  then show ?thesis by (simp add: generate_state_Inr)
qed

definition example_walk :: "PathBuf \<Rightarrow> dir_entry option list" where
  "example_walk root = [None, Some \<lparr>de_path = root, de_is_file = Some False\<rparr>,
     Some \<lparr>de_path = path_join root ''a'', de_is_file = Some True\<rparr>]"

definition example_files :: file_system where
  "example_files = example_disk\<lparr>nodes := (nodes example_disk)
     ([''home'', ''s''] \<mapsto> Dir, [''home'', ''s'', ''a''] \<mapsto> File [1, 2] \<lparr>mt_secs = 9, mt_nanos = 8\<rparr>)\<rparr>"

theorem hidden_root_hides_everything_witness:
  "generate_state example_files id example_walk 5 ''./s'' True =
     Inr \<lparr>last_sync_timestamp_micros = 5, tree = []\<rparr>"
proof (rule hidden_root_hides_everything)
  show "has_hidden_components ''./s''" by code_simp
  have "starts_with ''./s'' ''./s''" and "starts_with (path_join ''./s'' ''a'') ''./s''" by code_simp+
  then show "\<forall>e. Some e \<in> set (example_walk ''./s'') \<longrightarrow> starts_with (de_path e) ''./s''"
    by (auto simp: example_walk_def)
qed

theorem generate_state_lists_files_witness:
  "\<exists>s. generate_state example_files id example_walk 5 ''s'' True = Inr s \<and>
     (\<exists>c \<in> dom (state_map s). [Normal ''s'', Normal ''a''] = [Normal ''s''] @ c)"
proof -
  have c: "components ''s'' = [Normal ''s'']" "components ''s/a'' = [Normal ''s'', Normal ''a'']"
    and j: "path_join ''s'' ''a'' = ''s/a''"
    and r: "get_relative_path ''s/a'' ''s'' = Inr ''a''" and h: "\<not> has_hidden_components ''s/a''"
    by code_simp+
  have kept: "kept_entries example_walk ''s'' True = [\<lparr>de_path = ''s/a'', de_is_file = Some True\<rparr>]"
    by (simp add: kept_entries_def example_walk_def keep_entry_def List.map_filter_def j h)
  have res: "resolve example_files ''s/a'' = [''home'', ''s'', ''a'']"
    by (simp add: resolve_def c example_files_def example_disk_def)
  have m: "FileMetadata_new example_files id ''s/a'' =
      Inr \<lparr>fm_hash = [1, 2], fm_modified_ts = \<lparr>ts_seconds = 9, ts_nanos = 8\<rparr>\<rparr>"
    by (simp add: FileMetadata_new_def fs_read_def fs_modified_def res Let_def)
      (simp add: lookup_file_def is_dir_def example_files_def example_disk_def)
  let ?s = "\<lparr>last_sync_timestamp_micros = 5, tree =
      [(''a'', \<lparr>fm_hash = [1, 2], fm_modified_ts = \<lparr>ts_seconds = 9, ts_nanos = 8\<rparr>\<rparr>)]\<rparr>"
  have s: "generate_state example_files id example_walk 5 ''s'' True = Inr ?s"
    by (simp add: generate_state_Inr kept r m)
  show ?thesis
    using s generate_state_lists_files[OF s] unfolding kept by (auto simp: c)
qed

end
