(* ===== verification/Sync_Config.thy ===== *)
theory Sync_Config
  imports State_Files
begin

section \<open>Configuration\<close>

text \<open>
  Models src/sync/config.rs, with the override of src/server/config.rs.  Parameters:
  \<open>encode\<close> and \<open>decode\<close> are the toml crate's conversion of a \<open>Config\<close>,
  \<open>level_ok\<close> is \<open>Level::from_str(..).is_ok()\<close> of tracing_core, \<open>home\<close> what
  \<open>dirs::home_dir()\<close> returns.  The two lines the user types on a first run are an
  argument.
\<close>

record Config =
  sync_path :: PathBuf
  socket_addr :: string
  schedule_delay :: u64
  log_level :: string
  sync_threshold :: u64
  modify_weight :: u64
  remove_weight :: u64
  create_weight :: u64
  config_block_size :: u64

text \<open>\<open>Config::default()\<close> panics without a home directory.\<close>

definition config_default :: "PathBuf option \<Rightarrow> Config outcome" where
  "config_default home =
     (case home of
        None \<Rightarrow> Inl Panic
      | Some h \<Rightarrow> Inr \<lparr>sync_path = h, socket_addr = ''[::1]:42069'', schedule_delay = 3600,
          log_level = ''info'', sync_threshold = 20, modify_weight = 2, remove_weight = 5,
          create_weight = 10, config_block_size = 8192\<rparr>)"

definition server_uri :: "Config \<Rightarrow> string" where
  "server_uri c = ''https://'' @ socket_addr c"

text \<open>The accessor \<open>socket_addr()\<close>; \<open>parse\<close> is the parser of \<open>SocketAddr\<close> followed by
  what the caller takes from the address.\<close>

definition Config_socket_addr :: "(string \<Rightarrow> 'addr option) \<Rightarrow> Config \<Rightarrow> 'addr outcome" where
  "Config_socket_addr parse c = ok_or ConfigError (parse (socket_addr c))"

definition config_dir_path :: PathBuf where
  "config_dir_path = path_join ''.'' ''.harmonic''"

definition config_file_path :: PathBuf where
  "config_file_path = path_join config_dir_path ''config.toml''"

subsection \<open>Trimming input\<close>

text \<open>The UTF-8 sequences of the code points with the property White_Space, which
  \<open>str::trim\<close> removes at both ends.\<close>

definition white_space :: "nat list list" where
  "white_space =
     [[9], [10], [11], [12], [13], [32], [194, 133], [194, 160], [225, 154, 128]] @
     map (\<lambda>k. [226, 128, k]) ([128..<139] @ [168, 169, 175]) @ [[226, 129, 159], [227, 128, 128]]"

fun strip_any :: "nat list list \<Rightarrow> string \<Rightarrow> string option" where
  "strip_any [] s = None"
| "strip_any (w # ws) s =
     (if w \<noteq> [] \<and> map of_char (take (length w) s) = w then Some (drop (length w) s) else strip_any ws s)"

lemma strip_any_shorter: "strip_any ws s = Some t \<Longrightarrow> length t < length s"
proof (induction ws)
  case Nil
  then show ?case by simp
next
  case (Cons w ws)
  show ?case
  proof (cases "w \<noteq> [] \<and> map of_char (take (length w) s) = w")
    case True
    then have "s \<noteq> []" by auto
    moreover have "t = drop (length w) s" using True Cons.prems by simp
    ultimately show ?thesis using True by simp
  next
    case False
    then show ?thesis using Cons.IH Cons.prems by (simp only: strip_any.simps if_False)
  qed
qed

function trim_with :: "nat list list \<Rightarrow> string \<Rightarrow> string" where
  "trim_with ws s = (case strip_any ws s of None \<Rightarrow> s | Some t \<Rightarrow> trim_with ws t)"
  by pat_completeness auto
termination
  by (relation "measure (\<lambda>(ws, s). length s)") (auto dest: strip_any_shorter)

declare trim_with.simps [simp del]

definition trim :: "string \<Rightarrow> string" where
  "trim s = rev (trim_with (map rev white_space) (rev (trim_with white_space s)))"


subsection \<open>Saving and loading\<close>

definition save_config :: "(Config \<Rightarrow> byte list option) \<Rightarrow> Config \<Rightarrow> file_system \<Rightarrow> file_system outcome" where
  "save_config encode config F =
     and_then (ok_or TomlSerError (encode config)) (\<lambda>config_toml.
     and_then (from_io (fs_create_dir_all F config_dir_path)) (\<lambda>F1.
     from_io (fs_write F1 config_file_path config_toml)))"

text \<open>The two answers of the user are the lines read from standard input; \<open>None\<close> is a line
  that cannot be read.\<close>

definition handle_no_config ::
    "(Config \<Rightarrow> byte list option) \<Rightarrow> PathBuf option \<Rightarrow> string option \<Rightarrow> string option \<Rightarrow>
     file_system \<Rightarrow> (Config \<times> file_system) outcome" where
  "handle_no_config encode home path address F =
     (case (path, address) of
        (Some path, Some address) \<Rightarrow>
          and_then (config_default home) (\<lambda>c0.
            let c = c0\<lparr>sync_path := trim path, socket_addr := trim address\<rparr> in
            and_then (save_config encode c F) (\<lambda>F'. Inr (c, F')))
      | _ \<Rightarrow> Inl Panic)"

definition load_config ::
    "(byte list \<Rightarrow> Config option) \<Rightarrow> (Config \<Rightarrow> byte list option) \<Rightarrow> (string \<Rightarrow> bool) \<Rightarrow> PathBuf option \<Rightarrow>
     string option \<Rightarrow> string option \<Rightarrow> file_system \<Rightarrow> (Config \<times> file_system) outcome" where
  "load_config decode encode level_ok home path address F =
     and_then (case fs_read_to_string F config_file_path of
         Inr config_toml \<Rightarrow> and_then (ok_or TomlDeserError (decode config_toml)) (\<lambda>c. Inr (c, F))
       | Inl NotFound \<Rightarrow> handle_no_config encode home path address F
       | Inl e \<Rightarrow> Inl (Err (Io e)))
     (\<lambda>(config, F').
       if level_ok (log_level config) then Inr (config, F') else Inl (Err ConfigError))"

text \<open>\<open>create_server_config\<close> of src/server/config.rs: the server listens on every
  interface, on the port of the configured
  address; \<open>loaded\<close> is the result of \<open>load_config\<close> and \<open>port_of\<close> is the parser of
  \<open>SocketAddr\<close> with \<open>port().to_string()\<close>.\<close>

definition create_server_config ::
    "(string \<Rightarrow> string option) \<Rightarrow> (Config \<times> file_system) outcome \<Rightarrow> (Config \<times> file_system) outcome" where
  "create_server_config port_of loaded =
     and_then (from_anyhow loaded) (\<lambda>(config, F).
       case port_of (socket_addr config) of
         None \<Rightarrow> Inl Foreign
       | Some port \<Rightarrow> Inr (config\<lparr>socket_addr := ''0.0.0.0:'' @ port\<rparr>, F))"

subsection \<open>Properties\<close>

lemma config_paths:
  "components config_file_path = [CurDir, Normal ''.harmonic'', Normal ''config.toml'']"
  "components config_dir_path = [CurDir, Normal ''.harmonic'']"
  by code_simp+

lemma resolve_config:
  "resolve F config_file_path = cwd F @ [''.harmonic'', ''config.toml'']"
  "resolve F config_dir_path = cwd F @ [''.harmonic'']"
  by (simp_all add: resolve_def config_paths)

lemma save_config_read:
  assumes "save_config encode c F = Inr F'" "encode c = Some b" "utf8_valid (bytes_to_string b)"
  shows "fs_read_to_string F' config_file_path = Inr b"
proof -
  obtain F1 where "fs_write F1 config_file_path b = Inr F'"
    using assms(1,2) by (auto simp: save_config_def and_then_Inr_iff from_io_def split: sum.splits)
  then have "fs_read F' config_file_path = Inr b" by (rule fs_read_after_write)
  with assms(3) show ?thesis by (simp add: fs_read_to_string_def)
qed

lemma handle_no_config_Inr:
  assumes "handle_no_config encode home path address F = Inr (c, F')"
  shows "\<exists>p a c0. path = Some p \<and> address = Some a \<and> config_default home = Inr c0 \<and>
    c = c0\<lparr>sync_path := trim p, socket_addr := trim a\<rparr> \<and> save_config encode c F = Inr F'"
  using assms by (auto simp: handle_no_config_def and_then_Inr_iff Let_def split: option.splits)

text \<open>The first run: with no configuration file, loading asks for a path and an address,
  and if it succeeds it has saved a file from which every later run loads exactly the same
  configuration, with the trimmed answers, the default block size of 8192 and a valid level.\<close>

theorem first_run_persists_config:
  assumes codec: "\<forall>c b. encode c = Some b \<longrightarrow> decode b = Some c \<and> utf8_valid (bytes_to_string b)"
    and "fs_read_to_string F config_file_path = Inl NotFound"
    and "load_config decode encode level_ok home path address F = Inr (c, F')"
  shows "load_config decode encode level_ok home' path' address' F' = Inr (c, F') \<and>
    (\<exists>p a. path = Some p \<and> address = Some a \<and> sync_path c = trim p \<and> socket_addr c = trim a) \<and>
    config_block_size c = 8192 \<and> level_ok (log_level c)"
proof -
  have none: "handle_no_config encode home path address F = Inr (c, F')" and level: "level_ok (log_level c)"
    using assms(2,3) by (auto simp: load_config_def and_then_Inr_iff split: if_splits)
  obtain p a c0 where c: "path = Some p" "address = Some a" "config_default home = Inr c0"
      "c = c0\<lparr>sync_path := trim p, socket_addr := trim a\<rparr>" and saved: "save_config encode c F = Inr F'"
    using handle_no_config_Inr[OF none] by blast
  obtain b where b: "encode c = Some b"
    using saved by (cases "encode c") (auto simp: save_config_def)
  have "fs_read_to_string F' config_file_path = Inr b"
    using save_config_read[OF saved b] codec b by blast
  then have "load_config decode encode level_ok home' path' address' F' = Inr (c, F')"
    using codec b level by (simp add: load_config_def)
  moreover have "config_block_size c = 8192"
    using c(3,4) by (auto simp: config_default_def split: option.splits)
  ultimately show ?thesis using c level by simp
qed

theorem first_run_persists_config_witness:
  "\<exists>decode encode F' c. load_config decode encode (\<lambda>_. True) None None None F' = Inr (c, F') \<and>
     sync_path c = ''/srv'' \<and> socket_addr c = ''[::1]:9'' \<and> config_block_size c = 8192"
proof -
  define c where "c = \<lparr>sync_path = ''/srv'', socket_addr = ''[::1]:9'', schedule_delay = 3600,
    log_level = ''info'', sync_threshold = 20, modify_weight = 2, remove_weight = 5, create_weight = 10,
    config_block_size = 8192\<rparr>"
  let ?enc = "\<lambda>x. if x = c then Some [123 :: byte] else None"
  let ?dec = "\<lambda>b. if b = [123 :: byte] then Some c else None"
  let ?F = "put_file [''home'', ''.harmonic'', ''config.toml''] [123] (clock example_disk) example_disk"
  have utf8: "utf8_valid (bytes_to_string [123])" by code_simp
  have trims: "trim '' /srv '' = ''/srv''" "trim ''[::1]:9 '' = ''[::1]:9''" by code_simp+
  have cwd: "cwd example_disk = [''home'']" by (simp add: example_disk_def)
  have absent: "fs_read_to_string example_disk config_file_path = Inl NotFound"
    by (simp add: fs_read_to_string_def fs_read_def resolve_config cwd)
      (simp add: example_disk_def lookup_file_def is_dir_def missing_kind_def upt_conv_Cons)
  have "fs_create_dir_all example_disk config_dir_path = Inr example_disk"
    by (simp add: fs_create_dir_all_def config_paths) (simp add: example_disk_def is_dir_def Let_def)
  moreover have "fs_write example_disk config_file_path [123] = Inr ?F"
    by (simp add: fs_write_Inr resolve_config cwd) (simp add: example_disk_def is_dir_def)
  ultimately have "save_config ?enc c example_disk = Inr ?F"
    by (simp add: save_config_def)
  moreover obtain c0 where c0: "config_default (Some ''/home'') = Inr c0"
      "c0\<lparr>sync_path := ''/srv'', socket_addr := ''[::1]:9''\<rparr> = c"
    by (simp add: config_default_def c_def)
  ultimately have "handle_no_config ?enc (Some ''/home'') (Some '' /srv '') (Some ''[::1]:9 '') example_disk = Inr (c, ?F)"
    by (simp only: handle_no_config_def trims prod.case option.case and_then.simps Let_def c0)
  then have "load_config ?dec ?enc (\<lambda>_. True) (Some ''/home'') (Some '' /srv '') (Some ''[::1]:9 '') example_disk =
      Inr (c, ?F)"
    by (simp only: load_config_def absent sum.case io_error.case and_then.simps prod.case if_True)
  note loaded = this
  have codec: "\<forall>x b. ?enc x = Some b \<longrightarrow> ?dec b = Some x \<and> utf8_valid (bytes_to_string b)"
    using utf8 by (simp split: if_split)
  from first_run_persists_config[OF codec absent loaded, of None None None]
  have "load_config ?dec ?enc (\<lambda>_. True) None None None ?F = Inr (c, ?F)" by (rule conjunct1)
  then show ?thesis by (intro exI conjI) (assumption, simp_all only: c_def Config.select_convs)
qed

end
