(* ===== verification/Payload_Handler.thy ===== *)
theory Payload_Handler
  imports Delta_Writer Sync_Config
begin

section \<open>Handling the messages of a stream\<close>

text \<open>
  Models src/sync/handler.rs, which the server and the client share, and the loop both run
  over the messages of one stream (src/bin/server.rs, \<open>handle_sync_request_stream\<close>;
  src/bin/client.rs, the loop of \<open>sync_file\<close>).

  The state of a stream is the sink, the current file path and the sender of the running
  delta writer, if any.  The writer is a task of its own: what the stream knows of it is the
  channel, so a \<open>writer_task\<close> records the arguments of the task, the deltas the channel
  took, and how many more it takes before the task has failed and its receiver is gone
  (\<open>None\<close>: it never fails early).  When a sender is dropped (replaced by a new one, or at
  the end of the stream, however that ends) the channel closes and the task runs to its end:
  \<open>end_stream\<close> applies the tasks to the file system.  Reads of the stream see the file
  system from before the writers' renames.
\<close>

subsection \<open>The writer's channel\<close>

record writer_task =
  wt_path :: PathBuf
  wt_cache :: BlockCache
  wt_modified_ts :: Timestamp
  wt_deltas :: "Delta list"
  wt_lifetime :: "nat option"

definition spawn_writer :: "PathBuf \<Rightarrow> BlockCache \<Rightarrow> Timestamp \<Rightarrow> nat option \<Rightarrow> writer_task" where
  "spawn_writer path cache modified_ts life =
     \<lparr>wt_path = path, wt_cache = cache, wt_modified_ts = modified_ts, wt_deltas = [], wt_lifetime = life\<rparr>"

definition writer_send :: "Delta \<Rightarrow> writer_task \<Rightarrow> writer_task \<times> unit outcome" where
  "writer_send d w =
     (case wt_lifetime w of
        None \<Rightarrow> (w\<lparr>wt_deltas := wt_deltas w @ [d]\<rparr>, Inr ())
      | Some 0 \<Rightarrow> (w, Inl (Err SendError))
      | Some (Suc n) \<Rightarrow> (w\<lparr>wt_deltas := wt_deltas w @ [d], wt_lifetime := Some n\<rparr>, Inr ()))"

interpretation wtx: message_sink writer_send wt_deltas
  by unfold_locales (auto simp: writer_send_def split: option.splits nat.splits)

definition run_writer ::
    "(file_system \<Rightarrow> PathBuf \<Rightarrow> mtime \<Rightarrow> io_error + file_system) \<Rightarrow> writer_task \<Rightarrow> file_system \<Rightarrow> file_system" where
  "run_writer set_file_mtime w F =
     fst (delta_writer set_file_mtime (wt_path w) (wt_cache w) (wt_modified_ts w) (wt_deltas w) F)"

subsection \<open>The handler\<close>

datatype SyncStatus = Continue | Completed

record 's stream_state =
  st_sink :: 's
  st_file_path :: PathBuf
  st_writer :: "writer_task option"
  st_dropped :: "writer_task list"

text \<open>Storing a new sender drops the one that was there.\<close>

definition set_writer :: "writer_task \<Rightarrow> 's stream_state \<Rightarrow> 's stream_state" where
  "set_writer w h = h\<lparr>st_writer := Some w,
     st_dropped := st_dropped h @ (case st_writer h of None \<Rightarrow> [] | Some v \<Rightarrow> [v])\<rparr>"

definition handle_file_action ::
    "file_system \<Rightarrow> (PathBuf \<Rightarrow> PathBuf) \<Rightarrow> (byte list \<Rightarrow> byte list) \<Rightarrow> (SyncRequest \<Rightarrow> 's \<Rightarrow> 's \<times> unit outcome) \<Rightarrow>
     Config \<Rightarrow> (PathBuf \<Rightarrow> nat option) \<Rightarrow> FileAction \<Rightarrow> 's stream_state \<Rightarrow> 's stream_state \<times> SyncStatus outcome" where
  "handle_file_action F clean blake3 send config life file_action h =
     (if fa_direction file_action = direction_i32 Download then
        (h\<lparr>st_file_path := fa_path file_action\<rparr>, Inr Continue)
      else if fa_direction file_action = direction_i32 Upload then
        (let file_path = fa_path file_action;
             h1 = h\<lparr>st_file_path := file_path\<rparr>
         in case send_block_signatures_for_file F clean blake3 send file_path (sync_path config)
                  (config_block_size config) (st_sink h) of
              (s', Inl e) \<Rightarrow> (h1\<lparr>st_sink := s'\<rparr>, Inl e)
            | (s', Inr cache) \<Rightarrow>
                (case get_absolute_path clean file_path (sync_path config) of
                   Inl e \<Rightarrow> (h1\<lparr>st_sink := s'\<rparr>, Inl e)
                 | Inr abs_path \<Rightarrow>
                     (set_writer
                        (spawn_writer abs_path cache (unwrap_or_default (fa_timestamp_latest_modified file_action))
                           (life abs_path))
                        (h1\<lparr>st_sink := s'\<rparr>), Inr Continue)))
      else (h, Inr Continue))"

definition handle_sync_payload ::
    "file_system \<Rightarrow> (PathBuf \<Rightarrow> PathBuf) \<Rightarrow> (byte list \<Rightarrow> byte list) \<Rightarrow> (SyncRequest \<Rightarrow> 's \<Rightarrow> 's \<times> unit outcome) \<Rightarrow>
     Config \<Rightarrow> (PathBuf \<Rightarrow> nat option) \<Rightarrow> Payload \<Rightarrow> 's stream_state \<Rightarrow>
     ('s stream_state \<times> SyncStatus outcome) option" where
  "handle_sync_payload F clean blake3 send config life p h =
     (case p of
        FileActionP file_action \<Rightarrow>
          Some (handle_file_action F clean blake3 send config life file_action h)
      | Signatures signatures \<Rightarrow>
          (case get_absolute_path clean (st_file_path h) (sync_path config) of
             Inl e \<Rightarrow> Some (h, Inl e)
           | Inr abs_path \<Rightarrow>
               (case send_delta_from_block_signatures F blake3 send abs_path signatures (st_sink h) of
                  None \<Rightarrow> None
                | Some (s', Inl e) \<Rightarrow> Some (h\<lparr>st_sink := s'\<rparr>, Inl e)
                | Some (s', Inr _) \<Rightarrow> Some (h\<lparr>st_sink := s'\<rparr>, Inr Continue)))
      | DeltaP delta \<Rightarrow>
          (case st_writer h of
             None \<Rightarrow> Some (h, Inr Continue)
           | Some w \<Rightarrow>
               (case writer_send delta w of
                  (w', Inl e) \<Rightarrow> Some (h\<lparr>st_writer := Some w'\<rparr>, Inl e)
                | (w', Inr _) \<Rightarrow> Some (h\<lparr>st_writer := Some w'\<rparr>, Inr Continue)))
      | Complete _ \<Rightarrow>
          (case send (request (Complete True)) (st_sink h) of
             (s', Inl e) \<Rightarrow> Some (h\<lparr>st_sink := s'\<rparr>, Inl e)
           | (s', Inr _) \<Rightarrow> Some (h\<lparr>st_sink := s'\<rparr>, Inr Completed)))"

subsection \<open>The loop over a stream\<close>

text \<open>An item of the stream is a message or a status error of the transport.  The loop ends
  with the stream, with a message that completes the transfer, or with the first error; the
  error of the handler is wrapped by anyhow.\<close>

fun stream_loop ::
    "file_system \<Rightarrow> (PathBuf \<Rightarrow> PathBuf) \<Rightarrow> (byte list \<Rightarrow> byte list) \<Rightarrow> (SyncRequest \<Rightarrow> 's \<Rightarrow> 's \<times> unit outcome) \<Rightarrow>
     Config \<Rightarrow> (PathBuf \<Rightarrow> nat option) \<Rightarrow> (unit + SyncRequest) list \<Rightarrow> 's stream_state \<Rightarrow>
     ('s stream_state \<times> unit outcome) option" where
  "stream_loop F clean blake3 send config life [] h = Some (h, Inr ())"
| "stream_loop F clean blake3 send config life (Inl status # ms) h = Some (h, Inl Foreign)"
| "stream_loop F clean blake3 send config life (Inr m # ms) h =
     (case payload m of
        None \<Rightarrow> stream_loop F clean blake3 send config life ms h
      | Some p \<Rightarrow>
          (case handle_sync_payload F clean blake3 send config life p h of
             None \<Rightarrow> None
           | Some (h', Inl e) \<Rightarrow> Some (h', Inl (anyhow e))
           | Some (h', Inr Completed) \<Rightarrow> Some (h', Inr ())
           | Some (h', Inr Continue) \<Rightarrow> stream_loop F clean blake3 send config life ms h'))"

text \<open>The end of the stream drops the sender of the last writer.\<close>

definition stream_writers :: "'s stream_state \<Rightarrow> writer_task list" where
  "stream_writers h = st_dropped h @ (case st_writer h of None \<Rightarrow> [] | Some w \<Rightarrow> [w])"

definition end_stream ::
    "(file_system \<Rightarrow> PathBuf \<Rightarrow> mtime \<Rightarrow> io_error + file_system) \<Rightarrow> 's stream_state \<Rightarrow> file_system \<Rightarrow> file_system" where
  "end_stream set_file_mtime h F = fold (run_writer set_file_mtime) (stream_writers h) F"

text \<open>The state a server task starts a stream with.\<close>

definition new_stream :: "'s \<Rightarrow> 's stream_state" where
  "new_stream s = \<lparr>st_sink = s, st_file_path = [], st_writer = None, st_dropped = []\<rparr>"

subsection \<open>Everything stays inside the sync directory\<close>

text \<open>\<open>below root p\<close>: the path \<open>p\<close> is a file name below the directory
  \<open>root\<close>.\<close>

definition below :: "PathBuf \<Rightarrow> PathBuf \<Rightarrow> bool" where
  "below root p \<longleftrightarrow> (\<exists>names f. components p = components root @ map Normal names @ [Normal f])"

definition inside :: "file_system \<Rightarrow> PathBuf \<Rightarrow> string list set" where
  "inside F root = {k. \<exists>names. k = resolve F root @ names}"

lemma below_inside:
  assumes "below root p"
  shows "resolve F p \<in> inside F root" "resolve F (tmp_file p) \<in> inside F root"
proof -
  obtain names f where p: "components p = components root @ map Normal names @ [Normal f]"
    using assms by (auto simp: below_def)
  then have "resolve F p = resolve F root @ (names @ [f])" by (intro resolve_below) simp
  then show "resolve F p \<in> inside F root" by (auto simp: inside_def)
  have "last_segment p = Some f" by (rule last_segment_of_components[of p "components root @ map Normal names"]) (simp add: p)
  from tmp_file_directory[OF this] obtain g where "components (tmp_file p) = components root @ map Normal (names @ [g])"
    by (auto simp: p butlast_append)
  from resolve_below[OF this, of F] show "resolve F (tmp_file p) \<in> inside F root" by (auto simp: inside_def)
qed

text \<open>The directory itself can be read by no writer: signing fails on a directory.\<close>

lemma signed_path_below:
  assumes "path_cleaner clean" "root \<noteq> []" "is_dir F (resolve F root)" "fault F (resolve F root) = None"
    and "generate_blocks_signatures F clean blake3 p root bs = Inr x" "get_absolute_path clean p root = Inr q"
  shows "below root q"
proof -
  obtain names where q: "components q = components root @ map Normal names"
    using path_cleaner.accepted_below[OF assms(1,2,6)] by blast
  have "names \<noteq> []"
  proof
    assume "names = []"
    then have "resolve F q = resolve F root" using q resolve_components[of q root] by simp
    then have "fs_read F q = Inl IsADirectory"
      using assms(3,4) by (simp add: fs_read_def lookup_file_def)
    then show False
      using assms(5,6) generate_blocks_signatures_InrD[of F clean blake3 p root bs "fst x" "snd x"] by auto
  qed
  then show ?thesis using q by (cases names rule: rev_cases) (auto simp: below_def)
qed

definition writers_below :: "PathBuf \<Rightarrow> 's stream_state \<Rightarrow> bool" where
  "writers_below root h \<longleftrightarrow> list_all (\<lambda>w. below root (wt_path w)) (stream_writers h)"

lemma stream_writers_simps [simp]:
  "stream_writers (h\<lparr>st_sink := s\<rparr>) = stream_writers h"
  "stream_writers (h\<lparr>st_file_path := p\<rparr>) = stream_writers h"
  "stream_writers (set_writer w h) = stream_writers h @ [w]"
  by (simp_all add: stream_writers_def set_writer_def)

lemma writer_send_path: "writer_send d w = (w', r) \<Longrightarrow> wt_path w' = wt_path w"
  by (auto simp: writer_send_def split: option.splits nat.splits)

lemma send_block_signatures_Inr:
  "send_block_signatures_for_file F clean blake3 send p root bs s = (s', Inr cache) \<Longrightarrow>
   \<exists>sig. generate_blocks_signatures F clean blake3 p root bs = Inr (sig, cache)"
  by (cases "generate_blocks_signatures F clean blake3 p root bs")
    (auto simp: send_block_signatures_for_file_def elim!: map_err.elims split: prod.splits sum.splits)

lemma handle_file_action_below:
  assumes "path_cleaner clean" "sync_path config \<noteq> []" "is_dir F (resolve F (sync_path config))"
    "fault F (resolve F (sync_path config)) = None"
    and "handle_file_action F clean blake3 send config life a h = (h', r)" "writers_below (sync_path config) h"
  shows "writers_below (sync_path config) h'"
  using assms(5,6) signed_path_below[OF assms(1-4)]
  by (auto simp: handle_file_action_def Let_def writers_below_def spawn_writer_def
      dest!: send_block_signatures_Inr split: if_splits prod.splits sum.splits)

lemma handle_delta_below:
  assumes "st_writer h = Some w" "writer_send d w = (w', r)" "writers_below root h"
  shows "writers_below root (h\<lparr>st_writer := Some w'\<rparr>)"
  using assms writer_send_path[OF assms(2)] by (simp add: writers_below_def stream_writers_def)

lemma handle_sync_payload_below:
  assumes "path_cleaner clean" "sync_path config \<noteq> []" "is_dir F (resolve F (sync_path config))"
    "fault F (resolve F (sync_path config)) = None"
    and run: "handle_sync_payload F clean blake3 send config life p h = Some (h', r)"
    and "writers_below (sync_path config) h"
  shows "writers_below (sync_path config) h'"
proof (cases p)
  case (FileActionP a)
  then show ?thesis
    using run handle_file_action_below[OF assms(1-4)] assms(6) by (simp add: handle_sync_payload_def)
next
  case (Signatures sig)
  then show ?thesis
    using run assms(6)
    by (auto simp: handle_sync_payload_def writers_below_def split: sum.splits option.splits)
next
  case (DeltaP d)
  then show ?thesis
    using run assms(6) handle_delta_below
    by (auto simp: handle_sync_payload_def split: option.splits prod.splits sum.splits)
next
  case (Complete b)
  then show ?thesis
    using run assms(6) by (auto simp: handle_sync_payload_def writers_below_def split: prod.splits sum.splits)
qed

lemma stream_loop_below:
  assumes "path_cleaner clean" "sync_path config \<noteq> []" "is_dir F (resolve F (sync_path config))"
    "fault F (resolve F (sync_path config)) = None"
    and "stream_loop F clean blake3 send config life ms h = Some (h', r)"
    and "writers_below (sync_path config) h"
  shows "writers_below (sync_path config) h'"
  using assms(5,6)
proof (induction ms arbitrary: h)
  case Nil
  then show ?case by simp
next
  case (Cons x ms)
  show ?case
  proof (cases x)
    case (Inl u)
    then show ?thesis using Cons.prems by simp
  next
    case (Inr m)
    show ?thesis
    proof (cases "payload m")
      case None
      then show ?thesis using Inr Cons by simp
    next
      case (Some p)
      obtain h1 r1 where h1: "handle_sync_payload F clean blake3 send config life p h = Some (h1, r1)"
        using Cons.prems(1) Inr Some by (auto split: option.splits)
      have "writers_below (sync_path config) h1"
        using handle_sync_payload_below[OF assms(1-4) h1 Cons.prems(2)] .
      then show ?thesis
        using Cons Inr Some h1 by (auto split: sum.splits SyncStatus.splits)
    qed
  qed
qed

lemma inside_same: "same_except K F F' \<Longrightarrow> inside F' root = inside F root"
  by (simp add: inside_def same_except_resolve)

lemma run_writers_inside:
  assumes "mtime_setter set_file_mtime" "list_all (\<lambda>w. below root (wt_path w)) ws"
  shows "same_except (inside F root) F (fold (run_writer set_file_mtime) ws F)"
  using assms(2)
proof (induction ws arbitrary: F)
  case Nil
  then show ?case by simp
next
  case (Cons w ws)
  let ?F = "run_writer set_file_mtime w F"
  have "same_except {resolve F (wt_path w), resolve F (tmp_file (wt_path w))} F ?F"
    unfolding run_writer_def by (rule delta_writer_same[OF prod.collapse[symmetric] assms(1)])
  moreover have "{resolve F (wt_path w), resolve F (tmp_file (wt_path w))} \<subseteq> inside F root"
    using below_inside Cons.prems by simp
  ultimately have F: "same_except (inside F root) F ?F" by (rule same_except_mono)
  have "same_except (inside ?F root) ?F (fold (run_writer set_file_mtime) ws ?F)"
    using Cons by simp
  then show ?case using F inside_same[OF F] by (simp add: same_except_trans)
qed

subsection \<open>Streams of deltas\<close>

lemma stream_loop_delta:
  assumes "st_writer h = Some w" "wt_lifetime w = None"
  shows "stream_loop F clean blake3 send config life (Inr (delta_message d) # ms) h =
    stream_loop F clean blake3 send config life ms
      (h\<lparr>st_writer := Some (w\<lparr>wt_deltas := wt_deltas w @ [piece_delta d]\<rparr>)\<rparr>)"
  using assms
  by (simp add: delta_message_def delta_request_def request_def handle_sync_payload_def writer_send_def piece_delta_def)

lemma stream_loop_deltas:
  assumes "st_writer h = Some w" "wt_lifetime w = None"
  shows "stream_loop F clean blake3 send config life (map (\<lambda>d. Inr (delta_message d)) ds @ ms) h =
    stream_loop F clean blake3 send config life ms
      (h\<lparr>st_writer := Some (w\<lparr>wt_deltas := wt_deltas w @ map piece_delta ds\<rparr>)\<rparr>)"
  using assms
proof (induction ds arbitrary: h w)
  case Nil
  then have "h\<lparr>st_writer := Some w\<rparr> = h" by (cases h) simp
  then show ?case by simp
next
  case (Cons d ds)
  have "stream_loop F clean blake3 send config life (Inr (delta_message d) # map (\<lambda>d. Inr (delta_message d)) ds @ ms) h =
    stream_loop F clean blake3 send config life (map (\<lambda>d. Inr (delta_message d)) ds @ ms)
      (h\<lparr>st_writer := Some (w\<lparr>wt_deltas := wt_deltas w @ [piece_delta d]\<rparr>)\<rparr>)"
    using stream_loop_delta[OF Cons.prems] by simp
  also have "\<dots> = stream_loop F clean blake3 send config life ms
      (h\<lparr>st_writer := Some (w\<lparr>wt_deltas := wt_deltas w @ map piece_delta (d # ds)\<rparr>)\<rparr>)"
    by (subst Cons.IH[where w = "w\<lparr>wt_deltas := wt_deltas w @ [piece_delta d]\<rparr>"]) (use Cons.prems in simp_all)
  finally show ?case by (simp only: list.map append_Cons)
qed

end
