(* ===== verification/Server_Session.thy ===== *)
theory Server_Session
  imports Payload_Handler
begin

section \<open>The server\<close>

text \<open>
  Models src/bin/server.rs: the table of sessions and the two calls of the service.
  \<open>harmonize_client_initiate_sync\<close> makes a plan for a client and stores it under the
  client's uuid; \<open>harmonize_sync_request\<close> checks that the session exists and starts a
  task that handles the messages of the stream (\<open>stream_loop\<close> and \<open>end_stream\<close>
  of Payload_Handler on a fresh state).

  Parameters: \<open>uuid_from_str\<close> is the parser of the uuid crate (its value as the canonical
  string), \<open>micros_ok\<close> whether chrono's \<open>DateTime::from_timestamp_micros\<close> has a
  value, \<open>now_micros\<close> the clock; \<open>state_now\<close> is the result of \<open>generate_state\<close> on
  the sync directory (see State_Files).
\<close>

datatype status = InvalidArgument | Internal | StatusNotFound | PermissionDeniedStatus | DeadlineExceeded

record SessionData =
  sd_timestamp_micros :: i64
  sd_local_state :: SyncState
  sd_sync_plan :: "FileAction list"

record HarmonicService =
  sync_sessions :: "string \<rightharpoonup> SessionData"
  service_config :: Config

definition harmonize_client_initiate_sync ::
    "(string \<Rightarrow> string option) \<Rightarrow> (i64 \<Rightarrow> bool) \<Rightarrow> i64 \<Rightarrow> SyncState outcome \<Rightarrow> ClientSyncState \<Rightarrow>
     HarmonicService \<Rightarrow> HarmonicService \<times> (status + ServerSyncStateResponse)" where
  "harmonize_client_initiate_sync uuid_from_str micros_ok now_micros state request_message S =
     (if \<not> micros_ok (cs_timestamp_last_sync_micro request_message) then (S, Inl InvalidArgument)
      else case state of
        Inl _ \<Rightarrow> (S, Inl Internal)
      | Inr state_now \<Rightarrow>
          (case generate_sync_plan state_now (cs_status_list request_message) of
             Inl _ \<Rightarrow> (S, Inl Internal)
           | Inr sync_plan \<Rightarrow>
               (case uuid_from_str (cs_sync_uuid request_message) of
                  None \<Rightarrow> (S, Inl InvalidArgument)
                | Some uuid \<Rightarrow>
                    (S\<lparr>sync_sessions := (sync_sessions S)(uuid \<mapsto>
                       \<lparr>sd_timestamp_micros = now_micros, sd_local_state = state_now, sd_sync_plan = sync_plan\<rparr>)\<rparr>,
                     Inr \<lparr>sr_sync_uuid = cs_sync_uuid request_message, sr_timestamp_micro = now_micros,
                          sr_sync_plan = sync_plan\<rparr>))))"

text \<open>The check of a stream's metadata: \<open>header\<close> is the value of \<open>session-uuid\<close>
  when it is there and is text.\<close>

definition check_session ::
    "(string \<Rightarrow> string option) \<Rightarrow> string option \<Rightarrow> HarmonicService \<Rightarrow> status + unit" where
  "check_session uuid_from_str header S =
     (case Option.bind header uuid_from_str of
        None \<Rightarrow> Inl InvalidArgument
      | Some uuid \<Rightarrow> (case sync_sessions S uuid of None \<Rightarrow> Inl StatusNotFound | Some _ \<Rightarrow> Inr ()))"

text \<open>A stream, from its first item to the end of its writers: the replies that were sent, the
  file system it leaves, how it ended.\<close>

definition serve_stream ::
    "file_system \<Rightarrow> (PathBuf \<Rightarrow> PathBuf) \<Rightarrow> (byte list \<Rightarrow> byte list) \<Rightarrow>
     (file_system \<Rightarrow> PathBuf \<Rightarrow> mtime \<Rightarrow> io_error + file_system) \<Rightarrow> Config \<Rightarrow> (PathBuf \<Rightarrow> nat option) \<Rightarrow>
     (unit + SyncRequest) list \<Rightarrow> channel \<Rightarrow> (SyncRequest list \<times> file_system \<times> unit outcome) option" where
  "serve_stream F clean blake3 set_file_mtime config life ms tx =
     (case stream_loop F clean blake3 channel_send config life ms (new_stream tx) of
        None \<Rightarrow> None
      | Some (h, r) \<Rightarrow> Some (accepted (st_sink h), end_stream set_file_mtime h F, r))"

definition harmonize_sync_request ::
    "(string \<Rightarrow> string option) \<Rightarrow> string option \<Rightarrow> HarmonicService \<Rightarrow>
     file_system \<Rightarrow> (PathBuf \<Rightarrow> PathBuf) \<Rightarrow> (byte list \<Rightarrow> byte list) \<Rightarrow>
     (file_system \<Rightarrow> PathBuf \<Rightarrow> mtime \<Rightarrow> io_error + file_system) \<Rightarrow> (PathBuf \<Rightarrow> nat option) \<Rightarrow>
     (unit + SyncRequest) list \<Rightarrow> channel \<Rightarrow> status + (SyncRequest list \<times> file_system \<times> unit outcome) option" where
  "harmonize_sync_request uuid_from_str header S F clean blake3 set_file_mtime life ms tx =
     (case check_session uuid_from_str header S of
        Inl e \<Rightarrow> Inl e
      | Inr _ \<Rightarrow> Inr (serve_stream F clean blake3 set_file_mtime (service_config S) life ms tx))"

subsection \<open>Upload streams\<close>

definition file_action_message :: "FileAction \<Rightarrow> SyncRequest" where
  "file_action_message a = request (FileActionP a)"

text \<open>The server's answer to an upload: it signs its version and starts a writer.\<close>

lemma handle_upload:
  assumes "fa_direction a = direction_i32 Upload"
    and "generate_blocks_signatures F clean blake3 (fa_path a) (sync_path config) (config_block_size config) = Inr (sig, cache)"
    and "get_absolute_path clean (fa_path a) (sync_path config) = Inr q" "lifetime tx = None"
  shows "handle_file_action F clean blake3 channel_send config life a (new_stream tx) =
    (\<lparr>st_sink = tx\<lparr>accepted := accepted tx @ [request (Signatures sig)]\<rparr>, st_file_path = fa_path a,
      st_writer = Some (spawn_writer q cache (unwrap_or_default (fa_timestamp_latest_modified a)) (life q)),
      st_dropped = []\<rparr>, Inr Continue)"
  using assms
  by (simp add: handle_file_action_def send_block_signatures_for_file_def channel_send_open new_stream_def
      set_writer_def Let_def)

text \<open>An upload whose deltas are followed by anything that ends the stream.\<close>

lemma serve_upload:
  assumes "fa_direction a = direction_i32 Upload"
    and "generate_blocks_signatures F clean blake3 (fa_path a) (sync_path config) (config_block_size config) = Inr (sig, cache)"
    and "get_absolute_path clean (fa_path a) (sync_path config) = Inr q" "lifetime tx = None" "life q = None"
    and h: "h = \<lparr>st_sink = tx\<lparr>accepted := accepted tx @ [request (Signatures sig)]\<rparr>, st_file_path = fa_path a,
      st_writer = Some \<lparr>wt_path = q, wt_cache = cache,
        wt_modified_ts = unwrap_or_default (fa_timestamp_latest_modified a),
        wt_deltas = map piece_delta ps, wt_lifetime = None\<rparr>, st_dropped = []\<rparr>"
  shows "stream_loop F clean blake3 channel_send config life
      (Inr (file_action_message a) # map (\<lambda>d. Inr (delta_message d)) ps @ ms) (new_stream tx) =
    stream_loop F clean blake3 channel_send config life ms h"
proof -
  let ?h1 = "h\<lparr>st_writer := Some (spawn_writer q cache (unwrap_or_default (fa_timestamp_latest_modified a)) None)\<rparr>"
  have "stream_loop F clean blake3 channel_send config life
      (Inr (file_action_message a) # map (\<lambda>d. Inr (delta_message d)) ps @ ms) (new_stream tx) =
    stream_loop F clean blake3 channel_send config life (map (\<lambda>d. Inr (delta_message d)) ps @ ms) ?h1"
    using handle_upload[OF assms(1-4)] assms(5)
    by (simp add: file_action_message_def request_def handle_sync_payload_def h)
  also have "\<dots> = stream_loop F clean blake3 channel_send config life ms h"
    by (subst stream_loop_deltas[where w = "spawn_writer q cache (unwrap_or_default (fa_timestamp_latest_modified a)) None"])
      (simp_all add: h spawn_writer_def)
  finally show ?thesis .
qed

text \<open>The writer of such a stream.\<close>

lemma end_upload:
  assumes "mtime_setter set_file_mtime" "writable_name q f" "can_replace F q"
    and "contiguous cache 0 ps" "indices_ok cache ps" "length (pieces_bytes cache ps) < 2 ^ 63"
    and "stream_writers h = [\<lparr>wt_path = q, wt_cache = cache, wt_modified_ts = ts,
        wt_deltas = map piece_delta ps, wt_lifetime = None\<rparr>]"
  shows "contents (end_stream set_file_mtime h F) q = Some (pieces_bytes cache ps)"
proof -
  obtain F' m where "delta_writer set_file_mtime q cache ts (map piece_delta ps) F = (F', Inr ())"
      "nodes F' (resolve F q) = Some (File (pieces_bytes cache ps) m)"
      "same_except {resolve F q, resolve F (tmp_file q)} F F'"
    using delta_writer_pieces[OF assms(1-6)] by blast
  then show ?thesis
    by (simp add: end_stream_def assms(7) run_writer_def contents_def same_except_resolve)
qed

subsection \<open>Properties\<close>

lemma serve_stream_inside:
  assumes "path_cleaner clean" "sync_path config \<noteq> []" "is_dir F (resolve F (sync_path config))"
    "fault F (resolve F (sync_path config)) = None" "mtime_setter set_file_mtime"
    and "serve_stream F clean blake3 set_file_mtime config life ms tx = Some (replies, F', r)"
  shows "same_except (inside F (sync_path config)) F F'"
proof -
  obtain h where h: "stream_loop F clean blake3 channel_send config life ms (new_stream tx) = Some (h, r)"
    and F': "F' = end_stream set_file_mtime h F"
    using assms(6) by (auto simp: serve_stream_def split: option.splits)
  have "writers_below (sync_path config) (new_stream tx)"
    by (simp add: writers_below_def new_stream_def stream_writers_def)
  then have "writers_below (sync_path config) h" using stream_loop_below[OF assms(1-4) h] by simp
  then show ?thesis
    unfolding F' end_stream_def writers_below_def by (rule run_writers_inside[OF assms(5)])
qed

text \<open>Whatever a client sends on a stream (any paths, any deltas, in any order, with any
  ending), the server changes nothing outside its sync directory: every node of the file system
  that is not below the directory is as it was.\<close>

theorem server_writes_stay_inside:
  assumes "path_cleaner clean" "sync_path config \<noteq> []" "is_dir F (resolve F (sync_path config))"
    "fault F (resolve F (sync_path config)) = None" "mtime_setter set_file_mtime"
    and "serve_stream F clean blake3 set_file_mtime config life ms tx = Some (replies, F', r)"
  shows "\<forall>k. (\<exists>names. k = resolve F (sync_path config) @ names) \<or> nodes F' k = nodes F k"
  using serve_stream_inside[OF assms] by (auto simp: same_except_def inside_def)

definition example_config :: Config where
  "example_config = \<lparr>sync_path = ''/srv'', socket_addr = ''[::1]:42069'', schedule_delay = 3600,
     log_level = ''info'', sync_threshold = 20, modify_weight = 2, remove_weight = 5,
     create_weight = 10, config_block_size = 2\<rparr>"

lemma example_config_simps [simp]:
  "sync_path example_config = ''/srv''" "config_block_size example_config = 2"
  by (simp_all add: example_config_def)

lemma example_root: "resolve (example_tree files) ''/srv'' = [''srv'']"
  unfolding resolve_example_tree by code_simp

theorem server_writes_stay_inside_witness:
  "\<exists>replies F' r. serve_stream (example_tree Map.empty) lexical_clean example_hash utimens example_config
      (\<lambda>_. None) [Inr (file_action_message \<lparr>fa_path = ''../f'', fa_direction = 2, fa_timestamp_latest_modified = None\<rparr>)]
      new_channel = Some (replies, F', r) \<and>
    nodes F' [''f''] = nodes (example_tree Map.empty) [''f'']"
proof -
  let ?F = "example_tree Map.empty"
  have "get_absolute_path lexical_clean ''../f'' ''/srv'' = Inl (Err (PathError ''../f''))" by code_simp
  then obtain replies F' r where run: "serve_stream ?F lexical_clean example_hash utimens example_config (\<lambda>_. None)
      [Inr (file_action_message \<lparr>fa_path = ''../f'', fa_direction = 2, fa_timestamp_latest_modified = None\<rparr>)]
      new_channel = Some (replies, F', r)"
    by (simp add: serve_stream_def file_action_message_def request_def handle_sync_payload_def
        handle_file_action_def send_block_signatures_for_file_def generate_blocks_signatures_def new_stream_def Let_def)
  have "is_dir ?F (resolve ?F ''/srv'')" "fault ?F (resolve ?F ''/srv'') = None"
    by (simp_all add: example_root) (simp_all add: example_tree_def is_dir_def)
  then have "\<forall>k. (\<exists>names. k = resolve ?F (sync_path example_config) @ names) \<or> nodes F' k = nodes ?F k"
    by (intro server_writes_stay_inside[OF lexical.path_cleaner_axioms _ _ _ utimens.mtime_setter_axioms run]) simp_all
  then have "nodes F' [''f''] = nodes ?F [''f'']" by (auto simp: example_root dest!: spec[of _ "[''f'']"])
  with run show ?thesis by blast
qed

text \<open>An upload from end to end: the client sends the action, the server answers with the
  signatures of its version, the client's deltas for them follow with \<open>Complete\<close>.  The
  server replies exactly the signatures and \<open>Complete\<close>, and when the stream has ended its
  file has exactly the client's bytes.\<close>

theorem upload_session_stores_file:
  assumes action: "fa_direction a = direction_i32 Upload"
    and signed: "generate_blocks_signatures F clean blake3 (fa_path a) (sync_path config) (config_block_size config) = Inr (sig, cache)"
    and path: "get_absolute_path clean (fa_path a) (sync_path config) = Inr q"
    and new: "fs_read G src = Inr new" "length new < 2 ^ 63"
    and distinguished: "\<forall>c \<in> set cache. \<forall>i. i + unat (config_block_size config) \<le> length new \<longrightarrow>
        blake3 c = blake3 (slice_at new i (unat (config_block_size config))) \<longrightarrow>
        c = slice_at new i (unat (config_block_size config))"
    and small: "length cache \<le> 2 ^ 32"
    and writer: "mtime_setter set_file_mtime" "writable_name q f" "can_replace F q" "life q = None"
    and client: "send_delta_from_block_signatures G blake3 channel_send src sig new_channel = Some (c, Inr ())"
  shows "\<exists>F'. serve_stream F clean blake3 set_file_mtime config life
      (map Inr (file_action_message a # accepted c)) new_channel =
        Some ([request (Signatures sig), request (Complete True)], F', Inr ()) \<and>
    contents F' q = Some new"
proof -
  obtain old where bs: "0 < unat (config_block_size config)" "unat (config_block_size config) \<le> isize_max"
    and sig: "sig = signed blake3 (config_block_size config) old" and cache: "cache = chunks (unat (config_block_size config)) old"
    using generate_blocks_signatures_InrD[OF signed] by blast
  have sep: "strong_separates blake3 (unat (config_block_size config)) old new"
    using distinguished by (simp add: strong_separates_def cache)
  note few = small[unfolded cache]
  let ?ps = "deltas_for blake3 (config_block_size config) old new"
  have c: "c = new_channel\<lparr>accepted := map delta_message ?ps @ [request (Complete True)]\<rparr>"
    using client send_delta_signed[OF new(1) bs, of blake3 channel_send old new_channel]
    by (simp add: sig channel_send_all_open new_channel_def)
  let ?h = "\<lparr>st_sink = new_channel\<lparr>accepted := [request (Signatures sig)]\<rparr>, st_file_path = fa_path a,
      st_writer = Some \<lparr>wt_path = q, wt_cache = cache,
        wt_modified_ts = unwrap_or_default (fa_timestamp_latest_modified a),
        wt_deltas = map piece_delta ?ps, wt_lifetime = None\<rparr>, st_dropped = []\<rparr>"
  let ?h' = "?h\<lparr>st_sink := new_channel\<lparr>accepted := [request (Signatures sig), request (Complete True)]\<rparr>\<rparr>"
  have msgs: "map Inr (file_action_message a # accepted c) =
      Inr (file_action_message a) # map (\<lambda>d. Inr (delta_message d)) ?ps @ [Inr (request (Complete True))]"
    by (simp add: c)
  have "stream_loop F clean blake3 channel_send config life (map Inr (file_action_message a # accepted c)) (new_stream new_channel) =
      stream_loop F clean blake3 channel_send config life [Inr (request (Complete True))] ?h"
    unfolding msgs by (rule serve_upload[where life = life and q = q and tx = new_channel, OF action signed path _ writer(4)]) (simp_all add: new_channel_def)
  also have "\<dots> = Some (?h', Inr ())"
    by (simp add: request_def handle_sync_payload_def channel_send_open new_channel_def)
  finally have "serve_stream F clean blake3 set_file_mtime config life
      (map Inr (file_action_message a # accepted c)) new_channel =
        Some ([request (Signatures sig), request (Complete True)], end_stream set_file_mtime ?h' F, Inr ())"
    by (simp only: serve_stream_def option.case prod.case) simp
  moreover have "contents (end_stream set_file_mtime ?h' F) q = Some (pieces_bytes cache ?ps)"
    using deltas_for_bytes[OF bs(1) sep few] deltas_for_indices[OF bs(1) sep few] new(2)
    by (intro end_upload[OF writer(1-3)]) (simp_all add: cache stream_writers_def)
  ultimately show ?thesis using deltas_for_bytes[OF bs(1) sep few] by (simp add: cache)
qed

lemma example_signed:
  "generate_blocks_signatures (example_tree [''f'' \<mapsto> [1, 2, 3]]) lexical_clean example_hash ''f'' ''/srv'' 2 =
     Inr (signed example_hash 2 [1, 2, 3], chunks 2 [1, 2, 3])"
  unfolding signed_def
  by (subst generate_blocks_signatures_ok[OF example_paths(4) example_read]) (simp_all add: isize_max_def)

definition example_upload :: FileAction where
  "example_upload = \<lparr>fa_path = ''f'', fa_direction = 2, fa_timestamp_latest_modified = None\<rparr>"

theorem upload_session_stores_file_witness:
  "\<exists>(c :: channel) F'. serve_stream (example_tree [''f'' \<mapsto> [1, 2, 3]]) lexical_clean example_hash utimens example_config (\<lambda>_. None)
      (map Inr (file_action_message example_upload # accepted c)) new_channel =
        Some ([request (Signatures (signed example_hash 2 [1, 2, 3])), request (Complete True)], F', Inr ()) \<and>
    contents F' ''/srv/f'' = Some [1, 2, 9, 3]"
proof -
  let ?G = "example_tree [''f'' \<mapsto> [1, 2, 9, 3]]"
  have read: "fs_read ?G ''/srv/f'' = Inr [1, 2, 9, 3]" by (rule example_read) simp
  obtain c where c: "send_delta_from_block_signatures ?G example_hash channel_send ''/srv/f''
      (signed example_hash 2 [1, 2, 3]) new_channel = Some (c, Inr ())"
    using send_delta_signed[OF read, of 2 example_hash channel_send "[1, 2, 3]" new_channel]
    by (simp add: channel_send_all_open new_channel_def isize_max_def)
  have sep: "strong_separates example_hash 2 [1, 2, 3] [1, 2, 9, 3]"
    by (rule strong_separates_example) simp
  have small: "length (chunks 2 [1, 2, 3 :: byte]) \<le> 2 ^ 32" by (simp add: chunks.simps)
  have "\<exists>F'. serve_stream (example_tree [''f'' \<mapsto> [1, 2, 3]]) lexical_clean example_hash utimens example_config (\<lambda>_. None)
      (map Inr (file_action_message example_upload # accepted c)) new_channel =
        Some ([request (Signatures (signed example_hash 2 [1, 2, 3])), request (Complete True)], F', Inr ()) \<and>
    contents F' ''/srv/f'' = Some [1, 2, 9, 3]"
  proof (rule upload_session_stores_file)
    show "generate_blocks_signatures (example_tree [''f'' \<mapsto> [1, 2, 3]]) lexical_clean example_hash (fa_path example_upload)
        (sync_path example_config) (config_block_size example_config) =
      Inr (signed example_hash 2 [1, 2, 3], chunks 2 [1, 2, 3])"
      using example_signed by (simp add: example_upload_def)
    show "\<forall>c \<in> set (chunks 2 [1, 2, 3]). \<forall>i. i + unat (config_block_size example_config) \<le> length [1, 2, 9, 3 :: byte] \<longrightarrow>
        example_hash c = example_hash (slice_at [1, 2, 9, 3] i (unat (config_block_size example_config))) \<longrightarrow>
        c = slice_at [1, 2, 9, 3] i (unat (config_block_size example_config))"
      using sep by (simp add: strong_separates_def)
    show "writable_name ''/srv/f'' ''f''" by (rule example_paths)
  qed (use c read small example_paths(4) example_can_replace utimens.mtime_setter_axioms in \<open>simp_all add: example_upload_def\<close>)
  then show ?thesis by blast
qed

text \<open>C27: An upload that breaks off replaces the file all the same: if the stream ends or fails
  after any number of well-formed deltas (even none), with no \<open>Complete\<close>, dropping the
  writer's sender makes the writer rename what it has over the target, so the server's file is
  cut down to the bytes that happened to arrive.\<close>

theorem interrupted_upload_replaces_target:
  assumes action: "fa_direction a = direction_i32 Upload"
    and signed: "generate_blocks_signatures F clean blake3 (fa_path a) (sync_path config) (config_block_size config) = Inr (sig, cache)"
    and path: "get_absolute_path clean (fa_path a) (sync_path config) = Inr q"
    and ps: "contiguous cache 0 ps" "indices_ok cache ps" "length (pieces_bytes cache ps) < 2 ^ 63"
    and writer: "mtime_setter set_file_mtime" "writable_name q f" "can_replace F q" "life q = None"
    and broken: "ending = [] \<or> ending = [Inl ()]"
  shows "\<exists>F' r. serve_stream F clean blake3 set_file_mtime config life
      (Inr (file_action_message a) # map (\<lambda>d. Inr (delta_message d)) ps @ ending) new_channel =
        Some ([request (Signatures sig)], F', r) \<and>
    contents F' q = Some (pieces_bytes cache ps)"
proof -
  let ?h = "\<lparr>st_sink = new_channel\<lparr>accepted := [request (Signatures sig)]\<rparr>, st_file_path = fa_path a,
      st_writer = Some \<lparr>wt_path = q, wt_cache = cache,
        wt_modified_ts = unwrap_or_default (fa_timestamp_latest_modified a),
        wt_deltas = map piece_delta ps, wt_lifetime = None\<rparr>, st_dropped = []\<rparr>"
  have "stream_loop F clean blake3 channel_send config life
      (Inr (file_action_message a) # map (\<lambda>d. Inr (delta_message d)) ps @ ending) (new_stream new_channel) =
      stream_loop F clean blake3 channel_send config life ending ?h"
    by (rule serve_upload[where life = life and q = q and tx = new_channel, OF action signed path _ writer(4)]) (simp_all add: new_channel_def)
  moreover have "\<exists>r. stream_loop F clean blake3 channel_send config life ending ?h = Some (?h, r)"
    using broken by auto
  ultimately obtain r where "serve_stream F clean blake3 set_file_mtime config life
      (Inr (file_action_message a) # map (\<lambda>d. Inr (delta_message d)) ps @ ending) new_channel =
        Some ([request (Signatures sig)], end_stream set_file_mtime ?h F, r)"
    by (auto simp: serve_stream_def)
  moreover have "contents (end_stream set_file_mtime ?h F) q = Some (pieces_bytes cache ps)"
    by (intro end_upload[OF writer(1-3) ps]) (simp add: stream_writers_def)
  ultimately show ?thesis by blast
qed

theorem interrupted_upload_replaces_target_witness:
  "contents (example_tree [''f'' \<mapsto> [1, 2, 3]]) ''/srv/f'' = Some [1, 2, 3] \<and>
   (\<exists>replies F' r. serve_stream (example_tree [''f'' \<mapsto> [1, 2, 3]]) lexical_clean example_hash utimens example_config
      (\<lambda>_. None) [Inr (file_action_message example_upload), Inl ()] new_channel = Some (replies, F', r) \<and>
    contents F' ''/srv/f'' = Some [])"
proof
  show "contents (example_tree [''f'' \<mapsto> [1, 2, 3]]) ''/srv/f'' = Some [1, 2, 3]"
    by (simp add: contents_def example_paths) (simp add: example_tree_def)
  have "\<exists>F' r. serve_stream (example_tree [''f'' \<mapsto> [1, 2, 3]]) lexical_clean example_hash utimens example_config
      (\<lambda>_. None) (Inr (file_action_message example_upload) # map (\<lambda>d. Inr (delta_message d)) [] @ [Inl ()]) new_channel =
        Some ([request (Signatures (signed example_hash 2 [1, 2, 3]))], F', r) \<and>
      contents F' ''/srv/f'' = Some (pieces_bytes (chunks 2 [1, 2, 3]) [])"
    by (rule interrupted_upload_replaces_target[OF _ _ _ _ _ _ utimens.mtime_setter_axioms example_paths(5) example_can_replace])
      (use example_signed example_paths(4) in \<open>simp_all add: example_upload_def indices_ok_def\<close>)
  then show "\<exists>replies F' r. serve_stream (example_tree [''f'' \<mapsto> [1, 2, 3]]) lexical_clean example_hash utimens example_config
      (\<lambda>_. None) [Inr (file_action_message example_upload), Inl ()] new_channel = Some (replies, F', r) \<and>
    contents F' ''/srv/f'' = Some []"
    by auto
qed

text \<open>Initiating a sync: when it succeeds, the response has the plan for the server's current
  files and the client's list, and from then on exactly that session is accepted (besides those
  that were); when it fails, the table of sessions is unchanged.\<close>

theorem initiate_sync_opens_session:
  assumes "harmonize_client_initiate_sync uuid_from_str micros_ok now state msg S = (S', r)"
  shows "case r of
      Inl e \<Rightarrow> S' = S \<and> e \<noteq> StatusNotFound
    | Inr resp \<Rightarrow> \<exists>uuid st. uuid_from_str (cs_sync_uuid msg) = Some uuid \<and> state = Inr st \<and>
        generate_sync_plan st (cs_status_list msg) = Inr (sr_sync_plan resp) \<and>
        sr_sync_uuid resp = cs_sync_uuid msg \<and>
        (\<forall>header. check_session uuid_from_str header S' = Inr () \<longleftrightarrow>
           Option.bind header uuid_from_str = Some uuid \<or> check_session uuid_from_str header S = Inr ())"
  using assms
  by (auto simp: harmonize_client_initiate_sync_def check_session_def split: if_splits sum.splits option.splits)

theorem initiate_sync_opens_session_witness:
  "\<exists>S' resp. harmonize_client_initiate_sync Some (\<lambda>_. True) 5
      (Inr \<lparr>last_sync_timestamp_micros = 5, tree = []\<rparr>)
      \<lparr>cs_sync_uuid = ''u'', cs_timestamp_last_sync_micro = 0, cs_status_list = []\<rparr>
      \<lparr>sync_sessions = Map.empty, service_config = example_config\<rparr> = (S', Inr resp) \<and>
    sr_sync_plan resp = [] \<and> check_session Some (Some ''u'') S' = Inr ()"
proof -
  let ?S = "\<lparr>sync_sessions = Map.empty, service_config = example_config\<rparr>"
  let ?st = "\<lparr>last_sync_timestamp_micros = 5, tree = []\<rparr> :: SyncState"
  let ?msg = "\<lparr>cs_sync_uuid = ''u'', cs_timestamp_last_sync_micro = 0, cs_status_list = []\<rparr>"
  have plan: "generate_sync_plan ?st [] = Inr []" by code_simp
  then obtain S' resp where run: "harmonize_client_initiate_sync Some (\<lambda>_. True) 5 (Inr ?st) ?msg ?S = (S', Inr resp)"
    by (simp add: harmonize_client_initiate_sync_def)
  from initiate_sync_opens_session[OF run] plan run show ?thesis by auto
qed

end
