(* ===== verification/Client_Sync.thy ===== *)
theory Client_Sync
  imports Server_Session
begin

section \<open>The client\<close>

text \<open>
  Models \<open>sync_file\<close> of src/bin/client.rs, the transfer of one planned file.  The loop over
  the server's responses is the one of Payload_Handler; the other parts of the client are in
  Sync_Pool, Sync_Run, Client_Schedule and Bootstrap.
\<close>

subsection \<open>One file\<close>

text \<open>For a download the client first sends the signatures of what it has.  Errors of this step
  are dropped (\<open>let _ = ..\<close>); only a panic of the task is not.\<close>

definition send_own_signatures ::
    "file_system \<Rightarrow> (PathBuf \<Rightarrow> PathBuf) \<Rightarrow> (byte list \<Rightarrow> byte list) \<Rightarrow> (SyncRequest \<Rightarrow> 's \<Rightarrow> 's \<times> unit outcome) \<Rightarrow>
     Config \<Rightarrow> PathBuf \<Rightarrow> PathBuf \<Rightarrow> 's \<Rightarrow> 's \<times> unit outcome" where
  "send_own_signatures F clean blake3 send config file_path abs_file_path s =
     (if fs_exists F abs_file_path then
        (case send_block_signatures_for_file F clean blake3 send file_path (sync_path config) (config_block_size config) s of
           (s', Inl Panic) \<Rightarrow> (s', Inl Panic)
         | (s', _) \<Rightarrow> (s', Inr ()))
      else
        (case send (request (Signatures \<lparr>block_size = config_block_size config, blocks = []\<rparr>)) s of
           (s', _) \<Rightarrow> (s', Inr ())))"

text \<open>Then it starts a writer on \<open>sync_path.join(path)\<close>; a failure to sign counts as an
  empty cache.\<close>

definition open_writer ::
    "file_system \<Rightarrow> (PathBuf \<Rightarrow> PathBuf) \<Rightarrow> (byte list \<Rightarrow> byte list) \<Rightarrow> Config \<Rightarrow> (PathBuf \<Rightarrow> nat option) \<Rightarrow>
     FileAction \<Rightarrow> PathBuf \<Rightarrow> PathBuf \<Rightarrow> writer_task outcome" where
  "open_writer F clean blake3 config life action file_path abs_file_path =
     (let ts = unwrap_or_default (fa_timestamp_latest_modified action);
          spawn = (\<lambda>cache. spawn_writer abs_file_path cache ts (life abs_file_path))
      in if fs_exists F abs_file_path then
           (case generate_blocks_signatures F clean blake3 file_path (sync_path config) (config_block_size config) of
              Inl Panic \<Rightarrow> Inl Panic
            | Inl _ \<Rightarrow> Inr (spawn [])
            | Inr (_, cache) \<Rightarrow> Inr (spawn cache))
         else Inr (spawn []))"

definition sync_file_open ::
    "file_system \<Rightarrow> (PathBuf \<Rightarrow> PathBuf) \<Rightarrow> (byte list \<Rightarrow> byte list) \<Rightarrow> (SyncRequest \<Rightarrow> 's \<Rightarrow> 's \<times> unit outcome) \<Rightarrow>
     Config \<Rightarrow> (PathBuf \<Rightarrow> nat option) \<Rightarrow> FileAction \<Rightarrow> 's \<Rightarrow> 's stream_state \<times> unit outcome" where
  "sync_file_open F clean blake3 send config life action tx =
     (let file_path = fa_path action;
          abs_file_path = path_join (sync_path config) file_path;
          h = (\<lambda>s w. \<lparr>st_sink = s, st_file_path = file_path, st_writer = w, st_dropped = []\<rparr>)
      in case send (file_action_message action) tx of
           (s1, Inl _) \<Rightarrow> (h s1 None, Inl (Err SendError))
         | (s1, Inr _) \<Rightarrow>
             if fa_direction action = direction_i32 Download then
               (case send_own_signatures F clean blake3 send config file_path abs_file_path s1 of
                  (s2, Inl e) \<Rightarrow> (h s2 None, Inl e)
                | (s2, Inr _) \<Rightarrow>
                    (case open_writer F clean blake3 config life action file_path abs_file_path of
                       Inl e \<Rightarrow> (h s2 None, Inl e)
                     | Inr w \<Rightarrow> (h s2 (Some w), Inr ())))
             else (h s1 None, Inr ()))"

text \<open>The whole transfer, given the items of the response stream: what the client sent, the
  file system after its writers, how it ended.\<close>

definition sync_file ::
    "file_system \<Rightarrow> (PathBuf \<Rightarrow> PathBuf) \<Rightarrow> (byte list \<Rightarrow> byte list) \<Rightarrow>
     (file_system \<Rightarrow> PathBuf \<Rightarrow> mtime \<Rightarrow> io_error + file_system) \<Rightarrow> Config \<Rightarrow> (PathBuf \<Rightarrow> nat option) \<Rightarrow>
     FileAction \<Rightarrow> (unit + SyncRequest) list \<Rightarrow> channel \<Rightarrow> (SyncRequest list \<times> file_system \<times> unit outcome) option" where
  "sync_file F clean blake3 set_file_mtime config life action responses tx =
     (case sync_file_open F clean blake3 channel_send config life action tx of
        (h, Inl e) \<Rightarrow> Some (accepted (st_sink h), end_stream set_file_mtime h F, Inl e)
      | (h, Inr _) \<Rightarrow>
          (case stream_loop F clean blake3 channel_send config life responses h of
             None \<Rightarrow> None
           | Some (h', r) \<Rightarrow> Some (accepted (st_sink h'), end_stream set_file_mtime h' F, r)))"

subsection \<open>The opening of a download\<close>

text \<open>What the client has of a file: its contents, or nothing when there is no file.\<close>

definition own_version :: "file_system \<Rightarrow> PathBuf \<Rightarrow> byte list \<Rightarrow> bool" where
  "own_version F q old \<longleftrightarrow> fs_exists F q \<and> fs_read F q = Inr old \<or> \<not> fs_exists F q \<and> old = []"

lemma signed_empty: "signed blake3 bs [] = \<lparr>block_size = bs, blocks = []\<rparr>" "chunks n [] = []"
  by (simp_all add: signed_def signatures_of_def chunks.simps)

lemma open_download:
  assumes "fa_direction a = direction_i32 Download"
    and path: "get_absolute_path clean (fa_path a) (sync_path config) = Inr q" "path_join (sync_path config) (fa_path a) = q"
    and bs: "0 < unat (config_block_size config)" "unat (config_block_size config) \<le> isize_max"
    and own: "own_version F q old" and "lifetime tx = None" "life q = None"
  shows "sync_file_open F clean blake3 channel_send config life a tx =
    (\<lparr>st_sink = tx\<lparr>accepted := accepted tx @ [file_action_message a, request (Signatures (signed blake3 (config_block_size config) old))]\<rparr>,
      st_file_path = fa_path a,
      st_writer = Some \<lparr>wt_path = q, wt_cache = chunks (unat (config_block_size config)) old,
        wt_modified_ts = unwrap_or_default (fa_timestamp_latest_modified a), wt_deltas = [], wt_lifetime = None\<rparr>,
      st_dropped = []\<rparr>, Inr ())"
proof -
  let ?sig = "signed blake3 (config_block_size config) old"
  let ?tx = "tx\<lparr>accepted := accepted tx @ [file_action_message a]\<rparr>"
  have gen: "generate_blocks_signatures F clean blake3 (fa_path a) (sync_path config) (config_block_size config) =
      Inr (?sig, chunks (unat (config_block_size config)) old)" if "fs_read F q = Inr old"
    using generate_blocks_signatures_ok[OF path(1) that bs] by (simp add: signed_def)
  have sigs: "send_own_signatures F clean blake3 channel_send config (fa_path a) q ?tx =
      (?tx\<lparr>accepted := accepted ?tx @ [request (Signatures ?sig)]\<rparr>, Inr ())"
    using own gen assms(7)
    by (auto simp: send_own_signatures_def own_version_def send_block_signatures_for_file_def channel_send_open signed_empty)
  have "open_writer F clean blake3 config life a (fa_path a) q =
      Inr \<lparr>wt_path = q, wt_cache = chunks (unat (config_block_size config)) old,
        wt_modified_ts = unwrap_or_default (fa_timestamp_latest_modified a), wt_deltas = [], wt_lifetime = None\<rparr>"
    using own gen assms(8)
    by (auto simp: open_writer_def own_version_def spawn_writer_def signed_empty Let_def)
  with sigs show ?thesis
    using assms(1,7) by (simp add: sync_file_open_def path(2) channel_send_open Let_def)
qed

text \<open>The client's loop over deltas and the final \<open>Complete\<close>.\<close>

lemma receive_download:
  assumes "st_writer h = Some w" "wt_lifetime w = None" "wt_deltas w = []" "lifetime (st_sink h) = None"
  shows "stream_loop F clean blake3 channel_send config life
      (map (\<lambda>d. Inr (delta_message d)) ps @ Inr (request (Complete b)) # ms) h =
    Some (h\<lparr>st_sink := (st_sink h)\<lparr>accepted := accepted (st_sink h) @ [request (Complete True)]\<rparr>,
            st_writer := Some (w\<lparr>wt_deltas := map piece_delta ps\<rparr>)\<rparr>, Inr ())"
proof -
  have "payload (request (Complete b)) = Some (Complete b)" by (simp add: request_def)
  then show ?thesis
    using assms
    by (subst stream_loop_deltas[where w = w]) (simp_all add: handle_sync_payload_def channel_send_open)
qed

text \<open>What the server sends for a download: the deltas of its version, and \<open>Complete\<close> twice
  (once by the sender of the deltas, once as the answer to the client's).\<close>

lemma serve_download:
  assumes "fa_direction a = direction_i32 Download"
    and path: "get_absolute_path clean (fa_path a) (sync_path config) = Inr src"
    and new: "fs_read S src = Inr new" and bs: "0 < unat bs" "unat bs \<le> isize_max"
  shows "serve_stream S clean blake3 set_file_mtime config life
      (map Inr [file_action_message a, request (Signatures (signed blake3 bs old)), request (Complete b)]) new_channel =
    Some (map delta_message (deltas_for blake3 bs old new) @ [request (Complete True), request (Complete True)], S, Inr ())"
proof -
  let ?ms = "map delta_message (deltas_for blake3 bs old new) @ [request (Complete True)]"
  let ?h = "\<lambda>s. \<lparr>st_sink = s, st_file_path = fa_path a, st_writer = None, st_dropped = []\<rparr>"
  have send: "send_delta_from_block_signatures S blake3 channel_send src (signed blake3 bs old) new_channel =
      Some (new_channel\<lparr>accepted := ?ms\<rparr>, Inr ())"
    using send_delta_signed[OF new bs, of blake3 channel_send old new_channel]
    by (simp add: channel_send_all_open new_channel_def)
  have "stream_loop S clean blake3 channel_send config life
      (map Inr [file_action_message a, request (Signatures (signed blake3 bs old)), request (Complete b)]) (new_stream new_channel) =
    stream_loop S clean blake3 channel_send config life
      [Inr (request (Signatures (signed blake3 bs old))), Inr (request (Complete b))] (?h new_channel)"
    using assms(1) by (simp add: file_action_message_def request_def handle_sync_payload_def handle_file_action_def new_stream_def)
  also have "\<dots> = stream_loop S clean blake3 channel_send config life [Inr (request (Complete b))] (?h (new_channel\<lparr>accepted := ?ms\<rparr>))"
    using path send by (simp add: request_def handle_sync_payload_def)
  also have "\<dots> = Some (?h (new_channel\<lparr>accepted := ?ms @ [request (Complete True)]\<rparr>), Inr ())"
    by (simp add: request_def handle_sync_payload_def channel_send_open new_channel_def)
  finally show ?thesis by (simp add: serve_stream_def end_stream_def stream_writers_def)
qed

subsection \<open>Properties\<close>

text \<open>C7: A download from end to end: what the client sends on its stream, and what the server
  answers to exactly that, fit together: the client sends the action, the signatures of its own
  version (or of no version) and \<open>Complete\<close>, the server replies with the deltas and
  \<open>Complete\<close> and changes nothing, and the client's file then has exactly the server's
  bytes.\<close>

theorem download_session_replaces_file:
  assumes action: "fa_direction a = direction_i32 Download"
    and client_path: "get_absolute_path clean (fa_path a) (sync_path config) = Inr q"
      "path_join (sync_path config) (fa_path a) = q"
    and server_path: "get_absolute_path clean (fa_path a) (sync_path server_config) = Inr src"
    and new: "fs_read S src = Inr new" "length new < 2 ^ 63"
    and bs: "0 < unat (config_block_size config)" "unat (config_block_size config) \<le> isize_max"
    and own: "own_version F q old"
    and distinguished: "strong_separates blake3 (unat (config_block_size config)) old new"
    and small: "length (chunks (unat (config_block_size config)) old) \<le> 2 ^ 32"
    and writer: "mtime_setter set_file_mtime" "writable_name q f" "can_replace F q" "life q = None"
  shows "\<exists>sent replies F'.
    serve_stream S clean blake3 set_file_mtime server_config server_life (map Inr sent) new_channel =
      Some (replies, S, Inr ()) \<and>
    sync_file F clean blake3 set_file_mtime config life a (map Inr replies) new_channel = Some (sent, F', Inr ()) \<and>
    contents F' q = Some new"
proof -
  let ?bs = "config_block_size config"
  let ?ps = "deltas_for blake3 ?bs old new"
  let ?sent = "[file_action_message a, request (Signatures (signed blake3 ?bs old)), request (Complete True)]"
  let ?replies = "map delta_message ?ps @ [request (Complete True), request (Complete True)]"
  have served: "serve_stream S clean blake3 set_file_mtime server_config server_life (map Inr ?sent) new_channel =
      Some (?replies, S, Inr ())"
    by (rule serve_download[OF action server_path new(1) bs])
  let ?w = "\<lparr>wt_path = q, wt_cache = chunks (unat ?bs) old,
      wt_modified_ts = unwrap_or_default (fa_timestamp_latest_modified a), wt_deltas = [], wt_lifetime = None\<rparr>"
  let ?h = "\<lparr>st_sink = new_channel\<lparr>accepted := [file_action_message a, request (Signatures (signed blake3 ?bs old))]\<rparr>,
      st_file_path = fa_path a, st_writer = Some ?w, st_dropped = []\<rparr>"
  have opened: "sync_file_open F clean blake3 channel_send config life a new_channel = (?h, Inr ())"
    using open_download[where tx = new_channel and life = life and q = q, OF action client_path bs own _ writer(4)]
    by (simp add: new_channel_def)
  let ?h' = "?h\<lparr>st_sink := new_channel\<lparr>accepted := ?sent\<rparr>, st_writer := Some (?w\<lparr>wt_deltas := map piece_delta ?ps\<rparr>)\<rparr>"
  have replies: "map Inr ?replies = map (\<lambda>d. Inr (delta_message d)) ?ps @ Inr (request (Complete True)) # [Inr (request (Complete True))]"
    by simp
  have "stream_loop F clean blake3 channel_send config life (map Inr ?replies) ?h = Some (?h', Inr ())"
    unfolding replies by (subst receive_download[where w = ?w]) (simp_all add: new_channel_def)
  then have synced: "sync_file F clean blake3 set_file_mtime config life a (map Inr ?replies) new_channel =
      Some (?sent, end_stream set_file_mtime ?h' F, Inr ())"
    by (simp only: sync_file_def opened prod.case sum.case option.case) simp
  have "contents (end_stream set_file_mtime ?h' F) q = Some (pieces_bytes (chunks (unat ?bs) old) ?ps)"
    using deltas_for_bytes[OF bs(1) distinguished small] deltas_for_indices[OF bs(1) distinguished small] new(2)
    by (intro end_upload[OF writer(1-3)]) (simp_all add: stream_writers_def)
  then have "contents (end_stream set_file_mtime ?h' F) q = Some new"
    by (simp only: deltas_for_bytes(1)[OF bs(1) distinguished small])
  with served synced show ?thesis by blast
qed

definition example_download :: FileAction where
  "example_download = \<lparr>fa_path = ''f'', fa_direction = 1, fa_timestamp_latest_modified = None\<rparr>"

theorem download_session_replaces_file_witness:
  "\<exists>sent replies F'.
    serve_stream (example_tree [''f'' \<mapsto> [1, 2, 9, 3]]) lexical_clean example_hash utimens example_config (\<lambda>_. None)
      (map Inr sent) new_channel = Some (replies, example_tree [''f'' \<mapsto> [1, 2, 9, 3]], Inr ()) \<and>
    sync_file (example_tree [''f'' \<mapsto> [1, 2, 3]]) lexical_clean example_hash utimens example_config (\<lambda>_. None)
      example_download (map Inr replies) new_channel = Some (sent, F', Inr ()) \<and>
    contents F' ''/srv/f'' = Some [1, 2, 9, 3]"
proof (rule download_session_replaces_file)
  show "get_absolute_path lexical_clean (fa_path example_download) (sync_path example_config) = Inr ''/srv/f''"
    using example_paths(4) by (simp add: example_download_def)
  show "path_join (sync_path example_config) (fa_path example_download) = ''/srv/f''"
    by (simp add: example_download_def) code_simp
  show "fs_read (example_tree [''f'' \<mapsto> [1, 2, 9, 3]]) ''/srv/f'' = Inr [1, 2, 9, 3]"
    by (rule example_read) simp
  have "fs_read (example_tree [''f'' \<mapsto> [1, 2, 3]]) ''/srv/f'' = Inr [1, 2, 3]"
    by (rule example_read) simp
  then show "own_version (example_tree [''f'' \<mapsto> [1, 2, 3]]) ''/srv/f'' [1, 2, 3]"
    by (auto simp: own_version_def fs_exists_def fs_read_Inr Let_def)
  show "strong_separates example_hash (unat (config_block_size example_config)) [1, 2, 3] [1, 2, 9, 3]"
    by (rule strong_separates_example) simp
  show "writable_name ''/srv/f'' ''f''" by (rule example_paths)
qed (simp_all add: example_download_def isize_max_def chunks.simps utimens.mtime_setter_axioms example_can_replace
  flip: example_paths(4))

text \<open>C30: The client trusts the paths of the plan: for an absolute path in a download action, which
  the check of paths refuses, a server that sends deltas writes the file at that path, outside
  the sync directory.\<close>

theorem download_can_leave_sync_directory:
  assumes action: "fa_direction a = direction_i32 Download" "is_absolute (fa_path a)"
    and absent: "\<not> fs_exists F (fa_path a)" "life (fa_path a) = None"
    and bytes: "contiguous [] 0 ps" "indices_ok [] ps" "length (pieces_bytes [] ps) < 2 ^ 63"
    and writer: "mtime_setter set_file_mtime" "writable_name (fa_path a) f" "can_replace F (fa_path a)"
  shows "get_absolute_path clean (fa_path a) (sync_path config) = Inl (Err (PathError (fa_path a))) \<and>
    (\<exists>sent F'. sync_file F clean blake3 set_file_mtime config life a
        (map (\<lambda>d. Inr (delta_message d)) ps @ [Inr (request (Complete True))]) new_channel = Some (sent, F', Inr ()) \<and>
      contents F' (fa_path a) = Some (pieces_bytes [] ps))"
proof
  show "get_absolute_path clean (fa_path a) (sync_path config) = Inl (Err (PathError (fa_path a)))"
    using action(2) by (simp add: get_absolute_path_def)
  let ?sig = "request (Signatures \<lparr>block_size = config_block_size config, blocks = []\<rparr>)"
  let ?w = "\<lparr>wt_path = fa_path a, wt_cache = [], wt_modified_ts = unwrap_or_default (fa_timestamp_latest_modified a),
      wt_deltas = [], wt_lifetime = None\<rparr>"
  let ?h = "\<lparr>st_sink = new_channel\<lparr>accepted := [file_action_message a, ?sig]\<rparr>, st_file_path = fa_path a,
      st_writer = Some ?w, st_dropped = []\<rparr>"
  have "sync_file_open F clean blake3 channel_send config life a new_channel = (?h, Inr ())"
    using action absent
    by (simp add: sync_file_open_def path_join_def send_own_signatures_def open_writer_def spawn_writer_def
        channel_send_open new_channel_def Let_def)
  moreover let ?h' = "?h\<lparr>st_sink := new_channel\<lparr>accepted := [file_action_message a, ?sig, request (Complete True)]\<rparr>,
      st_writer := Some (?w\<lparr>wt_deltas := map piece_delta ps\<rparr>)\<rparr>"
  have "stream_loop F clean blake3 channel_send config life
      (map (\<lambda>d. Inr (delta_message d)) ps @ [Inr (request (Complete True))]) ?h = Some (?h', Inr ())"
    by (subst receive_download[where w = ?w]) (simp_all add: new_channel_def)
  moreover have "contents (end_stream set_file_mtime ?h' F) (fa_path a) = Some (pieces_bytes [] ps)"
    by (rule end_upload[OF writer bytes]) (simp add: stream_writers_def)
  ultimately show "\<exists>sent F'. sync_file F clean blake3 set_file_mtime config life a
        (map (\<lambda>d. Inr (delta_message d)) ps @ [Inr (request (Complete True))]) new_channel = Some (sent, F', Inr ()) \<and>
      contents F' (fa_path a) = Some (pieces_bytes [] ps)"
    by (simp add: sync_file_def)
qed

theorem download_can_leave_sync_directory_witness:
  "\<exists>sent F'. sync_file (example_tree Map.empty) lexical_clean example_hash utimens
      (example_config\<lparr>sync_path := ''/home/me''\<rparr>) (\<lambda>_. None)
      \<lparr>fa_path = ''/srv/f'', fa_direction = 1, fa_timestamp_latest_modified = None\<rparr>
      [Inr (delta_message (0, Literal [6])), Inr (request (Complete True))] new_channel = Some (sent, F', Inr ()) \<and>
    contents F' ''/srv/f'' = Some [6]"
proof -
  have absent: "\<not> fs_exists (example_tree Map.empty) ''/srv/f''"
    by (simp add: fs_exists_def example_paths Let_def) (simp add: example_tree_def is_dir_def)
  have abs: "is_absolute ''/srv/f''" by code_simp
  let ?a = "\<lparr>fa_path = ''/srv/f'', fa_direction = 1, fa_timestamp_latest_modified = None\<rparr>"
  show ?thesis
    using download_can_leave_sync_directory[where a = ?a and life = "\<lambda>_. None" and ps = "[(0, Literal [6])]"
        and F = "example_tree Map.empty" and clean = lexical_clean and ?blake3.0 = example_hash
        and config = "example_config\<lparr>sync_path := ''/home/me''\<rparr>" and set_file_mtime = utimens and f = "''f''"]
      absent abs example_paths(5) example_can_replace[of Map.empty] utimens.mtime_setter_axioms
    by (simp add: indices_ok_def)
qed

end
