(* ===== verification/Sync_Net.thy ===== *)
theory Sync_Net
  imports Client_Sync
begin

section \<open>Client and server, interleaved\<close>

text \<open>
  The transfer of one file as two parties that run at their own speed: each has a stream
  state, reads the messages the other has sent in order, and is done when its loop ends (which
  closes its side).  A step of the net is a step of either party, so a run is any
  interleaving.  The sinks never fail here, and messages of any size arrive (their limit is a
  subject of Bounded_Net); what the parties send is what the channels of their streams accepted.

  The steps of the two parties commute, so the schedule does not matter: if one run ends, all
  runs end in the same state after the same number of steps.  The abstract fact is the
  locale \<open>commuting_steps\<close>.
\<close>

subsection \<open>Commuting steps\<close>

locale commuting_steps =
  fixes move :: "'s \<Rightarrow> 's \<Rightarrow> bool"
  assumes diamond: "move x a \<Longrightarrow> move x b \<Longrightarrow> a = b \<or> (\<exists>c. move a c \<and> move b c)"
begin

lemma move_towards_end:
  assumes "(move ^^ k) x z" "\<nexists>y. move z y" "move x y"
  shows "\<exists>m. k = Suc m \<and> (move ^^ m) y z"
  using assms
proof (induction k arbitrary: x y)
  case 0
  then show ?case by auto
next
  case (Suc k)
  obtain w where w: "move x w" "(move ^^ k) w z" using relpowp_Suc_D2[OF Suc.prems(1)] by blast
  show ?case
  proof (cases "y = w")
    case True
    then show ?thesis using w by blast
  next
    case False
    then obtain c where c: "move y c" "move w c" using diamond[OF Suc.prems(3) w(1)] by blast
    obtain m where m: "k = Suc m" "(move ^^ m) c z" using Suc.IH[OF w(2) Suc.prems(2) c(2)] by blast
    have "(move ^^ Suc m) y z" using relpowp_Suc_I2[OF c(1) m(2)] .
    then show ?thesis using m(1) by blast
  qed
qed

text \<open>If some run ends at \<open>z\<close>, every run is a prefix of a run that ends at \<open>z\<close>, after the
  same number of steps.\<close>

lemma every_run_ends:
  assumes "(move ^^ k) x z" "\<nexists>y. move z y" "(move ^^ j) x y"
  shows "j \<le> k \<and> (move ^^ (k - j)) y z"
  using assms(3)
proof (induction j arbitrary: y)
  case 0
  then show ?case using assms(1) by simp
next
  case (Suc j)
  obtain w where w: "(move ^^ j) x w" "move w y" using relpowp_Suc_E[OF Suc.prems] by blast
  have le: "j \<le> k" and run: "(move ^^ (k - j)) w z" using Suc.IH[OF w(1)] by simp_all
  obtain m where m: "k - j = Suc m" "(move ^^ m) y z"
    using move_towards_end[OF run assms(2) w(2)] by blast
  then show ?case by (metis Suc_diff_Suc Suc_leI nat.inject zero_less_Suc zero_less_diff)
qed

end

subsection \<open>What is sent only grows\<close>

definition grows :: "channel \<Rightarrow> channel \<Rightarrow> bool" where
  "grows c c' \<longleftrightarrow> prefix (accepted c) (accepted c')"

lemma grows_refl [simp]: "grows c c"
  by (simp add: grows_def)

lemma grows_trans: "grows c d \<Longrightarrow> grows d e \<Longrightarrow> grows c e"
  unfolding grows_def by (rule prefix_order.trans)

lemma channel_send_grows: "channel_send m c = (c', r) \<Longrightarrow> grows c c'"
  by (auto simp: channel_send_def grows_def split: option.splits nat.splits)

lemma send_literal_chunks_grows:
  "send_literal_chunks channel_send buf start offset c = (c', r) \<Longrightarrow> grows c c'"
proof (induction "channel_send :: SyncRequest \<Rightarrow> channel \<Rightarrow> channel \<times> unit outcome" buf start offset c
    rule: send_literal_chunks.induct)
  case (1 buf start offset c)
  show ?case
  proof (cases "offset < length buf")
    case True
    let ?n = "min MAX_LITERAL_CHUNK_SIZE (length buf - offset)"
    obtain c1 r1 where c1: "channel_send (delta_request (start + word_of_nat offset)
        (Literal (slice_at buf offset ?n))) c = (c1, r1)" by fastforce
    have g: "grows c c1" using channel_send_grows[OF c1] .
    show ?thesis
    proof (cases r1)
      case (Inl e)
      then show ?thesis using 1(2) True c1 g by (subst (asm) send_literal_chunks.simps) (simp add: Let_def)
    next
      case (Inr u)
      then have "send_literal_chunks channel_send buf start (offset + ?n) c1 = (c', r)"
        using 1(2) True c1 by (subst (asm) send_literal_chunks.simps) (simp add: Let_def)
      then have "grows c1 c'" using 1(1)[OF True refl refl c1[symmetric] Inr] by simp
      then show ?thesis by (rule grows_trans[OF g])
    qed
  next
    case False
    then show ?thesis using 1(2) by (subst (asm) send_literal_chunks.simps) simp
  qed
qed

lemma flush_buffer_grows: "flush_buffer channel_send buf start c = (c', r) \<Longrightarrow> grows c c'"
  by (auto simp: flush_buffer_def split: if_splits dest: send_literal_chunks_grows)

lemma grows_fst:
  "grows c (fst (flush_buffer channel_send buf start c))"
  "grows c (fst (send_literal_chunks channel_send buf start offset c))"
  "grows c (fst (channel_send m c))"
  by (rule flush_buffer_grows[OF prod.collapse[symmetric]] send_literal_chunks_grows[OF prod.collapse[symmetric]]
      channel_send_grows[OF prod.collapse[symmetric]])+

lemma delta_loop_grows:
  assumes "delta_loop channel_send blake3 sigs data bs i buf start h c = Some r"
  shows "grows c (fst r)"
proof -
  let ?P = "\<lambda>send' blake3' sigs' data' bs' i' buf' start' h' c' r'. send' = channel_send \<longrightarrow> grows c' (fst r')"
  have "?P channel_send blake3 sigs data bs i buf start h c r"
    using assms
  proof (rule delta_loop.raw_induct[where P = ?P, rotated], goal_cases)
    case (1 rec send' blake3' sigs' data' bs' i' buf' start' h' c' r')
    note rec = 1(1)[rule_format, OF _ refl]
    show ?case
    proof
      assume send: "send' = channel_send"
      show "grows c' (fst r')"
      proof (cases "find_block blake3' sigs' data' bs' i' (bz_hash h')")
        case (Some index)
        then show ?thesis
          using 1(2) send
          by (auto simp: Let_def split: prod.splits sum.splits if_splits
              dest!: flush_buffer_grows channel_send_grows rec intro: grows_trans grows_fst)
      next
        case None
        then show ?thesis
          using 1(2) send
          by (auto simp: Let_def split: prod.splits sum.splits if_splits
              dest!: flush_buffer_grows send_literal_chunks_grows channel_send_grows rec
              intro: grows_trans grows_fst)
      qed
    qed
  qed
  then show ?thesis by simp
qed

lemma send_delta_grows:
  "send_delta_from_block_signatures F blake3 channel_send p sigs c = Some (c', r) \<Longrightarrow> grows c c'"
  by (auto simp: send_delta_from_block_signatures_def Let_def split: sum.splits dest: delta_loop_grows)

lemma handle_sync_payload_grows:
  assumes "handle_sync_payload F clean blake3 channel_send config life p h = Some (h', r)"
  shows "grows (st_sink h) (st_sink h')"
proof (cases p)
  case (FileActionP a)
  then show ?thesis
    using assms
    by (auto simp: handle_sync_payload_def handle_file_action_def send_block_signatures_for_file_def set_writer_def
        Let_def split: if_splits sum.splits prod.splits dest!: channel_send_grows)
next
  case (Signatures sig)
  then show ?thesis
    using assms by (auto simp: handle_sync_payload_def split: sum.splits option.splits dest!: send_delta_grows)
next
  case (DeltaP d)
  then show ?thesis
    using assms by (auto simp: handle_sync_payload_def split: option.splits prod.splits sum.splits)
next
  case (Complete b)
  then show ?thesis
    using assms by (auto simp: handle_sync_payload_def split: prod.splits sum.splits dest!: channel_send_grows)
qed

subsection \<open>The parties\<close>

text \<open>What a party has: its files, the functions it calls, its configuration.\<close>

record party =
  pa_fs :: file_system
  pa_clean :: "PathBuf \<Rightarrow> PathBuf"
  pa_blake3 :: "byte list \<Rightarrow> byte list"
  pa_config :: Config
  pa_life :: "PathBuf \<Rightarrow> nat option"

text \<open>An endpoint: the state of its loop, how many messages it has read, and how it ended.\<close>

record endpoint =
  ep_stream :: "channel stream_state"
  ep_pos :: nat
  ep_done :: "unit outcome option"

definition sent :: "endpoint \<Rightarrow> SyncRequest list" where
  "sent e = accepted (st_sink (ep_stream e))"

definition closed :: "endpoint \<Rightarrow> bool" where
  "closed e \<longleftrightarrow> ep_done e \<noteq> None"

text \<open>One round of the loop of a stream.\<close>

definition stream_round ::
    "party \<Rightarrow> SyncRequest \<Rightarrow> channel stream_state \<Rightarrow> (channel stream_state \<times> unit outcome option) option" where
  "stream_round p m h =
     (case payload m of
        None \<Rightarrow> Some (h, None)
      | Some pl \<Rightarrow>
          (case handle_sync_payload (pa_fs p) (pa_clean p) (pa_blake3 p) channel_send (pa_config p) (pa_life p) pl h of
             None \<Rightarrow> None
           | Some (h', Inl e) \<Rightarrow> Some (h', Some (Inl (anyhow e)))
           | Some (h', Inr Completed) \<Rightarrow> Some (h', Some (Inr ()))
           | Some (h', Inr Continue) \<Rightarrow> Some (h', None)))"

text \<open>A step of an endpoint, given what the other has sent and whether it has closed its side: read
  the next message, or see the end of the stream.  A message whose handling does not return
  is no step.\<close>

definition ep_step :: "party \<Rightarrow> SyncRequest list \<Rightarrow> bool \<Rightarrow> endpoint \<Rightarrow> endpoint option" where
  "ep_step p incoming end_of_stream e =
     (if closed e then None
      else if ep_pos e < length incoming then
        map_option (\<lambda>(h, d). \<lparr>ep_stream = h, ep_pos = Suc (ep_pos e), ep_done = d\<rparr>)
          (stream_round p (incoming ! ep_pos e) (ep_stream e))
      else if end_of_stream then Some (e\<lparr>ep_done := Some (Inr ())\<rparr>)
      else None)"

lemma stream_loop_round:
  "stream_loop (pa_fs p) (pa_clean p) (pa_blake3 p) channel_send (pa_config p) (pa_life p) (Inr m # ms) h =
     (case stream_round p m h of
        None \<Rightarrow> None
      | Some (h', Some r) \<Rightarrow> Some (h', r)
      | Some (h', None) \<Rightarrow> stream_loop (pa_fs p) (pa_clean p) (pa_blake3 p) channel_send (pa_config p) (pa_life p) ms h')"
  by (simp add: stream_round_def split: option.split sum.split SyncStatus.split)

lemma stream_round_grows: "stream_round p m h = Some (h', d) \<Longrightarrow> grows (st_sink h) (st_sink h')"
  by (auto simp: stream_round_def split: option.splits sum.splits SyncStatus.splits dest: handle_sync_payload_grows)

lemma ep_step_grows: "ep_step p inc eos e = Some e' \<Longrightarrow> prefix (sent e) (sent e')"
  using stream_round_grows by (fastforce simp: ep_step_def sent_def grows_def split: if_splits)

lemma ep_step_closed: "closed e \<Longrightarrow> ep_step p inc eos e = None"
  by (simp add: ep_step_def)

text \<open>More messages from the other side do not change a step that was possible.\<close>

lemma ep_step_mono:
  assumes "ep_step p inc False e = Some e'" "prefix inc inc'"
  shows "ep_step p inc' eos e = Some e'"
  using assms by (auto simp: ep_step_def nth_append elim!: prefixE split: if_splits)

record net =
  cl :: endpoint
  sv :: endpoint

inductive net_step :: "party \<Rightarrow> party \<Rightarrow> net \<Rightarrow> net \<Rightarrow> bool" for C S where
  client_step: "ep_step C (sent (sv n)) (closed (sv n)) (cl n) = Some e \<Longrightarrow> net_step C S n (n\<lparr>cl := e\<rparr>)"
| server_step: "ep_step S (sent (cl n)) (closed (cl n)) (sv n) = Some e \<Longrightarrow> net_step C S n (n\<lparr>sv := e\<rparr>)"

inductive_cases net_stepE: "net_step C S n n'"

inductive_simps net_step_iff: "net_step C S n n'"

text \<open>A step of one side and a step of the other: the one that is closed cannot move, so neither
  step was the end of a stream, and each is still possible after the other.\<close>

lemma sides_commute:
  assumes "ep_step C (sent s) (closed s) c = Some c'" "ep_step S (sent c) (closed c) s = Some s'"
  shows "ep_step C (sent s') (closed s') c = Some c'" "ep_step S (sent c') (closed c') s = Some s'"
proof -
  have open_c: "\<not> closed c" and open_s: "\<not> closed s" using assms ep_step_closed by auto
  show "ep_step C (sent s') (closed s') c = Some c'"
    by (rule ep_step_mono[OF _ ep_step_grows[OF assms(2)]]) (use assms(1) open_s in simp)
  show "ep_step S (sent c') (closed c') s = Some s'"
    by (rule ep_step_mono[OF _ ep_step_grows[OF assms(1)]]) (use assms(2) open_c in simp)
qed

lemma both_steps:
  assumes "ep_step C (sent (sv n)) (closed (sv n)) (cl n) = Some c" "ep_step S (sent (cl n)) (closed (cl n)) (sv n) = Some s"
  shows "net_step C S (n\<lparr>cl := c\<rparr>) (n\<lparr>cl := c, sv := s\<rparr>)" "net_step C S (n\<lparr>sv := s\<rparr>) (n\<lparr>cl := c, sv := s\<rparr>)"
proof -
  note moves = sides_commute[OF assms]
  show "net_step C S (n\<lparr>cl := c\<rparr>) (n\<lparr>cl := c, sv := s\<rparr>)"
    using net_step.server_step[of S "n\<lparr>cl := c\<rparr>" s C] moves(2) by simp
  have "net_step C S (n\<lparr>sv := s\<rparr>) (n\<lparr>sv := s, cl := c\<rparr>)"
    using net_step.client_step[of C "n\<lparr>sv := s\<rparr>" c S] moves(1) by simp
  moreover have "n\<lparr>sv := s, cl := c\<rparr> = n\<lparr>cl := c, sv := s\<rparr>" by simp
  ultimately show "net_step C S (n\<lparr>sv := s\<rparr>) (n\<lparr>cl := c, sv := s\<rparr>)" by (simp only:)
qed

lemma net_diamond:
  assumes "net_step C S n a" "net_step C S n b"
  shows "a = b \<or> (\<exists>d. net_step C S a d \<and> net_step C S b d)"
  using assms(1)
proof (cases rule: net_step.cases)
  case c: (client_step c)
  show ?thesis
    using assms(2)
  proof (cases rule: net_step.cases)
    case (client_step e)
    then show ?thesis using c by simp
  next
    case (server_step s)
    show ?thesis using both_steps[OF c(2) server_step(2)] c(1) server_step(1) by blast
  qed
next
  case s: (server_step s)
  show ?thesis
    using assms(2)
  proof (cases rule: net_step.cases)
    case (client_step c)
    show ?thesis using both_steps[OF client_step(2) s(2)] s(1) client_step(1) by blast
  next
    case (server_step e)
    then show ?thesis using s by simp
  qed
qed

interpretation transfer: commuting_steps "net_step C S" for C S
  by unfold_locales (rule net_diamond)

subsection \<open>Runs of one party\<close>

text \<open>Handling a list of messages, of which only the last may end the loop.\<close>

fun rounds :: "party \<Rightarrow> SyncRequest list \<Rightarrow> channel stream_state \<Rightarrow> (channel stream_state \<times> unit outcome option) option" where
  "rounds p [] h = Some (h, None)"
| "rounds p (m # ms) h =
     (case stream_round p m h of
        None \<Rightarrow> None
      | Some (h', None) \<Rightarrow> rounds p ms h'
      | Some (h', Some r) \<Rightarrow> (if ms = [] then Some (h', Some r) else None))"

lemma ep_step_next:
  assumes "ep_done e = None" "ep_pos e < length inc" "stream_round p (inc ! ep_pos e) (ep_stream e) = Some (h, d)"
  shows "ep_step p inc eos e = Some \<lparr>ep_stream = h, ep_pos = Suc (ep_pos e), ep_done = d\<rparr>"
  using assms by (simp add: ep_step_def closed_def)

lemma server_runs:
  assumes "rounds S ms h = Some (h', d)" "sent (cl n) = read @ ms @ unread"
    and "sv n = \<lparr>ep_stream = h, ep_pos = length read, ep_done = None\<rparr>"
  shows "(net_step C S ^^ length ms) n
    (n\<lparr>sv := \<lparr>ep_stream = h', ep_pos = length read + length ms, ep_done = d\<rparr>\<rparr>)"
  using assms
proof (induction ms arbitrary: n h read)
  case Nil
  then have "n\<lparr>sv := sv n\<rparr> = n\<lparr>sv := \<lparr>ep_stream = h', ep_pos = length read, ep_done = d\<rparr>\<rparr>" by simp
  then show ?case by simp
next
  case (Cons m ms)
  obtain h1 d1 where round: "stream_round S m h = Some (h1, d1)"
    using Cons.prems(1) by (auto split: option.splits)
  let ?e = "\<lparr>ep_stream = h1, ep_pos = Suc (length read), ep_done = d1\<rparr>"
  have "ep_step S (sent (cl n)) (closed (cl n)) (sv n) = Some ?e"
    using Cons.prems(2,3) round by (subst ep_step_next) simp_all
  then have step: "net_step C S n (n\<lparr>sv := ?e\<rparr>)" by (rule net_step.server_step)
  have rest: "(net_step C S ^^ length ms) (n\<lparr>sv := ?e\<rparr>)
      (n\<lparr>sv := \<lparr>ep_stream = h', ep_pos = length read + length (m # ms), ep_done = d\<rparr>\<rparr>)"
  proof (cases d1)
    case None
    then show ?thesis
      using Cons.IH[of h1 "n\<lparr>sv := ?e\<rparr>" "read @ [m]"] Cons.prems(1,2) round by simp
  next
    case (Some r)
    then show ?thesis using Cons.prems(1) round by (auto split: if_splits)
  qed
  show ?case using relpowp_Suc_I2[OF step rest] by simp
qed

text \<open>The two sides are alike: exchanging them turns a run into a run.\<close>

definition exchange :: "net \<Rightarrow> net" where
  "exchange n = \<lparr>cl = sv n, sv = cl n\<rparr>"

lemma exchange_exchange [simp]: "exchange (exchange n) = n"
  by (cases n) (simp add: exchange_def)

lemma net_step_exchange:
  assumes "net_step C S n n'"
  shows "net_step S C (exchange n) (exchange n')"
  using assms
proof (cases rule: net_step.cases)
  case (client_step e)
  then show ?thesis using net_step.server_step[of C "exchange n" e S] by (simp add: exchange_def)
next
  case (server_step e)
  then show ?thesis using net_step.client_step[of S "exchange n" e C] by (simp add: exchange_def)
qed

lemma net_run_exchange: "(net_step C S ^^ k) n n' \<Longrightarrow> (net_step S C ^^ k) (exchange n) (exchange n')"
proof (induction k arbitrary: n')
  case 0
  then show ?case by simp
next
  case (Suc k)
  then show ?case by (auto intro: net_step_exchange)
qed

lemma client_runs:
  assumes "rounds C ms h = Some (h', d)" "sent (sv n) = read @ ms @ unread"
    and "cl n = \<lparr>ep_stream = h, ep_pos = length read, ep_done = None\<rparr>"
  shows "(net_step C S ^^ length ms) n
    (n\<lparr>cl := \<lparr>ep_stream = h', ep_pos = length read + length ms, ep_done = d\<rparr>\<rparr>)"
proof -
  let ?e = "\<lparr>ep_stream = h', ep_pos = length read + length ms, ep_done = d\<rparr>"
  have "(net_step S C ^^ length ms) (exchange n) ((exchange n)\<lparr>sv := ?e\<rparr>)"
    using assms by (intro server_runs) (simp_all add: exchange_def)
  from net_run_exchange[OF this] show ?thesis by (cases n) (simp add: exchange_def)
qed

lemma rounds_append:
  "rounds p (ms @ ns) h =
     (case rounds p ms h of
        None \<Rightarrow> None
      | Some (h', None) \<Rightarrow> rounds p ns h'
      | Some (h', Some r) \<Rightarrow> (if ns = [] then Some (h', Some r) else None))"
  by (induction ms arbitrary: h) (auto split: option.splits)

lemma rounds_deltas:
  assumes "st_writer h = Some w" "wt_lifetime w = None"
  shows "rounds p (map delta_message ds) h =
    Some (h\<lparr>st_writer := Some (w\<lparr>wt_deltas := wt_deltas w @ map piece_delta ds\<rparr>)\<rparr>, None)"
  using assms
proof (induction ds arbitrary: h w)
  case Nil
  then have "h\<lparr>st_writer := Some w\<rparr> = h" by (cases h) simp
  then show ?case by simp
next
  case (Cons d ds)
  let ?w = "w\<lparr>wt_deltas := wt_deltas w @ [piece_delta d]\<rparr>"
  have "stream_round p (delta_message d) h = Some (h\<lparr>st_writer := Some ?w\<rparr>, None)"
    using Cons.prems
    by (simp add: stream_round_def delta_message_def delta_request_def request_def handle_sync_payload_def
        writer_send_def piece_delta_def)
  then show ?case using Cons.IH[of "h\<lparr>st_writer := Some ?w\<rparr>" ?w] Cons.prems by simp
qed

lemma round_complete:
  assumes "lifetime (st_sink h) = None"
  shows "stream_round p (request (Complete b)) h =
    Some (h\<lparr>st_sink := (st_sink h)\<lparr>accepted := accepted (st_sink h) @ [request (Complete True)]\<rparr>\<rparr>, Some (Inr ()))"
proof -
  have "payload (request (Complete b)) = Some (Complete b)" by (simp add: request_def)
  then show ?thesis using assms by (simp add: stream_round_def handle_sync_payload_def channel_send_open)
qed

text \<open>A party that handles a signature message sends the deltas of its version.\<close>

lemma round_signatures:
  assumes "get_absolute_path (pa_clean p) (st_file_path h) (sync_path (pa_config p)) = Inr src"
    and "fs_read (pa_fs p) src = Inr new" "0 < unat bs" "unat bs \<le> isize_max" "lifetime (st_sink h) = None"
  shows "stream_round p (request (Signatures (signed (pa_blake3 p) bs old))) h =
    Some (h\<lparr>st_sink := (st_sink h)\<lparr>accepted := accepted (st_sink h) @
      map delta_message (deltas_for (pa_blake3 p) bs old new) @ [request (Complete True)]\<rparr>\<rparr>, None)"
proof -
  have "payload (request (Signatures sig)) = Some (Signatures sig)" for sig by (simp add: request_def)
  then show ?thesis
    using assms(1) send_delta_signed[OF assms(2-4), of "pa_blake3 p" channel_send old "st_sink h"]
    by (simp add: stream_round_def handle_sync_payload_def channel_send_all_open[OF assms(5)])
qed

lemma round_file_action:
  assumes "fa_direction a \<noteq> direction_i32 Upload"
  shows "\<exists>h'. stream_round p (file_action_message a) h = Some (h', None) \<and> st_sink h' = st_sink h \<and>
    stream_writers h' = stream_writers h \<and> (fa_direction a = direction_i32 Skip \<longrightarrow> h' = h)"
  using assms
  by (auto simp: stream_round_def file_action_message_def request_def handle_sync_payload_def handle_file_action_def)

subsection \<open>The transfer of one file\<close>

text \<open>The client opens the stream; the server starts a fresh loop on it.\<close>

definition start_net :: "party \<Rightarrow> FileAction \<Rightarrow> net" where
  "start_net C a =
     \<lparr>cl = (case sync_file_open (pa_fs C) (pa_clean C) (pa_blake3 C) channel_send (pa_config C) (pa_life C) a new_channel of
              (h, Inl e) \<Rightarrow> \<lparr>ep_stream = h, ep_pos = 0, ep_done = Some (Inl e)\<rparr>
            | (h, Inr _) \<Rightarrow> \<lparr>ep_stream = h, ep_pos = 0, ep_done = None\<rparr>),
      sv = \<lparr>ep_stream = new_stream new_channel, ep_pos = 0, ep_done = None\<rparr>\<rparr>"

lemma finished_no_step: "ep_done (cl z) \<noteq> None \<Longrightarrow> ep_done (sv z) \<noteq> None \<Longrightarrow> \<nexists>y. net_step C S z y"
  by (auto simp: net_step_iff ep_step_def closed_def)

lemma runs_append: "(R ^^ i) x y \<Longrightarrow> (R ^^ j) y z \<Longrightarrow> (R ^^ (i + j)) x z"
  by (auto simp: relpowp_add)

lemma start_not_download:
  assumes "fa_direction a \<noteq> direction_i32 Download"
  shows "start_net C a =
    \<lparr>cl = \<lparr>ep_stream = \<lparr>st_sink = new_channel\<lparr>accepted := [file_action_message a]\<rparr>, st_file_path = fa_path a,
              st_writer = None, st_dropped = []\<rparr>, ep_pos = 0, ep_done = None\<rparr>,
      sv = \<lparr>ep_stream = new_stream new_channel, ep_pos = 0, ep_done = None\<rparr>\<rparr>"
  using assms by (simp add: start_net_def sync_file_open_def channel_send_open new_channel_def Let_def)

text \<open>The server's answer to an upload.\<close>

lemma round_upload:
  assumes "fa_direction a = direction_i32 Upload"
    and "generate_blocks_signatures (pa_fs S) (pa_clean S) (pa_blake3 S) (fa_path a) (sync_path (pa_config S))
      (config_block_size (pa_config S)) = Inr (sig, cache)"
    and "get_absolute_path (pa_clean S) (fa_path a) (sync_path (pa_config S)) = Inr q" "pa_life S q = None"
  shows "stream_round S (file_action_message a) (new_stream new_channel) =
    Some (\<lparr>st_sink = new_channel\<lparr>accepted := [request (Signatures sig)]\<rparr>, st_file_path = fa_path a,
      st_writer = Some \<lparr>wt_path = q, wt_cache = cache, wt_modified_ts = unwrap_or_default (fa_timestamp_latest_modified a),
        wt_deltas = [], wt_lifetime = None\<rparr>, st_dropped = []\<rparr>, None)"
  using handle_upload[where tx = new_channel and life = "pa_life S" and q = q, OF assms(1-3)] assms(4)
  by (simp add: stream_round_def file_action_message_def request_def handle_sync_payload_def new_channel_def spawn_writer_def)

text \<open>One run of an upload, in four bursts: the server reads the action and signs, the client
  reads the signatures and sends the deltas, the server applies them and completes, the client
  completes.\<close>

lemma upload_run_sent:
  assumes action: "fa_direction a = direction_i32 Upload"
    and signed: "generate_blocks_signatures (pa_fs S) (pa_clean S) (pa_blake3 S) (fa_path a) (sync_path (pa_config S)) bs =
      Inr (signed (pa_blake3 C) bs old, cache)" and bs: "bs = config_block_size (pa_config S)"
      "0 < unat bs" "unat bs \<le> isize_max"
    and path: "get_absolute_path (pa_clean S) (fa_path a) (sync_path (pa_config S)) = Inr q" "pa_life S q = None"
    and src: "get_absolute_path (pa_clean C) (fa_path a) (sync_path (pa_config C)) = Inr src" "fs_read (pa_fs C) src = Inr new"
  shows "\<exists>k z. (net_step C S ^^ k) (start_net C a) z \<and>
    sent (cl z) = file_action_message a # map delta_message (deltas_for (pa_blake3 C) bs old new) @ [request (Complete True), request (Complete True)] \<and>
    sent (sv z) = [request (Signatures (signed (pa_blake3 C) bs old)), request (Complete True)] \<and>
    ep_done (cl z) = Some (Inr ()) \<and> ep_done (sv z) = Some (Inr ()) \<and> stream_writers (ep_stream (cl z)) = [] \<and>
    stream_writers (ep_stream (sv z)) = [\<lparr>wt_path = q, wt_cache = cache,
      wt_modified_ts = unwrap_or_default (fa_timestamp_latest_modified a),
      wt_deltas = map piece_delta (deltas_for (pa_blake3 C) bs old new), wt_lifetime = None\<rparr>]"
proof -
  let ?act = "file_action_message a" and ?done = "request (Complete True)"
  let ?sig = "request (Signatures (signed (pa_blake3 C) bs old))"
  let ?ps = "deltas_for (pa_blake3 C) bs old new"
  let ?ts = "unwrap_or_default (fa_timestamp_latest_modified a)"
  let ?out = "[?act] @ map delta_message ?ps @ [?done]"
  let ?ch = "\<lambda>ms. new_channel\<lparr>accepted := ms\<rparr>"
  let ?c = "\<lambda>ms. \<lparr>st_sink = ?ch ms, st_file_path = fa_path a, st_writer = None, st_dropped = []\<rparr>"
  let ?s = "\<lambda>ms ds. \<lparr>st_sink = ?ch ms, st_file_path = fa_path a,
      st_writer = Some \<lparr>wt_path = q, wt_cache = cache, wt_modified_ts = ?ts, wt_deltas = ds, wt_lifetime = None\<rparr>,
      st_dropped = []\<rparr>"
  let ?e = "\<lambda>h pos d. \<lparr>ep_stream = h, ep_pos = pos, ep_done = d\<rparr> :: endpoint"
  let ?n = "\<lambda>c s. \<lparr>cl = c, sv = s\<rparr> :: net"
  have start: "start_net C a = ?n (?e (?c [?act]) 0 None) (?e (new_stream new_channel) 0 None)"
    using action by (subst start_not_download) simp_all
  have "stream_round S ?act (new_stream new_channel) = Some (?s [?sig] [], None)"
    using round_upload[OF action signed[unfolded bs(1)] path] by (simp add: bs(1))
  then have r1: "rounds S [?act] (new_stream new_channel) = Some (?s [?sig] [], None)" by simp
  have 1: "(net_step C S ^^ 1) (start_net C a) (?n (?e (?c [?act]) 0 None) (?e (?s [?sig] []) 1 None))"
    using server_runs[OF r1, of "start_net C a" "[]" "[]" C] by (simp add: start sent_def)
  have "stream_round C ?sig (?c [?act]) = Some (?c ?out, None)"
    using round_signatures[of C "?c [?act]" src new bs old] src bs by (simp add: new_channel_def)
  then have r2: "rounds C [?sig] (?c [?act]) = Some (?c ?out, None)" by simp
  have 2: "(net_step C S ^^ 1) (?n (?e (?c [?act]) 0 None) (?e (?s [?sig] []) 1 None))
      (?n (?e (?c ?out) 1 None) (?e (?s [?sig] []) 1 None))"
    using client_runs[OF r2, of "?n (?e (?c [?act]) 0 None) (?e (?s [?sig] []) 1 None)" "[]" "[]" S]
    by (simp add: sent_def)
  have r3: "rounds S (map delta_message ?ps @ [?done]) (?s [?sig] []) = Some (?s [?sig, ?done] (map piece_delta ?ps), Some (Inr ()))"
    by (simp add: rounds_append rounds_deltas round_complete new_channel_def)
  have 3: "(net_step C S ^^ (length ?ps + 1)) (?n (?e (?c ?out) 1 None) (?e (?s [?sig] []) 1 None))
      (?n (?e (?c ?out) 1 None) (?e (?s [?sig, ?done] (map piece_delta ?ps)) (2 + length ?ps) (Some (Inr ()))))"
    using server_runs[OF r3, of "?n (?e (?c ?out) 1 None) (?e (?s [?sig] []) 1 None)" "[?act]" "[]" C]
    by (simp add: sent_def)
  have r4: "rounds C [?done] (?c ?out) = Some (?c (?out @ [?done]), Some (Inr ()))"
    by (simp add: round_complete new_channel_def)
  let ?z = "?n (?e (?c (?out @ [?done])) 2 (Some (Inr ()))) (?e (?s [?sig, ?done] (map piece_delta ?ps)) (2 + length ?ps) (Some (Inr ())))"
  have 4: "(net_step C S ^^ 1) (?n (?e (?c ?out) 1 None) (?e (?s [?sig, ?done] (map piece_delta ?ps)) (2 + length ?ps) (Some (Inr ())))) ?z"
    using client_runs[OF r4, of "?n (?e (?c ?out) 1 None) (?e (?s [?sig, ?done] (map piece_delta ?ps)) (2 + length ?ps) (Some (Inr ())))" "[?sig]" "[]" S]
    by (simp add: sent_def numeral_2_eq_2)
  have "(net_step C S ^^ (1 + (1 + ((length ?ps + 1) + 1)))) (start_net C a) ?z"
    using runs_append[OF 1 runs_append[OF 2 runs_append[OF 3 4]]] .
  moreover have "stream_writers (ep_stream (cl ?z)) = []" "stream_writers (ep_stream (sv ?z)) = [\<lparr>wt_path = q, wt_cache = cache, wt_modified_ts = ?ts,
      wt_deltas = map piece_delta ?ps, wt_lifetime = None\<rparr>]"
    by (simp_all add: stream_writers_def)
  ultimately show ?thesis by (intro exI conjI) (assumption, simp_all add: sent_def)
qed

lemma upload_run:
  assumes action: "fa_direction a = direction_i32 Upload"
    and signed: "generate_blocks_signatures (pa_fs S) (pa_clean S) (pa_blake3 S) (fa_path a) (sync_path (pa_config S)) bs =
      Inr (signed (pa_blake3 C) bs old, cache)" and bs: "bs = config_block_size (pa_config S)"
      "0 < unat bs" "unat bs \<le> isize_max"
    and path: "get_absolute_path (pa_clean S) (fa_path a) (sync_path (pa_config S)) = Inr q" "pa_life S q = None"
    and src: "get_absolute_path (pa_clean C) (fa_path a) (sync_path (pa_config C)) = Inr src" "fs_read (pa_fs C) src = Inr new"
  shows "\<exists>k z. (net_step C S ^^ k) (start_net C a) z \<and>
    ep_done (cl z) = Some (Inr ()) \<and> ep_done (sv z) = Some (Inr ()) \<and> stream_writers (ep_stream (cl z)) = [] \<and>
    stream_writers (ep_stream (sv z)) = [\<lparr>wt_path = q, wt_cache = cache,
      wt_modified_ts = unwrap_or_default (fa_timestamp_latest_modified a),
      wt_deltas = map piece_delta (deltas_for (pa_blake3 C) bs old new), wt_lifetime = None\<rparr>]"
  using upload_run_sent[OF assms] by blast

text \<open>One run of a download: the server reads the action and the signatures and sends the deltas,
  the client applies them and completes, the server completes.\<close>

lemma download_run_sent:
  assumes action: "fa_direction a = direction_i32 Download"
    and path: "get_absolute_path (pa_clean C) (fa_path a) (sync_path (pa_config C)) = Inr q"
      "path_join (sync_path (pa_config C)) (fa_path a) = q" "pa_life C q = None"
    and bs: "bs = config_block_size (pa_config C)" "0 < unat bs" "unat bs \<le> isize_max"
    and own: "own_version (pa_fs C) q old"
    and src: "get_absolute_path (pa_clean S) (fa_path a) (sync_path (pa_config S)) = Inr src" "fs_read (pa_fs S) src = Inr new"
    and hash: "pa_blake3 C = pa_blake3 S"
  shows "\<exists>k z. (net_step C S ^^ k) (start_net C a) z \<and>
    sent (cl z) = [file_action_message a, request (Signatures (signed (pa_blake3 S) bs old)), request (Complete True)] \<and>
    sent (sv z) = map delta_message (deltas_for (pa_blake3 S) bs old new) @ [request (Complete True), request (Complete True)] \<and>
    ep_done (cl z) = Some (Inr ()) \<and> ep_done (sv z) = Some (Inr ()) \<and> stream_writers (ep_stream (sv z)) = [] \<and>
    stream_writers (ep_stream (cl z)) = [\<lparr>wt_path = q, wt_cache = chunks (unat bs) old,
      wt_modified_ts = unwrap_or_default (fa_timestamp_latest_modified a),
      wt_deltas = map piece_delta (deltas_for (pa_blake3 S) bs old new), wt_lifetime = None\<rparr>]"
proof -
  let ?act = "file_action_message a" and ?done = "request (Complete True)"
  let ?sig = "request (Signatures (signed (pa_blake3 S) bs old))"
  let ?ps = "deltas_for (pa_blake3 S) bs old new"
  let ?ts = "unwrap_or_default (fa_timestamp_latest_modified a)"
  let ?out = "map delta_message ?ps @ [?done]"
  let ?ch = "\<lambda>ms. new_channel\<lparr>accepted := ms\<rparr>"
  let ?s = "\<lambda>ms. \<lparr>st_sink = ?ch ms, st_file_path = fa_path a, st_writer = None, st_dropped = []\<rparr>"
  let ?c = "\<lambda>ms ds. \<lparr>st_sink = ?ch ms, st_file_path = fa_path a,
      st_writer = Some \<lparr>wt_path = q, wt_cache = chunks (unat bs) old, wt_modified_ts = ?ts, wt_deltas = ds, wt_lifetime = None\<rparr>,
      st_dropped = []\<rparr>"
  let ?e = "\<lambda>h pos d. \<lparr>ep_stream = h, ep_pos = pos, ep_done = d\<rparr> :: endpoint"
  let ?n = "\<lambda>c s. \<lparr>cl = c, sv = s\<rparr> :: net"
  have start: "start_net C a = ?n (?e (?c [?act, ?sig] []) 0 None) (?e (new_stream new_channel) 0 None)"
    using open_download[where tx = new_channel and life = "pa_life C" and q = q, OF action path(1,2) bs(2,3)[unfolded bs(1)] own _ path(3)]
    by (simp add: start_net_def new_channel_def bs(1) hash)
  have act: "stream_round S ?act (new_stream new_channel) = Some (?s [], None)"
    using action by (simp add: stream_round_def file_action_message_def request_def handle_sync_payload_def
        handle_file_action_def new_stream_def new_channel_def)
  have "stream_round S ?sig (?s []) = Some (?s ?out, None)"
    using round_signatures[of S "?s []" src new bs old] src bs by (simp add: new_channel_def)
  with act have r1: "rounds S [?act, ?sig] (new_stream new_channel) = Some (?s ?out, None)" by simp
  have 1: "(net_step C S ^^ 2) (start_net C a) (?n (?e (?c [?act, ?sig] []) 0 None) (?e (?s ?out) 2 None))"
    using server_runs[OF r1, of "start_net C a" "[]" "[]" C] by (simp add: start sent_def numeral_2_eq_2)
  have r2: "rounds C ?out (?c [?act, ?sig] []) = Some (?c [?act, ?sig, ?done] (map piece_delta ?ps), Some (Inr ()))"
    by (simp add: rounds_append rounds_deltas round_complete new_channel_def)
  let ?cl = "?e (?c [?act, ?sig, ?done] (map piece_delta ?ps)) (length ?ps + 1) (Some (Inr ()))"
  have 2: "(net_step C S ^^ (length ?ps + 1)) (?n (?e (?c [?act, ?sig] []) 0 None) (?e (?s ?out) 2 None)) (?n ?cl (?e (?s ?out) 2 None))"
    using client_runs[OF r2, of "?n (?e (?c [?act, ?sig] []) 0 None) (?e (?s ?out) 2 None)" "[]" "[]" S]
    by (simp add: sent_def)
  have r3: "rounds S [?done] (?s ?out) = Some (?s (?out @ [?done]), Some (Inr ()))"
    by (simp add: round_complete new_channel_def)
  let ?z = "?n ?cl (?e (?s (?out @ [?done])) 3 (Some (Inr ())))"
  have 3: "(net_step C S ^^ 1) (?n ?cl (?e (?s ?out) 2 None)) ?z"
    using server_runs[OF r3, of "?n ?cl (?e (?s ?out) 2 None)" "[?act, ?sig]" "[]" C]
    by (simp add: sent_def numeral_2_eq_2 numeral_3_eq_3)
  have "(net_step C S ^^ (2 + ((length ?ps + 1) + 1))) (start_net C a) ?z"
    using runs_append[OF 1 runs_append[OF 2 3]] .
  moreover have "stream_writers (ep_stream (sv ?z)) = []" "stream_writers (ep_stream (cl ?z)) =
      [\<lparr>wt_path = q, wt_cache = chunks (unat bs) old, wt_modified_ts = ?ts, wt_deltas = map piece_delta ?ps, wt_lifetime = None\<rparr>]"
    by (simp_all add: stream_writers_def)
  ultimately show ?thesis by (intro exI conjI) (assumption, simp_all add: sent_def)
qed

lemma download_run:
  assumes action: "fa_direction a = direction_i32 Download"
    and path: "get_absolute_path (pa_clean C) (fa_path a) (sync_path (pa_config C)) = Inr q"
      "path_join (sync_path (pa_config C)) (fa_path a) = q" "pa_life C q = None"
    and bs: "bs = config_block_size (pa_config C)" "0 < unat bs" "unat bs \<le> isize_max"
    and own: "own_version (pa_fs C) q old"
    and src: "get_absolute_path (pa_clean S) (fa_path a) (sync_path (pa_config S)) = Inr src" "fs_read (pa_fs S) src = Inr new"
    and hash: "pa_blake3 C = pa_blake3 S"
  shows "\<exists>k z. (net_step C S ^^ k) (start_net C a) z \<and>
    ep_done (cl z) = Some (Inr ()) \<and> ep_done (sv z) = Some (Inr ()) \<and> stream_writers (ep_stream (sv z)) = [] \<and>
    stream_writers (ep_stream (cl z)) = [\<lparr>wt_path = q, wt_cache = chunks (unat bs) old,
      wt_modified_ts = unwrap_or_default (fa_timestamp_latest_modified a),
      wt_deltas = map piece_delta (deltas_for (pa_blake3 S) bs old new), wt_lifetime = None\<rparr>]"
  using download_run_sent[OF assms] by blast

text \<open>A skipped file: the server ignores the action, and then each side waits for the other.\<close>

lemma skip_run:
  assumes "fa_direction a \<noteq> direction_i32 Download" "fa_direction a \<noteq> direction_i32 Upload"
  shows "\<exists>z. (net_step C S ^^ 1) (start_net C a) z \<and> (\<nexists>y. net_step C S z y) \<and>
    \<not> closed (cl (start_net C a)) \<and> \<not> closed (sv (start_net C a)) \<and> \<not> closed (cl z) \<and> \<not> closed (sv z)"
proof -
  note start = start_not_download[OF assms(1), of C]
  have "rounds S [file_action_message a] (new_stream new_channel) = Some (new_stream new_channel, None)"
    using assms by (simp add: stream_round_def file_action_message_def request_def handle_sync_payload_def handle_file_action_def)
  from server_runs[OF this, of "start_net C a" "[]" "[]" C]
  have run: "(net_step C S ^^ 1) (start_net C a)
      ((start_net C a)\<lparr>sv := \<lparr>ep_stream = new_stream new_channel, ep_pos = 1, ep_done = None\<rparr>\<rparr>)"
    by (simp add: start sent_def)
  show ?thesis
    by (intro exI conjI, rule run)
      (simp_all add: start net_step_iff ep_step_def closed_def sent_def new_stream_def new_channel_def)
qed

subsection \<open>Properties\<close>

text \<open>C8: An upload finishes on every schedule: however the steps of client and server are
  interleaved, no run is longer than some bound and every run can be continued to the same final
  state, in which both sides have completed without error and the server's file, when its
  writer has run, has exactly the client's bytes.\<close>

theorem upload_finishes_on_every_schedule:
  assumes action: "fa_direction a = direction_i32 Upload"
    and signed: "generate_blocks_signatures (pa_fs S) (pa_clean S) (pa_blake3 S) (fa_path a) (sync_path (pa_config S))
      (config_block_size (pa_config S)) = Inr (sig, cache)"
    and path: "get_absolute_path (pa_clean S) (fa_path a) (sync_path (pa_config S)) = Inr q" "pa_life S q = None"
    and src: "get_absolute_path (pa_clean C) (fa_path a) (sync_path (pa_config C)) = Inr src"
    and new: "fs_read (pa_fs C) src = Inr new" "length new < 2 ^ 63"
    and hash: "pa_blake3 C = pa_blake3 S"
    and distinguished: "\<forall>c \<in> set cache. \<forall>i. i + unat (config_block_size (pa_config S)) \<le> length new \<longrightarrow>
        pa_blake3 S c = pa_blake3 S (slice_at new i (unat (config_block_size (pa_config S)))) \<longrightarrow>
        c = slice_at new i (unat (config_block_size (pa_config S)))"
    and small: "length cache \<le> 2 ^ 32"
    and writer: "mtime_setter set_file_mtime" "writable_name q f" "can_replace (pa_fs S) q"
  shows "\<exists>k z. (\<forall>j n. (net_step C S ^^ j) (start_net C a) n \<longrightarrow> j \<le> k \<and> (net_step C S ^^ (k - j)) n z) \<and>
    ep_done (cl z) = Some (Inr ()) \<and> ep_done (sv z) = Some (Inr ()) \<and>
    contents (end_stream set_file_mtime (ep_stream (sv z)) (pa_fs S)) q = Some new"
proof -
  let ?bs = "config_block_size (pa_config S)"
  obtain old where bs: "0 < unat ?bs" "unat ?bs \<le> isize_max"
    and sig: "sig = signed (pa_blake3 S) ?bs old" and cache: "cache = chunks (unat ?bs) old"
    using generate_blocks_signatures_InrD[OF signed] by blast
  have sep: "strong_separates (pa_blake3 S) (unat ?bs) old new"
    using distinguished by (simp add: strong_separates_def cache)
  note few = small[unfolded cache]
  let ?ps = "deltas_for (pa_blake3 S) ?bs old new"
  obtain k z where run: "(net_step C S ^^ k) (start_net C a) z"
    and ended: "ep_done (cl z) = Some (Inr ())" "ep_done (sv z) = Some (Inr ())"
    and writers: "stream_writers (ep_stream (sv z)) = [\<lparr>wt_path = q, wt_cache = cache,
      wt_modified_ts = unwrap_or_default (fa_timestamp_latest_modified a),
      wt_deltas = map piece_delta ?ps, wt_lifetime = None\<rparr>]"
    using upload_run[OF action _ refl bs path src new(1), of old cache] signed unfolding sig hash by blast
  have "contents (end_stream set_file_mtime (ep_stream (sv z)) (pa_fs S)) q = Some (pieces_bytes cache ?ps)"
    using deltas_for_bytes[OF bs(1) sep few] deltas_for_indices[OF bs(1) sep few] new(2)
    by (intro end_upload[OF writer _ _ _ writers]) (simp_all add: cache)
  then have "contents (end_stream set_file_mtime (ep_stream (sv z)) (pa_fs S)) q = Some new"
    by (simp only: cache deltas_for_bytes(1)[OF bs(1) sep few])
  moreover have "j \<le> k \<and> (net_step C S ^^ (k - j)) n z" if "(net_step C S ^^ j) (start_net C a) n" for j n
    using transfer.every_run_ends[OF run finished_no_step that] ended by simp
  ultimately show ?thesis using ended by blast
qed

definition example_party :: "(string \<rightharpoonup> byte list) \<Rightarrow> party" where
  "example_party files = \<lparr>pa_fs = example_tree files, pa_clean = lexical_clean, pa_blake3 = example_hash,
     pa_config = example_config, pa_life = (\<lambda>_. None)\<rparr>"

lemma example_party_simps [simp]:
  "pa_fs (example_party files) = example_tree files" "pa_clean (example_party files) = lexical_clean"
  "pa_blake3 (example_party files) = example_hash" "pa_config (example_party files) = example_config"
  "pa_life (example_party files) q = None"
  by (simp_all add: example_party_def)

theorem upload_finishes_on_every_schedule_witness:
  "\<exists>k z. (\<forall>j n. (net_step (example_party [''f'' \<mapsto> [1, 2, 9, 3]]) (example_party [''f'' \<mapsto> [1, 2, 3]]) ^^ j)
        (start_net (example_party [''f'' \<mapsto> [1, 2, 9, 3]]) example_upload) n \<longrightarrow>
      j \<le> k \<and> (net_step (example_party [''f'' \<mapsto> [1, 2, 9, 3]]) (example_party [''f'' \<mapsto> [1, 2, 3]]) ^^ (k - j)) n z) \<and>
    ep_done (cl z) = Some (Inr ()) \<and> ep_done (sv z) = Some (Inr ()) \<and>
    contents (end_stream utimens (ep_stream (sv z)) (pa_fs (example_party [''f'' \<mapsto> [1, 2, 3]]))) ''/srv/f'' = Some [1, 2, 9, 3]"
proof (rule upload_finishes_on_every_schedule)
  show "generate_blocks_signatures (pa_fs (example_party [''f'' \<mapsto> [1, 2, 3]])) (pa_clean (example_party [''f'' \<mapsto> [1, 2, 3]]))
      (pa_blake3 (example_party [''f'' \<mapsto> [1, 2, 3]])) (fa_path example_upload)
      (sync_path (pa_config (example_party [''f'' \<mapsto> [1, 2, 3]])))
      (config_block_size (pa_config (example_party [''f'' \<mapsto> [1, 2, 3]]))) =
    Inr (signed example_hash 2 [1, 2, 3], chunks 2 [1, 2, 3])"
    using example_signed by (simp add: example_upload_def)
  show "fs_read (pa_fs (example_party [''f'' \<mapsto> [1, 2, 9, 3]])) ''/srv/f'' = Inr [1, 2, 9, 3]"
    by simp (rule example_read, simp)
  have "strong_separates example_hash 2 [1, 2, 3] [1, 2, 9, 3]" by (rule strong_separates_example) simp
  then show "\<forall>c \<in> set (chunks 2 [1, 2, 3]).
      \<forall>i. i + unat (config_block_size (pa_config (example_party [''f'' \<mapsto> [1, 2, 3]]))) \<le> length [1, 2, 9, 3 :: byte] \<longrightarrow>
        pa_blake3 (example_party [''f'' \<mapsto> [1, 2, 3]]) c =
        pa_blake3 (example_party [''f'' \<mapsto> [1, 2, 3]]) (slice_at [1, 2, 9, 3] i
          (unat (config_block_size (pa_config (example_party [''f'' \<mapsto> [1, 2, 3]]))))) \<longrightarrow>
        c = slice_at [1, 2, 9, 3] i (unat (config_block_size (pa_config (example_party [''f'' \<mapsto> [1, 2, 3]]))))"
    by (simp add: strong_separates_def)
  show "writable_name ''/srv/f'' ''f''" by (rule example_paths)
qed (simp_all add: example_upload_def chunks.simps utimens.mtime_setter_axioms example_can_replace flip: example_paths(4))

text \<open>C9: A download finishes on every schedule, in a final state in which both sides have
  completed, the server has written nothing, and the client's file, when its writer has run, has
  exactly the server's bytes.\<close>

theorem download_finishes_on_every_schedule:
  assumes action: "fa_direction a = direction_i32 Download"
    and path: "get_absolute_path (pa_clean C) (fa_path a) (sync_path (pa_config C)) = Inr q"
      "path_join (sync_path (pa_config C)) (fa_path a) = q" "pa_life C q = None"
    and bs: "0 < unat (config_block_size (pa_config C))" "unat (config_block_size (pa_config C)) \<le> isize_max"
    and own: "own_version (pa_fs C) q old"
    and src: "get_absolute_path (pa_clean S) (fa_path a) (sync_path (pa_config S)) = Inr src"
    and new: "fs_read (pa_fs S) src = Inr new" "length new < 2 ^ 63"
    and hash: "pa_blake3 C = pa_blake3 S"
    and distinguished: "strong_separates (pa_blake3 S) (unat (config_block_size (pa_config C))) old new"
    and small: "length (chunks (unat (config_block_size (pa_config C))) old) \<le> 2 ^ 32"
    and writer: "mtime_setter set_file_mtime" "writable_name q f" "can_replace (pa_fs C) q"
  shows "\<exists>k z. (\<forall>j n. (net_step C S ^^ j) (start_net C a) n \<longrightarrow> j \<le> k \<and> (net_step C S ^^ (k - j)) n z) \<and>
    ep_done (cl z) = Some (Inr ()) \<and> ep_done (sv z) = Some (Inr ()) \<and>
    end_stream set_file_mtime (ep_stream (sv z)) (pa_fs S) = pa_fs S \<and>
    contents (end_stream set_file_mtime (ep_stream (cl z)) (pa_fs C)) q = Some new"
proof -
  let ?bs = "config_block_size (pa_config C)"
  let ?ps = "deltas_for (pa_blake3 S) ?bs old new"
  obtain k z where run: "(net_step C S ^^ k) (start_net C a) z"
    and ended: "ep_done (cl z) = Some (Inr ())" "ep_done (sv z) = Some (Inr ())"
    and none: "stream_writers (ep_stream (sv z)) = []"
    and writers: "stream_writers (ep_stream (cl z)) = [\<lparr>wt_path = q, wt_cache = chunks (unat ?bs) old,
      wt_modified_ts = unwrap_or_default (fa_timestamp_latest_modified a),
      wt_deltas = map piece_delta ?ps, wt_lifetime = None\<rparr>]"
    using download_run[OF action path refl bs own src new(1) hash] by blast
  have "contents (end_stream set_file_mtime (ep_stream (cl z)) (pa_fs C)) q = Some (pieces_bytes (chunks (unat ?bs) old) ?ps)"
    using deltas_for_bytes[OF bs(1) distinguished small] deltas_for_indices[OF bs(1) distinguished small] new(2)
    by (intro end_upload[OF writer _ _ _ writers]) simp_all
  then have "contents (end_stream set_file_mtime (ep_stream (cl z)) (pa_fs C)) q = Some new"
    by (simp only: deltas_for_bytes(1)[OF bs(1) distinguished small])
  moreover have "end_stream set_file_mtime (ep_stream (sv z)) (pa_fs S) = pa_fs S"
    by (simp add: end_stream_def none)
  moreover have "j \<le> k \<and> (net_step C S ^^ (k - j)) n z" if "(net_step C S ^^ j) (start_net C a) n" for j n
    using transfer.every_run_ends[OF run finished_no_step that] ended by simp
  ultimately show ?thesis using ended by blast
qed

theorem download_finishes_on_every_schedule_witness:
  "\<exists>k z. (\<forall>j n. (net_step (example_party Map.empty) (example_party [''f'' \<mapsto> [1, 2, 9]]) ^^ j)
        (start_net (example_party Map.empty) example_download) n \<longrightarrow>
      j \<le> k \<and> (net_step (example_party Map.empty) (example_party [''f'' \<mapsto> [1, 2, 9]]) ^^ (k - j)) n z) \<and>
    ep_done (cl z) = Some (Inr ()) \<and> ep_done (sv z) = Some (Inr ()) \<and>
    end_stream utimens (ep_stream (sv z)) (pa_fs (example_party [''f'' \<mapsto> [1, 2, 9]])) = pa_fs (example_party [''f'' \<mapsto> [1, 2, 9]]) \<and>
    contents (end_stream utimens (ep_stream (cl z)) (pa_fs (example_party Map.empty))) ''/srv/f'' = Some [1, 2, 9]"
proof (rule download_finishes_on_every_schedule)
  show "path_join (sync_path (pa_config (example_party Map.empty))) (fa_path example_download) = ''/srv/f''"
    by (simp add: example_download_def) code_simp
  show "fs_read (pa_fs (example_party [''f'' \<mapsto> [1, 2, 9]])) ''/srv/f'' = Inr [1, 2, 9]"
    by simp (rule example_read, simp)
  have "\<not> fs_exists (example_tree Map.empty) ''/srv/f''"
    by (simp add: fs_exists_def example_paths Let_def) (simp add: example_tree_def is_dir_def)
  then show "own_version (pa_fs (example_party Map.empty)) ''/srv/f'' []" by (simp add: own_version_def)
  have "strong_separates example_hash 2 [] [1, 2, 9]" by (rule strong_separates_example) simp
  then show "strong_separates (pa_blake3 (example_party [''f'' \<mapsto> [1, 2, 9]]))
      (unat (config_block_size (pa_config (example_party Map.empty)))) [] [1, 2, 9]" by simp
  show "writable_name ''/srv/f'' ''f''" by (rule example_paths)
qed (simp_all add: example_download_def chunks.simps isize_max_def utimens.mtime_setter_axioms example_can_replace
  flip: example_paths(4))

text \<open>C16: A planned file with the direction Skip never finishes: whatever the schedule, after one
  step both sides wait for the other for ever, neither has closed its side, so the task of this
  file (and the client's sync, which waits for all of them) does not return.\<close>

theorem skipped_file_deadlocks:
  assumes "fa_direction a = direction_i32 Skip"
  shows "\<forall>j n. (net_step C S ^^ j) (start_net C a) n \<longrightarrow>
    j \<le> 1 \<and> \<not> closed (cl n) \<and> \<not> closed (sv n) \<and> (j = 1 \<longrightarrow> (\<nexists>y. net_step C S n y))"
proof (intro allI impI)
  fix j n
  assume run: "(net_step C S ^^ j) (start_net C a) n"
  obtain z where z: "(net_step C S ^^ 1) (start_net C a) z" "\<nexists>y. net_step C S z y"
    and opened: "\<not> closed (cl (start_net C a))" "\<not> closed (sv (start_net C a))" "\<not> closed (cl z)" "\<not> closed (sv z)"
    using skip_run[of a C S] assms by auto
  have *: "j \<le> 1" "(net_step C S ^^ (1 - j)) n z" using transfer.every_run_ends[OF z run] by simp_all
  then have "j = 0 \<and> n = start_net C a \<or> j = 1 \<and> n = z" using run by (cases j) auto
  then show "j \<le> 1 \<and> \<not> closed (cl n) \<and> \<not> closed (sv n) \<and> (j = 1 \<longrightarrow> (\<nexists>y. net_step C S n y))"
    using opened z(2) by auto
qed

theorem skipped_file_deadlocks_witness:
  "\<exists>n. (net_step (example_party Map.empty) (example_party Map.empty) ^^ 1)
      (start_net (example_party Map.empty) \<lparr>fa_path = ''f'', fa_direction = 0, fa_timestamp_latest_modified = None\<rparr>) n \<and>
    \<not> closed (cl n) \<and> \<not> closed (sv n) \<and> (\<nexists>y. net_step (example_party Map.empty) (example_party Map.empty) n y)"
proof -
  let ?a = "\<lparr>fa_path = ''f'', fa_direction = 0, fa_timestamp_latest_modified = None\<rparr>" and ?P = "example_party Map.empty"
  obtain n where "(net_step ?P ?P ^^ 1) (start_net ?P ?a) n" using skip_run[of ?a ?P ?P] by auto
  then show ?thesis using skipped_file_deadlocks[of ?a ?P ?P] by fastforce
qed

end
