(* ===== verification/Message_Size.thy ===== *)
theory Message_Size
  imports Server_Session
begin

section \<open>The size of messages\<close>

text \<open>
  A gRPC message is refused by its receiver when its frame is longer than 4 MB: the limit that
  src/sync/transfer.rs names beside \<open>MAX_LITERAL_CHUNK_SIZE\<close>, and that neither side raises.  What
  counts is the length of the frame, which is that of the encoded message, or of what the feature
  compression-zstd makes of it.

  \<open>encoded_len\<close> is the length of the protocol buffers of proto/harmonic.proto: a tag of one byte
  before every field, numbers as base-128 integers (signed ones as 64 bits), the length before
  texts, bytes and messages, and nothing for a number or text that is 0 or empty, unless it is the
  chosen field of a \<open>oneof\<close>.

  The theory shows which messages of a transfer are within the limit: deltas always, signatures as
  long as the receiver's version has not too many blocks.
\<close>

definition max_decoding_message_size :: nat where
  "max_decoding_message_size = 4 * 1024 * 1024"

subsection \<open>Encoded lengths\<close>

fun varint_len :: "nat \<Rightarrow> nat" where
  "varint_len n = (if n < 128 then 1 else Suc (varint_len (n div 128)))"

declare varint_len.simps [simp del]

definition delimited :: "nat \<Rightarrow> nat" where
  "delimited n = 1 + varint_len n + n"

definition number_len :: "u64 \<Rightarrow> nat" where
  "number_len x = (if x = 0 then 0 else 1 + varint_len (unat x))"

definition bytes_len :: "'a list \<Rightarrow> nat" where
  "bytes_len xs = (if xs = [] then 0 else delimited (length xs))"

definition timestamp_len :: "Timestamp \<Rightarrow> nat" where
  "timestamp_len t = number_len (ts_seconds t) + number_len (scast (ts_nanos t))"

definition file_action_len :: "FileAction \<Rightarrow> nat" where
  "file_action_len a = bytes_len (fa_path a) + number_len (scast (fa_direction a)) +
     (case fa_timestamp_latest_modified a of None \<Rightarrow> 0 | Some t \<Rightarrow> delimited (timestamp_len t))"

definition block_signature_len :: "BlockSignature \<Rightarrow> nat" where
  "block_signature_len b = number_len (weak_checksum b) + bytes_len (strong_checksum b)"

definition signatures_len :: "BlockSignatures \<Rightarrow> nat" where
  "signatures_len s = number_len (block_size s) + (\<Sum>b \<leftarrow> blocks s. delimited (block_signature_len b))"

definition delta_len :: "Delta \<Rightarrow> nat" where
  "delta_len d = number_len (delta_index d) +
     (case instruction d of
        None \<Rightarrow> 0
      | Some (BlockIndex k) \<Rightarrow> 1 + varint_len (unat k)
      | Some (Literal b) \<Rightarrow> delimited (length b))"

definition encoded_len :: "SyncRequest \<Rightarrow> nat" where
  "encoded_len m =
     (case payload m of
        None \<Rightarrow> 0
      | Some (FileActionP a) \<Rightarrow> delimited (file_action_len a)
      | Some (Signatures s) \<Rightarrow> delimited (signatures_len s)
      | Some (DeltaP d) \<Rightarrow> delimited (delta_len d)
      | Some (Complete b) \<Rightarrow> 2)"

text \<open>A compressed frame is hardly longer than the message: the bound of zstd.\<close>

definition frame_bound :: "(SyncRequest \<Rightarrow> nat) \<Rightarrow> bool" where
  "frame_bound frame_len \<longleftrightarrow> (\<forall>m. frame_len m \<le> encoded_len m + encoded_len m div 256 + 64)"

lemma frame_bound_encoded [simp]: "frame_bound encoded_len"
  by (simp add: frame_bound_def)

subsection \<open>Bounds\<close>

lemma varint_len_le: "n < 128 ^ Suc k \<Longrightarrow> varint_len n \<le> Suc k"
proof (induction k arbitrary: n)
  case 0
  then show ?case by (simp add: varint_len.simps)
next
  case (Suc k)
  then have "n div 128 < 128 ^ Suc k" by (simp add: less_mult_imp_div_less mult.commute)
  then show ?case using Suc.IH[of "n div 128"] by (subst varint_len.simps) simp
qed

lemma varint_len_pos: "0 < varint_len n"
  by (subst varint_len.simps) simp

lemma number_len_le: "number_len x \<le> 11"
proof -
  have "unat x < 2 ^ 64" using unsigned_less[where ?'a = nat, of x] by simp
  then have "varint_len (unat x) \<le> Suc 9" by (intro varint_len_le) simp
  then show ?thesis by (simp add: number_len_def)
qed

lemma delimited_le: "n \<le> b \<Longrightarrow> b < 2 ^ 28 \<Longrightarrow> delimited n \<le> b + 5"
  using varint_len_le[of n 3] by (simp add: delimited_def)

lemma delimited_ge: "n + 2 \<le> delimited n"
  using varint_len_pos[of n] by (simp add: delimited_def)

lemma small_delimited: "n < 128 \<Longrightarrow> delimited n = n + 2"
  by (simp add: delimited_def varint_len.simps)

lemma timestamp_len_le: "timestamp_len t \<le> 22"
  using number_len_le[of "ts_seconds t"] number_len_le[of "scast (ts_nanos t)"] by (simp add: timestamp_len_def)

lemma file_action_len_le: "length (fa_path a) \<le> n \<Longrightarrow> n < 2 ^ 20 \<Longrightarrow> file_action_len a \<le> n + 43"
proof -
  assume n: "length (fa_path a) \<le> n" "n < 2 ^ 20"
  have "bytes_len (fa_path a) \<le> n + 5" using delimited_le[OF n(1)] n(2) by (simp add: bytes_len_def)
  moreover have "(case fa_timestamp_latest_modified a of None \<Rightarrow> 0 | Some t \<Rightarrow> delimited (timestamp_len t)) \<le> 27"
    using delimited_le[OF timestamp_len_le] by (simp split: option.split)
  ultimately show ?thesis
    using number_len_le[of "scast (fa_direction a)"] unfolding file_action_len_def by linarith
qed

lemma delta_len_le:
  assumes "case instruction d of Some (Literal b) \<Rightarrow> length b \<le> MAX_LITERAL_CHUNK_SIZE | _ \<Rightarrow> True"
  shows "delta_len d \<le> MAX_LITERAL_CHUNK_SIZE + 16"
proof -
  have index: "1 + varint_len (unat k) \<le> MAX_LITERAL_CHUNK_SIZE + 5" for k :: u32
    using varint_len_le[of "unat k" 4] unsigned_less[where ?'a = nat, of k] by (simp add: MAX_LITERAL_CHUNK_SIZE_def)
  have literal: "delimited n \<le> MAX_LITERAL_CHUNK_SIZE + 5" if "n \<le> MAX_LITERAL_CHUNK_SIZE" for n
    using delimited_le[OF that] by (simp add: MAX_LITERAL_CHUNK_SIZE_def)
  have "(case instruction d of None \<Rightarrow> 0 | Some (BlockIndex k) \<Rightarrow> 1 + varint_len (unat k)
      | Some (Literal b) \<Rightarrow> delimited (length b)) \<le> MAX_LITERAL_CHUNK_SIZE + 5"
  proof (cases "instruction d")
    case (Some x)
    then show ?thesis using assms index literal by (cases x) simp_all
  qed simp
  then show ?thesis using number_len_le[of "delta_index d"] by (simp add: delta_len_def)
qed

lemma sum_list_le: "\<forall>x \<in> set xs. f x \<le> (u :: nat) \<Longrightarrow> sum_list (map f xs) \<le> u * length xs"
  by (induction xs) auto

lemma sum_list_ge: "\<forall>x \<in> set xs. l \<le> (f x :: nat) \<Longrightarrow> l * length xs \<le> sum_list (map f xs)"
  by (induction xs) auto

lemma signatures_len_le:
  assumes "\<forall>b \<in> set (blocks s). length (strong_checksum b) \<le> 32"
  shows "signatures_len s \<le> 47 * length (blocks s) + 11"
proof -
  have "delimited (block_signature_len b) \<le> 47" if "b \<in> set (blocks s)" for b
  proof -
    have "bytes_len (strong_checksum b) \<le> 34" using assms that by (auto simp: bytes_len_def small_delimited)
    then show ?thesis using number_len_le[of "weak_checksum b"] by (simp add: block_signature_len_def small_delimited)
  qed
  then have "(\<Sum>b \<leftarrow> blocks s. delimited (block_signature_len b)) \<le> 47 * length (blocks s)"
    by (intro sum_list_le) blast
  then show ?thesis
    using number_len_le[of "block_size s"] by (simp add: signatures_len_def)
qed

lemma signatures_len_ge:
  assumes "\<forall>b \<in> set (blocks s). length (strong_checksum b) = 32"
  shows "36 * length (blocks s) \<le> signatures_len s"
proof -
  have "36 \<le> delimited (block_signature_len b)" if "b \<in> set (blocks s)" for b
  proof -
    have "strong_checksum b \<noteq> []" using assms that by force
    then have "34 \<le> block_signature_len b" using assms that by (simp add: block_signature_len_def bytes_len_def small_delimited)
    then show ?thesis using delimited_ge[of "block_signature_len b"] by simp
  qed
  then have "36 * length (blocks s) \<le> (\<Sum>b \<leftarrow> blocks s. delimited (block_signature_len b))"
    by (intro sum_list_ge) blast
  then show ?thesis by (simp add: signatures_len_def)
qed

subsection \<open>The messages of a transfer\<close>

text \<open>What either side sends in the transfer of a file, of which the receiver has the version
  \<open>old\<close>.\<close>

definition transfer_messages ::
    "(byte list \<Rightarrow> byte list) \<Rightarrow> u64 \<Rightarrow> byte list \<Rightarrow> byte list \<Rightarrow> FileAction \<Rightarrow> SyncRequest set" where
  "transfer_messages blake3 bs old new a =
     {file_action_message a, request (Complete True), request (Signatures (signed blake3 bs old))} \<union>
     delta_message ` set (deltas_for blake3 bs old new)"

lemma signed_blocks:
  "length (blocks (signed blake3 bs old)) = length (chunks (unat bs) old)"
  "b \<in> set (blocks (signed blake3 bs old)) \<Longrightarrow> \<exists>c \<in> set (chunks (unat bs) old). strong_checksum b = blake3 c"
  by (auto simp: signed_def signatures_of_def)

lemma action_message_len: "length (fa_path a) \<le> 2 ^ 16 \<Longrightarrow> encoded_len (file_action_message a) \<le> 2 ^ 16 + 48"
  using delimited_le[OF file_action_len_le[of a "2 ^ 16"]] by (simp add: encoded_len_def file_action_message_def request_def)

text \<open>88000 blocks are 720 MB at the default block size of 8192.\<close>

lemma messages_fit:
  assumes "frame_bound frame_len" "0 < unat bs" "length (fa_path a) \<le> 2 ^ 16"
    and "\<forall>c \<in> set (chunks (unat bs) old). length (blake3 c) \<le> 32" "length (chunks (unat bs) old) \<le> 88000"
    and "m \<in> transfer_messages blake3 bs old new a"
  shows "frame_len m \<le> max_decoding_message_size"
proof -
  have "encoded_len m \<le> 4150000"
  proof -
    consider (action) "m = file_action_message a" | (complete) "m = request (Complete True)"
      | (signatures) "m = request (Signatures (signed blake3 bs old))"
      | (delta) d where "m = delta_message d" "d \<in> set (deltas_for blake3 bs old new)"
      using assms(6) by (auto simp: transfer_messages_def)
    then show ?thesis
    proof cases
      case action
      then show ?thesis
        using action_message_len[OF assms(3)] by simp
    next
      case complete
      then show ?thesis by (simp add: encoded_len_def request_def)
    next
      case signatures
      let ?s = "signed blake3 bs old"
      have "\<forall>b \<in> set (blocks ?s). length (strong_checksum b) \<le> 32" using signed_blocks(2) assms(4) by metis
      from signatures_len_le[OF this] have "signatures_len ?s \<le> 47 * 88000 + 11"
        using assms(5) by (simp add: signed_blocks(1))
      from delimited_le[OF this] show ?thesis using signatures by (simp add: encoded_len_def request_def)
    next
      case delta
      obtain pos x where d: "d = (pos, x)" by (cases d)
      have "case x of Literal b \<Rightarrow> length b \<le> MAX_LITERAL_CHUNK_SIZE | _ \<Rightarrow> True"
        using deltas_for_ok[OF assms(2), of blake3 old new] delta(2) by (auto simp: d list_all_iff split: Instruction.splits)
      then have "delta_len \<lparr>delta_index = word_of_nat pos, instruction = Some x\<rparr> \<le> MAX_LITERAL_CHUNK_SIZE + 16"
        by (intro delta_len_le) (simp split: Instruction.splits)
      from delimited_le[OF this] show ?thesis
        using delta(1) by (simp add: encoded_len_def d delta_message_def delta_request_def request_def MAX_LITERAL_CHUNK_SIZE_def)
    qed
  qed
  moreover have "frame_len m \<le> encoded_len m + encoded_len m div 256 + 64" using assms(1) by (simp add: frame_bound_def)
  ultimately show ?thesis by (simp add: max_decoding_message_size_def)
qed

text \<open>116509 blocks with 32 bytes of checksum each (954 MB at the default block size) are too many.\<close>

lemma signatures_too_long:
  assumes "\<forall>c \<in> set (chunks (unat bs) old). length (blake3 c) = 32" "116509 \<le> length (chunks (unat bs) old)"
  shows "max_decoding_message_size < encoded_len (request (Signatures (signed blake3 bs old)))"
proof -
  let ?s = "signed blake3 bs old"
  have "\<forall>b \<in> set (blocks ?s). length (strong_checksum b) = 32" using signed_blocks(2) assms(1) by metis
  from signatures_len_ge[OF this] have "36 * 116509 \<le> signatures_len ?s" using assms(2) by (simp add: signed_blocks(1))
  then show ?thesis
    using delimited_ge[of "signatures_len ?s"] by (simp add: encoded_len_def request_def max_decoding_message_size_def)
qed

end
