(* ===== verification/Sync_Pool.thy ===== *)
theory Sync_Pool
  imports Sync_Net Message_Size "HOL-Library.Multiset"
begin

section \<open>All files of a plan\<close>

text \<open>
  Models \<open>send_data_to_server\<close> of src/bin/client.rs: the client starts a task per planned
  file, in the order of the plan, as long as one of ten permits is free, and then waits for all of
  them.  A pool is what waits, what runs and the state of the world; a task that ends acts on
  the world and gives its permit back.  Tasks end in any order.  \<open>task a w w'\<close> says that the
  task for \<open>a\<close>, on the world \<open>w\<close>, can return and leave \<open>w'\<close>.
\<close>

record 'w pool =
  waiting :: "FileAction list"
  running :: "FileAction list"
  world :: 'w

definition permits :: nat where
  "permits = 10"

inductive pool_step :: "(FileAction \<Rightarrow> 'w \<Rightarrow> 'w \<Rightarrow> bool) \<Rightarrow> 'w pool \<Rightarrow> 'w pool \<Rightarrow> bool" for task where
  spawn: "length (running p) < permits \<Longrightarrow> waiting p = a # as \<Longrightarrow>
    pool_step task p (p\<lparr>waiting := as, running := running p @ [a]\<rparr>)"
| finish: "running p = us @ a # vs \<Longrightarrow> task a (world p) w \<Longrightarrow>
    pool_step task p (p\<lparr>running := us @ vs, world := w\<rparr>)"

inductive_cases pool_stepE: "pool_step task p q"

definition start_pool :: "FileAction list \<Rightarrow> 'w \<Rightarrow> 'w pool" where
  "start_pool plan w = \<lparr>waiting = plan, running = [], world = w\<rparr>"

definition pool_done :: "'w pool \<Rightarrow> bool" where
  "pool_done p \<longleftrightarrow> waiting p = [] \<and> running p = []"

text \<open>The effects of tasks that end one after another.\<close>

inductive effects :: "(FileAction \<Rightarrow> 'w \<Rightarrow> 'w \<Rightarrow> bool) \<Rightarrow> 'w \<Rightarrow> FileAction list \<Rightarrow> 'w \<Rightarrow> bool" for task w where
  none [simp]: "effects task w [] w"
| snoc: "effects task w as w1 \<Longrightarrow> task a w1 w2 \<Longrightarrow> effects task w (as @ [a]) w2"

subsection \<open>Accounting\<close>

definition measure_of :: "'w pool \<Rightarrow> nat" where
  "measure_of p = 2 * length (waiting p) + length (running p)"

lemma pool_step_measure: "pool_step task p q \<Longrightarrow> measure_of q < measure_of p"
  by (auto elim!: pool_stepE simp: measure_of_def)

lemma pool_run_measure: "(pool_step task ^^ k) p q \<Longrightarrow> k + measure_of q \<le> measure_of p"
proof (induction k arbitrary: q)
  case 0
  then show ?case by simp
next
  case (Suc k)
  obtain r where "(pool_step task ^^ k) p r" "pool_step task r q" using relpowp_Suc_E[OF Suc.prems] by blast
  with Suc.IH[of r] pool_step_measure[of task r q] show ?case by simp
qed

text \<open>Every run can be continued until no step is left.\<close>

lemma pool_runs_out: "\<exists>k q. (pool_step task ^^ k) p q \<and> (\<nexists>r. pool_step task q r)"
proof (induction "measure_of p" arbitrary: p rule: less_induct)
  case less
  show ?case
  proof (cases "\<exists>r. pool_step task p r")
    case True
    then obtain r where r: "pool_step task p r" by blast
    obtain k q where "(pool_step task ^^ k) r q" "\<nexists>s. pool_step task q s"
      using less[OF pool_step_measure[OF r]] by blast
    then have "(pool_step task ^^ Suc k) p q \<and> (\<nexists>s. pool_step task q s)"
      using r relpowp_Suc_I2[of "pool_step task" p r k q] by blast
    then show ?thesis by blast
  next
    case False
    then show ?thesis by (intro exI[of _ 0] exI[of _ p]) simp
  qed
qed

lemma pool_account:
  assumes "(pool_step task ^^ k) (start_pool plan w) p"
  shows "length (running p) \<le> permits \<and> (\<exists>n. waiting p = drop n plan \<and>
    (\<exists>ended. effects task w ended (world p) \<and> mset ended + mset (running p) = mset (take n plan)))"
  using assms
proof (induction k arbitrary: p)
  case 0
  then have "p = start_pool plan w" by simp
  then show ?case
    by (auto simp: start_pool_def intro!: exI[of _ 0] exI[of _ "[]"])
next
  case (Suc k)
  obtain q where run: "(pool_step task ^^ k) (start_pool plan w) q" and step: "pool_step task q p"
    using relpowp_Suc_E[OF Suc.prems] by blast
  obtain n ended where IH: "length (running q) \<le> permits" "waiting q = drop n plan"
      "effects task w ended (world q)" "mset ended + mset (running q) = mset (take n plan)"
    using Suc.IH[OF run] by blast
  from step show ?case
  proof (cases rule: pool_step.cases)
    case (spawn a as)
    then have n: "n < length plan" "plan ! n = a" "drop (Suc n) plan = as"
      using IH(2) by (auto simp: drop_Suc nth_via_drop intro: not_le_imp_less simp flip: tl_drop)
    then have "take (Suc n) plan = take n plan @ [a]" by (simp add: take_Suc_conv_app_nth)
    then have "mset ended + mset (running p) = mset (take (Suc n) plan)"
      using IH(4) spawn(1) by simp
    then show ?thesis using IH(3) n spawn(1,2) by auto
  next
    case (finish us a vs w')
    have "effects task w (ended @ [a]) w'" by (rule effects.snoc[OF IH(3) finish(3)])
    moreover have "mset (ended @ [a]) + mset (us @ vs) = mset (take n plan)"
      using IH(4) finish(2) by simp
    ultimately show ?thesis using IH(1,2) finish(1,2) by (intro conjI exI[of _ n] exI[of _ "ended @ [a]"]) simp_all
  qed
qed

lemma pool_progress:
  assumes "\<not> pool_done p" "\<And>a. a \<in> set (running p) \<Longrightarrow> \<exists>w. task a (world p) w"
  shows "\<exists>q. pool_step task p q"
proof (cases "running p")
  case Nil
  then obtain a as where "waiting p = a # as" using assms(1) by (cases "waiting p") (auto simp: pool_done_def)
  then show ?thesis using pool_step.spawn[of p a as task] Nil by (auto simp: permits_def)
next
  case (Cons a as)
  then obtain w where "task a (world p) w" using assms(2) by auto
  then show ?thesis using pool_step.finish[of p "[]" a as task w] Cons by auto
qed

lemma pool_done_stuck: "pool_done p \<Longrightarrow> \<not> pool_step task p q"
  by (auto simp: pool_done_def elim!: pool_stepE)

lemma sub_distinct:
  assumes "mset xs \<subseteq># mset ys" "distinct ys"
  shows "distinct xs \<and> set xs \<subseteq> set ys"
proof -
  obtain M where M: "mset ys = mset xs + M" using assms(1) by (auto simp: mset_subset_eq_exists_conv)
  obtain zs where "mset zs = M" using ex_mset by blast
  then have "mset (xs @ zs) = mset ys" using M by simp
  then show ?thesis using assms(2) by (metis distinct_append mset_eq_imp_distinct_iff mset_eq_setD set_append sup_ge1)
qed

subsection \<open>Tasks that do not disturb each other\<close>

text \<open>The contract under which a plan can be carried out in any order: a task that is ready returns
  and delivers, and another task that is apart from it is disturbed neither before nor after.\<close>

locale independent_tasks =
  fixes task :: "FileAction \<Rightarrow> 'w \<Rightarrow> 'w \<Rightarrow> bool"
    and ready delivered :: "FileAction \<Rightarrow> 'w \<Rightarrow> bool"
    and apart :: "FileAction \<Rightarrow> FileAction \<Rightarrow> bool"
  assumes returns: "ready a w \<Longrightarrow> \<exists>w'. task a w w'"
    and delivers: "ready a w \<Longrightarrow> task a w w' \<Longrightarrow> delivered a w'"
    and keeps_ready: "ready a w \<Longrightarrow> task a w w' \<Longrightarrow> ready b w \<Longrightarrow> apart a b \<Longrightarrow> ready b w'"
    and keeps_delivered: "ready a w \<Longrightarrow> task a w w' \<Longrightarrow> delivered b w \<Longrightarrow> apart a b \<Longrightarrow> delivered b w'"
begin

lemma effects_deliver:
  assumes "effects task w ended w'" "mset ended \<subseteq># mset plan" "distinct plan"
    and "\<forall>a \<in> set plan. ready a w" "\<forall>a \<in> set plan. \<forall>b \<in> set plan. a \<noteq> b \<longrightarrow> apart a b"
  shows "(\<forall>a \<in> set ended. delivered a w') \<and> (\<forall>a \<in> set plan - set ended. ready a w')"
  using assms(1,2)
proof (induction rule: effects.induct)
  case none
  then show ?case using assms(4) by simp
next
  case (snoc as w1 a w2)
  have "distinct (as @ [a])" "set (as @ [a]) \<subseteq> set plan"
    using sub_distinct[OF snoc.prems assms(3)] by simp_all
  then have a: "a \<in> set plan" "a \<notin> set as" and as: "set as \<subseteq> set plan" by auto
  have sub: "mset as \<subseteq># mset plan" using snoc.prems by (simp add: subset_mset.add_decreasing2 subset_eq_diff_conv mset_subset_eq_insertD subset_mset.less_imp_le)
  have ready_a: "ready a w1" using snoc.IH sub a by simp
  have apart: "apart a b" if "b \<in> set plan" "b \<noteq> a" for b using that a assms(5) by auto
  have "delivered b w2" if "b \<in> set (as @ [a])" for b
  proof (cases "b = a")
    case True
    then show ?thesis using delivers[OF ready_a snoc.hyps(2)] by simp
  next
    case False
    then have "b \<in> set as" using that by simp
    then show ?thesis using keeps_delivered[OF ready_a snoc.hyps(2)] snoc.IH sub apart False as by blast
  qed
  moreover have "ready b w2" if "b \<in> set plan - set (as @ [a])" for b
    using that keeps_ready[OF ready_a snoc.hyps(2)] snoc.IH sub apart by auto
  ultimately show ?case by blast
qed

lemma pool_delivers:
  assumes "(pool_step task ^^ k) (start_pool plan w) p" "distinct plan"
    and "\<forall>a \<in> set plan. ready a w" "\<forall>a \<in> set plan. \<forall>b \<in> set plan. a \<noteq> b \<longrightarrow> apart a b"
  shows "k \<le> 2 * length plan \<and> length (running p) \<le> permits \<and>
    ((\<nexists>q. pool_step task p q) \<longleftrightarrow> pool_done p) \<and>
    (pool_done p \<longrightarrow> (\<forall>a \<in> set plan. delivered a (world p)))"
proof -
  obtain n ended where account: "length (running p) \<le> permits" "waiting p = drop n plan"
      "effects task w ended (world p)" "mset ended + mset (running p) = mset (take n plan)"
    using pool_account[OF assms(1)] by blast
  have split: "mset plan = mset (take n plan) + mset (drop n plan)"
    by (metis append_take_drop_id mset_append)
  then have total: "mset plan = mset ended + mset (running p) + mset (waiting p)"
    using account(2,4) by simp
  have "mset ended \<subseteq># mset plan" unfolding total by simp
  note deliver = effects_deliver[OF account(3) this assms(2-4)]
  have "distinct (ended @ running p @ waiting p)"
    using total assms(2) by (metis mset_eq_imp_distinct_iff mset_append add.assoc)
  moreover have "set (ended @ running p @ waiting p) = set plan"
    using total by (metis mset_append add.assoc mset_eq_setD)
  ultimately have "a \<in> set plan - set ended" if "a \<in> set (running p)" for a using that by auto
  then have "\<exists>w. task a (world p) w" if "a \<in> set (running p)" for a
    using that deliver returns by blast
  then have "(\<nexists>q. pool_step task p q) \<longleftrightarrow> pool_done p"
    using pool_progress[of p task] pool_done_stuck[of p task] by blast
  moreover have "\<forall>a \<in> set plan. delivered a (world p)" if "pool_done p"
    using that total deliver by (metis add.right_neutral mset.simps(1) mset_eq_setD pool_done_def)
  moreover have "k \<le> 2 * length plan"
    using pool_run_measure[OF assms(1)] by (simp add: measure_of_def start_pool_def)
  ultimately show ?thesis using account(1) by blast
qed

end

subsection \<open>The task of a file\<close>

text \<open>The files of the client and of the server.  Everything else about the two parties stays as
  it is.\<close>

record files =
  client_files :: file_system
  server_files :: file_system

definition client_at :: "party \<Rightarrow> files \<Rightarrow> party" where
  "client_at C w = C\<lparr>pa_fs := client_files w\<rparr>"

definition server_at :: "party \<Rightarrow> files \<Rightarrow> party" where
  "server_at S w = S\<lparr>pa_fs := server_files w\<rparr>"

lemma party_at_simps [simp]:
  "pa_fs (client_at C w) = client_files w" "pa_clean (client_at C w) = pa_clean C"
  "pa_blake3 (client_at C w) = pa_blake3 C" "pa_config (client_at C w) = pa_config C"
  "pa_life (client_at C w) = pa_life C"
  "pa_fs (server_at S w) = server_files w" "pa_clean (server_at S w) = pa_clean S"
  "pa_blake3 (server_at S w) = pa_blake3 S" "pa_config (server_at S w) = pa_config S"
  "pa_life (server_at S w) = pa_life S"
  by (simp_all add: client_at_def server_at_def)

text \<open>The task of one file, from the call of \<open>sync_file\<close> to the end of both sides and of
  their writers, on some schedule of the two.\<close>

definition transfer_task ::
    "(file_system \<Rightarrow> PathBuf \<Rightarrow> mtime \<Rightarrow> io_error + file_system) \<Rightarrow> party \<Rightarrow> party \<Rightarrow> FileAction \<Rightarrow>
     files \<Rightarrow> files \<Rightarrow> bool" where
  "transfer_task set_file_mtime C S a w w' \<longleftrightarrow>
     (\<exists>k z. (net_step (client_at C w) (server_at S w) ^^ k) (start_net (client_at C w) a) z \<and>
        ep_done (cl z) \<noteq> None \<and> ep_done (sv z) \<noteq> None \<and>
        w' = \<lparr>client_files = end_stream set_file_mtime (ep_stream (cl z)) (client_files w),
              server_files = end_stream set_file_mtime (ep_stream (sv z)) (server_files w)\<rparr>)"

lemma transfer_task_unique:
  assumes "(net_step (client_at C w) (server_at S w) ^^ k) (start_net (client_at C w) a) z"
    and "ep_done (cl z) \<noteq> None" "ep_done (sv z) \<noteq> None"
  shows "transfer_task set_file_mtime C S a w w' \<longleftrightarrow>
    w' = \<lparr>client_files = end_stream set_file_mtime (ep_stream (cl z)) (client_files w),
          server_files = end_stream set_file_mtime (ep_stream (sv z)) (server_files w)\<rparr>"
proof -
  let ?step = "net_step (client_at C w) (server_at S w)"
  have "z' = z" if run: "(?step ^^ j) (start_net (client_at C w) a) z'" and ended: "ep_done (cl z') \<noteq> None" "ep_done (sv z') \<noteq> None" for j z'
  proof -
    have "(?step ^^ (k - j)) z' z"
      using transfer.every_run_ends[OF assms(1) finished_no_step[OF assms(2,3)] run] by simp
    then consider "z' = z" | y where "?step z' y" by (auto elim: relpowp_E2)
    then show ?thesis using finished_no_step[OF ended] by cases auto
  qed
  then show ?thesis using assms unfolding transfer_task_def by blast
qed

lemma skipped_task_never_returns:
  assumes "fa_direction a \<noteq> direction_i32 Download" "fa_direction a \<noteq> direction_i32 Upload"
  shows "\<not> transfer_task set_file_mtime C S a w w'"
proof
  let ?step = "net_step (client_at C w) (server_at S w)" and ?n = "start_net (client_at C w) a"
  assume "transfer_task set_file_mtime C S a w w'"
  then obtain j n where run: "(?step ^^ j) ?n n" and ended: "closed (cl n)"
    by (auto simp: transfer_task_def closed_def)
  obtain z where z: "(?step ^^ 1) ?n z" "\<nexists>y. ?step z y" "\<not> closed (cl ?n)" "\<not> closed (cl z)"
    using skip_run[OF assms] by blast
  have "j \<le> 1" "(?step ^^ (1 - j)) n z" using transfer.every_run_ends[OF z(1,2) run] by simp_all
  then have "n = ?n \<or> n = z" using run by (cases j) auto
  then show False using z(3,4) ended by auto
qed

subsection \<open>Where a transfer reads and writes\<close>

definition places :: "file_system \<Rightarrow> PathBuf \<Rightarrow> string list set" where
  "places F q = {resolve F q, resolve F (tmp_file q)}"

text \<open>What is not below a changed place is as before.\<close>

definition clear_of :: "string list set \<Rightarrow> string list \<Rightarrow> bool" where
  "clear_of K l \<longleftrightarrow> (\<forall>k \<in> K. \<not> prefix k l)"

lemma clear_ofD: "clear_of K l \<Longrightarrow> prefix l' l \<Longrightarrow> l' \<notin> K"
  by (auto simp: clear_of_def)

lemma lookup_clear:
  assumes "same_except K F F'" "clear_of K l"
  shows "lookup_file F' l = lookup_file F l" "is_dir F' l = is_dir F l" "is_dir F' (butlast l) = is_dir F (butlast l)"
    "nodes F' l = nodes F l"
proof -
  have same: "nodes F' l' = nodes F l'" if "prefix l' l" for l'
    using assms(1) clear_ofD[OF assms(2) that] by (simp add: same_except_def)
  then show nodes: "nodes F' l = nodes F l" by simp
  show dirs: "is_dir F' l = is_dir F l" by (simp add: is_dir_def nodes)
  show "is_dir F' (butlast l) = is_dir F (butlast l)" by (simp add: is_dir_def same prefixeq_butlast)
  have missing: "missing_kind F' l = missing_kind F l"
    by (simp add: missing_kind_def same take_is_prefix)
  show "lookup_file F' l = lookup_file F l" unfolding lookup_file_def nodes dirs missing ..
qed

lemma read_clear:
  assumes "same_except K F F'" "clear_of K (resolve F q)"
  shows "fs_read F' q = fs_read F q" "fs_exists F' q = fs_exists F q" "contents F' q = contents F q"
  using lookup_clear[OF assms] assms(1) same_except_resolve[OF assms(1), of q]
  by (simp_all add: fs_read_def fs_exists_def contents_def same_except_def Let_def split: option.split)

text \<open>What the receiver of a file needs: it can replace the file, and has a version of it (or none)
  whose blocks the checksum tells apart from the new contents.\<close>

definition can_receive :: "(byte list \<Rightarrow> byte list) \<Rightarrow> u64 \<Rightarrow> file_system \<Rightarrow> PathBuf \<Rightarrow> byte list \<Rightarrow> bool" where
  "can_receive blake3 bs F q new \<longleftrightarrow> (\<exists>f. writable_name q f) \<and> can_replace F q \<and>
     0 < unat bs \<and> unat bs \<le> isize_max \<and>
     (\<exists>old. (fs_read F q = Inr old \<or> fs_read F q = Inl NotFound \<and> \<not> fs_exists F q \<and> old = []) \<and>
        strong_separates blake3 (unat bs) old new \<and> length (chunks (unat bs) old) \<le> 2 ^ 32)"

lemma can_receive_clear:
  assumes "same_except K F F'" "\<forall>l \<in> places F q. clear_of K l"
  shows "can_receive blake3 bs F' q new \<longleftrightarrow> can_receive blake3 bs F q new"
proof -
  have clear: "clear_of K (resolve F q)" "clear_of K (resolve F (tmp_file q))" using assms(2) by (simp_all add: places_def)
  have "can_replace F' q = can_replace F q"
    using lookup_clear[OF assms(1) clear(1)] lookup_clear[OF assms(1) clear(2)] assms(1)
      same_except_resolve[OF assms(1)] by (simp add: can_replace_def same_except_def)
  then show ?thesis by (simp add: can_receive_def read_clear[OF assms(1) clear(1)])
qed

lemma end_upload_frame:
  assumes "mtime_setter set_file_mtime" "writable_name q f" "can_replace F q"
    and "contiguous cache 0 ps" "indices_ok cache ps" "length (pieces_bytes cache ps) < 2 ^ 63"
    and "stream_writers h = [\<lparr>wt_path = q, wt_cache = cache, wt_modified_ts = ts,
        wt_deltas = map piece_delta ps, wt_lifetime = None\<rparr>]"
  shows "same_except (places F q) F (end_stream set_file_mtime h F)"
proof -
  obtain F' where "delta_writer set_file_mtime q cache ts (map piece_delta ps) F = (F', Inr ())"
      "same_except {resolve F q, resolve F (tmp_file q)} F F'"
    using delta_writer_pieces[OF assms(1-6)] by blast
  then show ?thesis by (simp add: end_stream_def assms(7) run_writer_def places_def)
qed

text \<open>The writer at the end of a transfer to a receiver that can receive.\<close>

lemma received:
  assumes "mtime_setter set_file_mtime" "can_receive blake3 bs F q new" "length new < 2 ^ 63"
    and "fs_read F q = Inr old \<or> fs_read F q = Inl NotFound \<and> \<not> fs_exists F q \<and> old = []"
    and "stream_writers h = [\<lparr>wt_path = q, wt_cache = chunks (unat bs) old, wt_modified_ts = ts,
        wt_deltas = map piece_delta (deltas_for blake3 bs old new), wt_lifetime = None\<rparr>]"
  shows "same_except (places F q) F (end_stream set_file_mtime h F) \<and>
    contents (end_stream set_file_mtime h F) q = Some new"
proof -
  obtain f old' where name: "writable_name q f" and can: "can_replace F q" and bs: "0 < unat bs"
    and old': "fs_read F q = Inr old' \<or> fs_read F q = Inl NotFound \<and> \<not> fs_exists F q \<and> old' = []"
    and sep: "strong_separates blake3 (unat bs) old' new" and few: "length (chunks (unat bs) old') \<le> 2 ^ 32"
    using assms(2) by (auto simp: can_receive_def)
  have "old' = old" using assms(4) old' by auto
  note sep = sep[unfolded this] and few = few[unfolded this]
  note bytes = deltas_for_bytes[OF bs sep few] deltas_for_indices[OF bs sep few]
  note writer = end_upload[OF assms(1) name can _ _ _ assms(5)] end_upload_frame[OF assms(1) name can _ _ _ assms(5)]
  show ?thesis using writer bytes assms(3) by simp
qed

subsection \<open>Planned files\<close>

text \<open>The paths of a planned file on the two sides.\<close>

definition client_path :: "party \<Rightarrow> FileAction \<Rightarrow> PathBuf" where
  "client_path C a = path_join (sync_path (pa_config C)) (fa_path a)"

definition server_path :: "party \<Rightarrow> FileAction \<Rightarrow> PathBuf" where
  "server_path S a = (case get_absolute_path (pa_clean S) (fa_path a) (sync_path (pa_config S)) of Inr q \<Rightarrow> q | Inl _ \<Rightarrow> [])"

text \<open>A planned file is ready when its paths are accepted on both sides, the sender has the bytes
  \<open>B a\<close> and the receiver can take them; it is delivered when both sides have them.  The
  working directories are those of \<open>C\<close> and \<open>S\<close>.\<close>

definition sane :: "party \<Rightarrow> party \<Rightarrow> FileAction \<Rightarrow> bool" where
  "sane C S a \<longleftrightarrow> get_absolute_path (pa_clean C) (fa_path a) (sync_path (pa_config C)) = Inr (client_path C a) \<and>
     (\<exists>q. get_absolute_path (pa_clean S) (fa_path a) (sync_path (pa_config S)) = Inr q) \<and>
     pa_blake3 C = pa_blake3 S \<and> pa_life C (client_path C a) = None \<and> pa_life S (server_path S a) = None"

definition ready ::
    "(file_system \<Rightarrow> PathBuf \<Rightarrow> mtime \<Rightarrow> io_error + file_system) \<Rightarrow> party \<Rightarrow> party \<Rightarrow> (FileAction \<Rightarrow> byte list) \<Rightarrow>
     FileAction \<Rightarrow> files \<Rightarrow> bool" where
  "ready set_file_mtime C S B a w \<longleftrightarrow> mtime_setter set_file_mtime \<and> sane C S a \<and> length (B a) < 2 ^ 63 \<and>
     cwd (client_files w) = cwd (pa_fs C) \<and> cwd (server_files w) = cwd (pa_fs S) \<and>
     (fa_direction a = direction_i32 Download \<and> fs_read (server_files w) (server_path S a) = Inr (B a) \<and>
        can_receive (pa_blake3 S) (config_block_size (pa_config C)) (client_files w) (client_path C a) (B a) \<or>
      fa_direction a = direction_i32 Upload \<and> fs_read (client_files w) (client_path C a) = Inr (B a) \<and>
        can_receive (pa_blake3 S) (config_block_size (pa_config S)) (server_files w) (server_path S a) (B a))"

definition delivered :: "party \<Rightarrow> party \<Rightarrow> (FileAction \<Rightarrow> byte list) \<Rightarrow> FileAction \<Rightarrow> files \<Rightarrow> bool" where
  "delivered C S B a w \<longleftrightarrow>
     cwd (client_files w) = cwd (pa_fs C) \<and> cwd (server_files w) = cwd (pa_fs S) \<and>
     contents (client_files w) (client_path C a) = Some (B a) \<and>
     contents (server_files w) (server_path S a) = Some (B a)"

lemma fs_read_contents: "fs_read F q = Inr c \<Longrightarrow> contents F q = Some c"
  by (auto simp: fs_read_Inr contents_def)

text \<open>Two planned files are apart when neither uses the name, or the temporary name, of the other
  or of a directory of the other.\<close>

definition apart :: "party \<Rightarrow> party \<Rightarrow> FileAction \<Rightarrow> FileAction \<Rightarrow> bool" where
  "apart C S a b \<longleftrightarrow>
     (\<forall>l \<in> places (pa_fs C) (client_path C b). clear_of (places (pa_fs C) (client_path C a)) l) \<and>
     (\<forall>l \<in> places (pa_fs S) (server_path S b). clear_of (places (pa_fs S) (server_path S a)) l)"

lemma resolve_cwd: "cwd F = cwd G \<Longrightarrow> resolve F p = resolve G p"
  by (simp add: resolve_def)

lemma places_cwd: "cwd F = cwd G \<Longrightarrow> places F q = places G q"
  using resolve_cwd[of F G] by (simp add: places_def)

text \<open>What the task of a ready file does.\<close>

definition transfer_effect :: "party \<Rightarrow> party \<Rightarrow> (FileAction \<Rightarrow> byte list) \<Rightarrow> FileAction \<Rightarrow> files \<Rightarrow> files \<Rightarrow> bool" where
  "transfer_effect C S B a w w' \<longleftrightarrow>
     (if fa_direction a = direction_i32 Download then
        server_files w' = server_files w \<and>
        same_except (places (pa_fs C) (client_path C a)) (client_files w) (client_files w') \<and>
        contents (client_files w') (client_path C a) = Some (B a)
      else
        client_files w' = client_files w \<and>
        same_except (places (pa_fs S) (server_path S a)) (server_files w) (server_files w') \<and>
        contents (server_files w') (server_path S a) = Some (B a))"

definition files_after ::
    "(file_system \<Rightarrow> PathBuf \<Rightarrow> mtime \<Rightarrow> io_error + file_system) \<Rightarrow> files \<Rightarrow> net \<Rightarrow> files" where
  "files_after set_file_mtime w z =
     \<lparr>client_files = end_stream set_file_mtime (ep_stream (cl z)) (client_files w),
      server_files = end_stream set_file_mtime (ep_stream (sv z)) (server_files w)\<rparr>"

text \<open>The version that the receiver of a file has, and the size of its blocks.\<close>

definition receiver_version :: "party \<Rightarrow> party \<Rightarrow> FileAction \<Rightarrow> files \<Rightarrow> byte list" where
  "receiver_version C S a w =
     (case if fa_direction a = direction_i32 Download then fs_read (client_files w) (client_path C a)
           else fs_read (server_files w) (server_path S a) of
        Inl _ \<Rightarrow> []
      | Inr old \<Rightarrow> old)"

definition receiver_block_size :: "party \<Rightarrow> party \<Rightarrow> FileAction \<Rightarrow> u64" where
  "receiver_block_size C S a = config_block_size (pa_config (if fa_direction a = direction_i32 Download then C else S))"

text \<open>A run of a transfer that completes on both sides and has the effect; the side that receives
  sends few messages.\<close>

definition transfer_ends ::
    "(file_system \<Rightarrow> PathBuf \<Rightarrow> mtime \<Rightarrow> io_error + file_system) \<Rightarrow> party \<Rightarrow> party \<Rightarrow> (FileAction \<Rightarrow> byte list) \<Rightarrow>
     FileAction \<Rightarrow> files \<Rightarrow> nat \<Rightarrow> net \<Rightarrow> bool" where
  "transfer_ends set_file_mtime C S B a w k z \<longleftrightarrow>
     (net_step (client_at C w) (server_at S w) ^^ k) (start_net (client_at C w) a) z \<and>
     ep_done (cl z) = Some (Inr ()) \<and> ep_done (sv z) = Some (Inr ()) \<and>
     (length (sent (cl z)) \<le> 3 \<or> length (sent (sv z)) \<le> 3) \<and>
     set (sent (cl z)) \<union> set (sent (sv z)) \<subseteq>
       transfer_messages (pa_blake3 S) (receiver_block_size C S a) (receiver_version C S a w) (B a) a \<and>
     transfer_effect C S B a w (files_after set_file_mtime w z)"

lemma own_version_read:
  "fs_read F q = Inr old \<or> fs_read F q = Inl NotFound \<and> \<not> fs_exists F q \<and> old = [] \<Longrightarrow> own_version F q old"
  by (auto simp: own_version_def fs_read_Inr fs_exists_def Let_def)

lemma download_ends:
  assumes "ready set_file_mtime C S B a w" "fa_direction a = direction_i32 Download"
  shows "\<exists>k z. transfer_ends set_file_mtime C S B a w k z"
proof -
  let ?bs = "config_block_size (pa_config C)" and ?q = "client_path C a"
  have setter: "mtime_setter set_file_mtime" and sane: "sane C S a" and len: "length (B a) < 2 ^ 63"
    and cwd: "cwd (client_files w) = cwd (pa_fs C)"
    and src: "fs_read (server_files w) (server_path S a) = Inr (B a)"
    and can: "can_receive (pa_blake3 S) ?bs (client_files w) ?q (B a)"
    using assms by (auto simp: ready_def)
  obtain old where old: "fs_read (client_files w) ?q = Inr old \<or>
      fs_read (client_files w) ?q = Inl NotFound \<and> \<not> fs_exists (client_files w) ?q \<and> old = []"
    and bs: "0 < unat ?bs" "unat ?bs \<le> isize_max"
    using can by (auto simp: can_receive_def)
  have server: "get_absolute_path (pa_clean S) (fa_path a) (sync_path (pa_config S)) = Inr (server_path S a)"
    using sane by (auto simp: sane_def server_path_def)
  have "\<exists>k z. (net_step (client_at C w) (server_at S w) ^^ k) (start_net (client_at C w) a) z \<and>
    sent (cl z) = [file_action_message a, request (Signatures (signed (pa_blake3 (server_at S w)) ?bs old)), request (Complete True)] \<and>
    sent (sv z) = map delta_message (deltas_for (pa_blake3 (server_at S w)) ?bs old (B a)) @ [request (Complete True), request (Complete True)] \<and>
    ep_done (cl z) = Some (Inr ()) \<and> ep_done (sv z) = Some (Inr ()) \<and> stream_writers (ep_stream (sv z)) = [] \<and>
    stream_writers (ep_stream (cl z)) = [\<lparr>wt_path = ?q, wt_cache = chunks (unat ?bs) old,
      wt_modified_ts = unwrap_or_default (fa_timestamp_latest_modified a),
      wt_deltas = map piece_delta (deltas_for (pa_blake3 (server_at S w)) ?bs old (B a)), wt_lifetime = None\<rparr>]"
    by (rule download_run_sent[OF assms(2)]) (use sane bs old server src in \<open>simp_all add: sane_def own_version_read client_path_def\<close>)
  then obtain k z where run: "(net_step (client_at C w) (server_at S w) ^^ k) (start_net (client_at C w) a) z"
      "ep_done (cl z) = Some (Inr ())" "ep_done (sv z) = Some (Inr ())" and sent: "sent (cl z) = [file_action_message a, request (Signatures (signed (pa_blake3 S) ?bs old)), request (Complete True)]"
      "sent (sv z) = map delta_message (deltas_for (pa_blake3 S) ?bs old (B a)) @ [request (Complete True), request (Complete True)]"
    and none: "stream_writers (ep_stream (sv z)) = []"
    and writers: "stream_writers (ep_stream (cl z)) = [\<lparr>wt_path = ?q, wt_cache = chunks (unat ?bs) old,
      wt_modified_ts = unwrap_or_default (fa_timestamp_latest_modified a),
      wt_deltas = map piece_delta (deltas_for (pa_blake3 S) ?bs old (B a)), wt_lifetime = None\<rparr>]"
    by auto
  have version: "receiver_version C S a w = old" "receiver_block_size C S a = ?bs"
    using old assms(2) by (auto simp: receiver_version_def receiver_block_size_def)
  have "set (sent (cl z)) \<union> set (sent (sv z)) \<subseteq> transfer_messages (pa_blake3 S) ?bs old (B a) a"
    by (auto simp: sent transfer_messages_def)
  then show ?thesis
    using received[OF setter can len old writers] run sent assms(2) version
    by (intro exI[of _ k] exI[of _ z])
      (simp add: transfer_ends_def transfer_effect_def files_after_def end_stream_def[of _ "ep_stream (sv z)"] none places_cwd[OF cwd])
qed

lemma upload_ends:
  assumes "ready set_file_mtime C S B a w" "fa_direction a = direction_i32 Upload"
  shows "\<exists>k z. transfer_ends set_file_mtime C S B a w k z"
proof -
  let ?bs = "config_block_size (pa_config S)" and ?q = "server_path S a"
  have setter: "mtime_setter set_file_mtime" and sane: "sane C S a" and len: "length (B a) < 2 ^ 63"
    and cwd: "cwd (server_files w) = cwd (pa_fs S)"
    and src: "fs_read (client_files w) (client_path C a) = Inr (B a)"
    and can: "can_receive (pa_blake3 S) ?bs (server_files w) ?q (B a)"
    using assms by (auto simp: ready_def)
  obtain old where old: "fs_read (server_files w) ?q = Inr old \<or>
      fs_read (server_files w) ?q = Inl NotFound \<and> \<not> fs_exists (server_files w) ?q \<and> old = []"
    and bs: "0 < unat ?bs" "unat ?bs \<le> isize_max"
    using can by (auto simp: can_receive_def)
  have server: "get_absolute_path (pa_clean S) (fa_path a) (sync_path (pa_config S)) = Inr ?q"
    using sane by (auto simp: sane_def server_path_def)
  have signed: "generate_blocks_signatures (server_files w) (pa_clean S) (pa_blake3 S) (fa_path a) (sync_path (pa_config S)) ?bs =
      Inr (signed (pa_blake3 S) ?bs old, chunks (unat ?bs) old)"
    using old generate_blocks_signatures_ok[OF server _ bs] generate_blocks_signatures_NotFound[OF server _ bs]
    by (auto simp: signed_def signed_empty)
  have "\<exists>k z. (net_step (client_at C w) (server_at S w) ^^ k) (start_net (client_at C w) a) z \<and>
    sent (cl z) = file_action_message a # map delta_message (deltas_for (pa_blake3 (client_at C w)) ?bs old (B a)) @
      [request (Complete True), request (Complete True)] \<and>
    sent (sv z) = [request (Signatures (signed (pa_blake3 (client_at C w)) ?bs old)), request (Complete True)] \<and>
    ep_done (cl z) = Some (Inr ()) \<and> ep_done (sv z) = Some (Inr ()) \<and> stream_writers (ep_stream (cl z)) = [] \<and>
    stream_writers (ep_stream (sv z)) = [\<lparr>wt_path = ?q, wt_cache = chunks (unat ?bs) old,
      wt_modified_ts = unwrap_or_default (fa_timestamp_latest_modified a),
      wt_deltas = map piece_delta (deltas_for (pa_blake3 (client_at C w)) ?bs old (B a)), wt_lifetime = None\<rparr>]"
    by (rule upload_run_sent[OF assms(2)]) (use sane bs signed server src in \<open>simp_all add: sane_def\<close>)
  then obtain k z where run: "(net_step (client_at C w) (server_at S w) ^^ k) (start_net (client_at C w) a) z"
      "ep_done (cl z) = Some (Inr ())" "ep_done (sv z) = Some (Inr ())" and sent: "sent (cl z) = file_action_message a # map delta_message (deltas_for (pa_blake3 S) ?bs old (B a)) @
        [request (Complete True), request (Complete True)]"
      "sent (sv z) = [request (Signatures (signed (pa_blake3 S) ?bs old)), request (Complete True)]"
    and none: "stream_writers (ep_stream (cl z)) = []"
    and writers: "stream_writers (ep_stream (sv z)) = [\<lparr>wt_path = ?q, wt_cache = chunks (unat ?bs) old,
      wt_modified_ts = unwrap_or_default (fa_timestamp_latest_modified a),
      wt_deltas = map piece_delta (deltas_for (pa_blake3 S) ?bs old (B a)), wt_lifetime = None\<rparr>]"
    using sane by (auto simp: sane_def)
  have version: "receiver_version C S a w = old" "receiver_block_size C S a = ?bs"
    using old assms(2) by (auto simp: receiver_version_def receiver_block_size_def)
  have "set (sent (cl z)) \<union> set (sent (sv z)) \<subseteq> transfer_messages (pa_blake3 S) ?bs old (B a) a"
    by (auto simp: sent transfer_messages_def)
  then show ?thesis
    using received[OF setter can len old writers] run sent assms(2) version
    by (intro exI[of _ k] exI[of _ z])
      (simp add: transfer_ends_def transfer_effect_def files_after_def end_stream_def[of _ "ep_stream (cl z)"] none places_cwd[OF cwd])
qed

lemma ready_ends:
  assumes "ready set_file_mtime C S B a w"
  shows "\<exists>k z. transfer_ends set_file_mtime C S B a w k z"
proof -
  have "fa_direction a = direction_i32 Download \<or> fa_direction a = direction_i32 Upload"
    using assms by (auto simp: ready_def)
  then show ?thesis using download_ends[OF assms] upload_ends[OF assms] by blast
qed

lemma ready_task:
  assumes "ready set_file_mtime C S B a w"
  shows "\<exists>w'. transfer_effect C S B a w w' \<and> (\<forall>w''. transfer_task set_file_mtime C S a w w'' \<longleftrightarrow> w'' = w')"
proof -
  obtain k z where ends: "transfer_ends set_file_mtime C S B a w k z" using ready_ends[OF assms] by blast
  have "transfer_task set_file_mtime C S a w w'' \<longleftrightarrow> w'' = files_after set_file_mtime w z" for w''
    unfolding files_after_def by (rule transfer_task_unique) (use ends in \<open>auto simp: transfer_ends_def\<close>)
  then show ?thesis using ends unfolding transfer_ends_def by blast
qed

lemma ready_effect:
  "ready set_file_mtime C S B a w \<Longrightarrow> transfer_task set_file_mtime C S a w w' \<Longrightarrow> transfer_effect C S B a w w'"
  by (drule ready_task) auto

lemma effect_frame:
  assumes "transfer_effect C S B a w w'"
  shows "same_except (places (pa_fs C) (client_path C a)) (client_files w) (client_files w')"
    "same_except (places (pa_fs S) (server_path S a)) (server_files w) (server_files w')"
  using assms by (auto simp: transfer_effect_def split: if_splits)

lemma effect_cwd:
  assumes "transfer_effect C S B a w w'"
  shows "cwd (client_files w') = cwd (client_files w)" "cwd (server_files w') = cwd (server_files w)"
  using effect_frame[OF assms] by (simp_all add: same_except_def)

lemma effect_delivered:
  assumes "ready set_file_mtime C S B a w" "transfer_effect C S B a w w'"
  shows "delivered C S B a w'"
  using assms effect_cwd[OF assms(2)]
  by (auto simp: delivered_def ready_def transfer_effect_def fs_read_contents split: if_splits)

text \<open>A file that is apart sees nothing of it.\<close>

lemma effect_apart:
  assumes "transfer_effect C S B a w w'" "apart C S a b"
    and "cwd (client_files w) = cwd (pa_fs C)" "cwd (server_files w) = cwd (pa_fs S)"
  shows "fs_read (client_files w') (client_path C b) = fs_read (client_files w) (client_path C b)"
    "contents (client_files w') (client_path C b) = contents (client_files w) (client_path C b)"
    "can_receive h bs (client_files w') (client_path C b) new = can_receive h bs (client_files w) (client_path C b) new"
    "fs_read (server_files w') (server_path S b) = fs_read (server_files w) (server_path S b)"
    "contents (server_files w') (server_path S b) = contents (server_files w) (server_path S b)"
    "can_receive h bs (server_files w') (server_path S b) new = can_receive h bs (server_files w) (server_path S b) new"
proof -
  note frame = effect_frame[OF assms(1)]
  have clear: "\<forall>l \<in> places (client_files w) (client_path C b). clear_of (places (pa_fs C) (client_path C a)) l"
    "\<forall>l \<in> places (server_files w) (server_path S b). clear_of (places (pa_fs S) (server_path S a)) l"
    using assms(2) by (simp_all add: apart_def places_cwd[OF assms(3)] places_cwd[OF assms(4)])
  then have at: "clear_of (places (pa_fs C) (client_path C a)) (resolve (client_files w) (client_path C b))"
    "clear_of (places (pa_fs S) (server_path S a)) (resolve (server_files w) (server_path S b))"
    by (simp_all add: places_def)
  show "fs_read (client_files w') (client_path C b) = fs_read (client_files w) (client_path C b)"
    "contents (client_files w') (client_path C b) = contents (client_files w) (client_path C b)"
    using read_clear[OF frame(1) at(1)] by simp_all
  show "fs_read (server_files w') (server_path S b) = fs_read (server_files w) (server_path S b)"
    "contents (server_files w') (server_path S b) = contents (server_files w) (server_path S b)"
    using read_clear[OF frame(2) at(2)] by simp_all
  show "can_receive h bs (client_files w') (client_path C b) new = can_receive h bs (client_files w) (client_path C b) new"
    by (rule can_receive_clear[OF frame(1) clear(1)])
  show "can_receive h bs (server_files w') (server_path S b) new = can_receive h bs (server_files w) (server_path S b) new"
    by (rule can_receive_clear[OF frame(2) clear(2)])
qed

interpretation sync: independent_tasks "transfer_task set_file_mtime C S" "ready set_file_mtime C S B"
    "delivered C S B" "apart C S" for set_file_mtime C S B
proof
  fix a w
  assume "ready set_file_mtime C S B a w"
  then show "\<exists>w'. transfer_task set_file_mtime C S a w w'" using ready_task by blast
next
  fix a w w'
  assume ready: "ready set_file_mtime C S B a w" and "transfer_task set_file_mtime C S a w w'"
  then have effect: "transfer_effect C S B a w w'" by (rule ready_effect)
  show "delivered C S B a w'" by (rule effect_delivered[OF ready effect])
next
  fix a w w' b
  assume ready: "ready set_file_mtime C S B a w" and "transfer_task set_file_mtime C S a w w'"
    and b: "ready set_file_mtime C S B b w" and apart: "apart C S a b"
  then have effect: "transfer_effect C S B a w w'" by (blast intro: ready_effect)
  have cwd: "cwd (client_files w) = cwd (pa_fs C)" "cwd (server_files w) = cwd (pa_fs S)"
    using ready by (simp_all add: ready_def)
  show "ready set_file_mtime C S B b w'"
    using b unfolding ready_def effect_apart[OF effect apart cwd] effect_cwd[OF effect] .
next
  fix a w w' b
  assume ready: "ready set_file_mtime C S B a w" and "transfer_task set_file_mtime C S a w w'"
    and b: "delivered C S B b w" and apart: "apart C S a b"
  then have effect: "transfer_effect C S B a w w'" by (blast intro: ready_effect)
  have cwd: "cwd (client_files w) = cwd (pa_fs C)" "cwd (server_files w) = cwd (pa_fs S)"
    using ready by (simp_all add: ready_def)
  show "delivered C S B b w'"
    using b unfolding delivered_def effect_apart[OF effect apart cwd] effect_cwd[OF effect] .
qed

subsection \<open>Properties\<close>

text \<open>C2: A sync delivers its plan: when every planned file is ready (its sender has it, its receiver
  can take it) and no file is in the way of another, then, whatever the order in which tasks
  start and end and whatever the schedules of the transfers, at most ten run at a time, the pool
  never gets stuck before it is done, it is done after at most two steps per file, and then the
  client and the server have every planned file with the same bytes, those of the side that sent
  it.\<close>

theorem sync_delivers_plan:
  assumes "\<forall>a \<in> set plan. ready set_file_mtime C S B a w" "distinct plan"
    and "\<forall>a \<in> set plan. \<forall>b \<in> set plan. a \<noteq> b \<longrightarrow> apart C S a b"
    and "(pool_step (transfer_task set_file_mtime C S) ^^ k) (start_pool plan w) p"
  shows "k \<le> 2 * length plan \<and> length (running p) \<le> 10 \<and>
    ((\<nexists>q. pool_step (transfer_task set_file_mtime C S) p q) \<longleftrightarrow> waiting p = [] \<and> running p = []) \<and>
    (waiting p = [] \<and> running p = [] \<longrightarrow>
      (\<forall>a \<in> set plan. contents (client_files (world p)) (client_path C a) = Some (B a) \<and>
        contents (server_files (world p)) (server_path S a) = Some (B a)))"
  using sync.pool_delivers[OF assms(4,2,1,3)] unfolding pool_done_def permits_def delivered_def by auto

text \<open>C29: Ten skipped files stop the sync: when the first ten entries of a plan have the direction
  Skip (or any that is not known), then in every state that can be reached no task has ended, no
  file has changed and no entry after the first ten has been started.\<close>

theorem skipped_files_starve_the_rest:
  assumes "\<forall>a \<in> set (take 10 plan). fa_direction a \<noteq> direction_i32 Download \<and> fa_direction a \<noteq> direction_i32 Upload"
    and "(pool_step (transfer_task set_file_mtime C S) ^^ k) (start_pool plan w) p"
  shows "world p = w \<and> (\<exists>n \<le> 10. waiting p = drop n plan \<and> running p = take n plan)"
  using assms(2)
proof (induction k arbitrary: p)
  case 0
  then have "p = start_pool plan w" by simp
  then show ?case by (auto simp: start_pool_def)
next
  case (Suc k)
  obtain q where run: "(pool_step (transfer_task set_file_mtime C S) ^^ k) (start_pool plan w) q"
    and step: "pool_step (transfer_task set_file_mtime C S) q p"
    using relpowp_Suc_E[OF Suc.prems] by blast
  obtain n where IH: "world q = w" "n \<le> 10" "waiting q = drop n plan" "running q = take n plan"
    using Suc.IH[OF run] by blast
  from step show ?case
  proof (cases rule: pool_step.cases)
    case (spawn a as)
    then have n: "n < length plan" "plan ! n = a" "drop (Suc n) plan = as"
      using IH(3) by (auto simp: drop_Suc nth_via_drop intro: not_le_imp_less simp flip: tl_drop)
    then have "take (Suc n) plan = take n plan @ [a]" by (simp add: take_Suc_conv_app_nth)
    moreover have "Suc n \<le> 10" using spawn(2) n(1) IH(4) by (simp add: permits_def)
    ultimately show ?thesis using IH n spawn(1) by (intro conjI exI[of _ "Suc n"]) simp_all
  next
    case (finish us a vs w')
    have "a \<in> set (take n plan)" using finish(2) IH(4) by (metis in_set_conv_decomp)
    then have "a \<in> set (take 10 plan)" using IH(2) by (meson set_take_subset_set_take subsetD)
    then show ?thesis using assms(1) finish(3) skipped_task_never_returns by blast
  qed
qed

text \<open>A plan with a download and an upload, for concrete instances.\<close>

definition example_plan :: "FileAction list" where
  "example_plan = [\<lparr>fa_path = ''f'', fa_direction = 1, fa_timestamp_latest_modified = None\<rparr>,
     \<lparr>fa_path = ''g'', fa_direction = 2, fa_timestamp_latest_modified = None\<rparr>]"

definition example_world :: files where
  "example_world = \<lparr>client_files = example_tree [''f'' \<mapsto> [1, 2, 3], ''g'' \<mapsto> [5, 6]],
     server_files = example_tree [''f'' \<mapsto> [1, 2, 9, 3]]\<rparr>"

definition example_bytes :: "FileAction \<Rightarrow> byte list" where
  "example_bytes a = (if fa_path a = ''f'' then [1, 2, 9, 3] else [5, 6])"

lemma example_paths_g:
  "resolve (example_tree files) ''/srv/g'' = [''srv'', ''g'']"
  "resolve (example_tree files) (tmp_file ''/srv/g'') = [''srv'', ''g.tmp'']"
  "get_absolute_path lexical_clean ''g'' ''/srv'' = Inr ''/srv/g''"
  "writable_name ''/srv/g'' ''g''"
proof -
  have c: "components ''/srv/g'' = [RootDir, Normal ''srv'', Normal ''g'']"
    "components (tmp_file ''/srv/g'') = [RootDir, Normal ''srv'', Normal ''g.tmp'']" by code_simp+
  show "resolve (example_tree files) ''/srv/g'' = [''srv'', ''g'']"
    "resolve (example_tree files) (tmp_file ''/srv/g'') = [''srv'', ''g.tmp'']"
    by (simp_all add: resolve_example_tree c)
  show "get_absolute_path lexical_clean ''g'' ''/srv'' = Inr ''/srv/g''" by code_simp
  have "last_segment ''/srv/g'' = Some ''g''" "extension ''/srv/g'' = None" by code_simp+
  then show "writable_name ''/srv/g'' ''g''" by (simp add: writable_name_def)
qed

lemma example_places:
  "client_path (example_party files) \<lparr>fa_path = ''f'', fa_direction = d, fa_timestamp_latest_modified = t\<rparr> = ''/srv/f''"
  "client_path (example_party files) \<lparr>fa_path = ''g'', fa_direction = d, fa_timestamp_latest_modified = t\<rparr> = ''/srv/g''"
  "server_path (example_party files) \<lparr>fa_path = ''f'', fa_direction = d, fa_timestamp_latest_modified = t\<rparr> = ''/srv/f''"
  "server_path (example_party files) \<lparr>fa_path = ''g'', fa_direction = d, fa_timestamp_latest_modified = t\<rparr> = ''/srv/g''"
  "places (example_tree files) ''/srv/f'' = {[''srv'', ''f''], [''srv'', ''f.tmp'']}"
  "places (example_tree files) ''/srv/g'' = {[''srv'', ''g''], [''srv'', ''g.tmp'']}"
proof -
  have "path_join ''/srv'' ''f'' = ''/srv/f''" "path_join ''/srv'' ''g'' = ''/srv/g''" by code_simp+
  then show "client_path (example_party files) \<lparr>fa_path = ''f'', fa_direction = d, fa_timestamp_latest_modified = t\<rparr> = ''/srv/f''"
    "client_path (example_party files) \<lparr>fa_path = ''g'', fa_direction = d, fa_timestamp_latest_modified = t\<rparr> = ''/srv/g''"
    by (simp_all add: client_path_def)
  show "server_path (example_party files) \<lparr>fa_path = ''f'', fa_direction = d, fa_timestamp_latest_modified = t\<rparr> = ''/srv/f''"
    "server_path (example_party files) \<lparr>fa_path = ''g'', fa_direction = d, fa_timestamp_latest_modified = t\<rparr> = ''/srv/g''"
    by (simp_all add: server_path_def example_paths(4) example_paths_g(3))
  show "places (example_tree files) ''/srv/f'' = {[''srv'', ''f''], [''srv'', ''f.tmp'']}"
    "places (example_tree files) ''/srv/g'' = {[''srv'', ''g''], [''srv'', ''g.tmp'']}"
    by (simp_all add: places_def example_paths example_paths_g)
qed

lemma example_can_receive:
  "can_receive example_hash 2 (example_tree [''f'' \<mapsto> [1, 2, 3], ''g'' \<mapsto> [5, 6]]) ''/srv/f'' new"
  "can_receive example_hash 2 (example_tree [''f'' \<mapsto> [1, 2, 9, 3]]) ''/srv/g'' new"
proof -
  have "fs_read (example_tree [''f'' \<mapsto> [1, 2, 3], ''g'' \<mapsto> [5, 6]]) ''/srv/f'' = Inr [1, 2, 3]"
    by (rule example_read) simp
  then show "can_receive example_hash 2 (example_tree [''f'' \<mapsto> [1, 2, 3], ''g'' \<mapsto> [5, 6]]) ''/srv/f'' new"
    unfolding can_receive_def using example_paths(5) example_can_replace strong_separates_example[of 2]
    by (auto simp: isize_max_def chunks.simps)
  have nodes: "nodes (example_tree [''f'' \<mapsto> [1, 2, 9, 3]]) [''srv'', ''g''] = None"
    "missing_kind (example_tree [''f'' \<mapsto> [1, 2, 9, 3]]) [''srv'', ''g''] = NotFound"
    "fault (example_tree [''f'' \<mapsto> [1, 2, 9, 3]]) k = None" for k
    by (simp_all add: example_tree_def missing_kind_def upt_conv_Cons)
  then have "fs_read (example_tree [''f'' \<mapsto> [1, 2, 9, 3]]) ''/srv/g'' = Inl NotFound"
    "\<not> fs_exists (example_tree [''f'' \<mapsto> [1, 2, 9, 3]]) ''/srv/g''"
    by (simp_all add: fs_read_def fs_exists_def lookup_file_def is_dir_def example_paths_g Let_def)
  moreover have "can_replace (example_tree [''f'' \<mapsto> [1, 2, 9, 3]]) ''/srv/g''"
    unfolding can_replace_def example_paths_g by (simp add: example_tree_def is_dir_def)
  ultimately show "can_receive example_hash 2 (example_tree [''f'' \<mapsto> [1, 2, 9, 3]]) ''/srv/g'' new"
    unfolding can_receive_def using example_paths_g(4) strong_separates_example[of 2]
    by (auto simp: isize_max_def chunks.simps)
qed

lemma example_ready:
  "\<forall>a \<in> set example_plan. ready utimens (example_party Map.empty) (example_party Map.empty) example_bytes a example_world"
proof -
  have cwd: "cwd (example_tree files) = []" for files by (simp add: example_tree_def)
  have reads: "fs_read (server_files example_world) ''/srv/f'' = Inr [1, 2, 9, 3]"
    "fs_read (client_files example_world) ''/srv/g'' = Inr [5, 6]"
    by (simp_all add: fs_read_Inr example_world_def example_paths example_paths_g)
      (simp_all add: example_tree_def is_dir_def)
  show ?thesis
    using reads example_can_receive example_paths(4) example_paths_g(3)
    by (simp add: example_plan_def ready_def sane_def example_places example_bytes_def example_world_def cwd
        utimens.mtime_setter_axioms)
qed

theorem sync_delivers_plan_witness:
  "\<exists>k p. (pool_step (transfer_task utimens (example_party Map.empty) (example_party Map.empty)) ^^ k)
      (start_pool example_plan example_world) p \<and> waiting p = [] \<and> running p = [] \<and> k \<le> 4 \<and>
    contents (client_files (world p)) ''/srv/f'' = Some [1, 2, 9, 3] \<and>
    contents (server_files (world p)) ''/srv/f'' = Some [1, 2, 9, 3] \<and>
    contents (client_files (world p)) ''/srv/g'' = Some [5, 6] \<and>
    contents (server_files (world p)) ''/srv/g'' = Some [5, 6]"
proof -
  let ?C = "example_party Map.empty" and ?w = example_world
  let ?task = "transfer_task utimens ?C ?C"
  have apart: "\<forall>a \<in> set example_plan. \<forall>b \<in> set example_plan. a \<noteq> b \<longrightarrow> apart ?C ?C a b"
    by (simp add: example_plan_def apart_def example_places clear_of_def)
  have distinct: "distinct example_plan" by (simp add: example_plan_def)
  obtain k p where run: "(pool_step ?task ^^ k) (start_pool example_plan ?w) p" and stuck: "\<nexists>q. pool_step ?task p q"
    using pool_runs_out by blast
  note plan = sync_delivers_plan[OF example_ready distinct apart run]
  then have ended: "waiting p = [] \<and> running p = []" using stuck by blast
  then have "contents (client_files (world p)) ''/srv/f'' = Some [1, 2, 9, 3]"
    "contents (server_files (world p)) ''/srv/f'' = Some [1, 2, 9, 3]"
    "contents (client_files (world p)) ''/srv/g'' = Some [5, 6]"
    "contents (server_files (world p)) ''/srv/g'' = Some [5, 6]"
    using plan by (simp_all add: example_plan_def example_places example_bytes_def)
  moreover have "k \<le> 4" using plan by (simp add: example_plan_def)
  ultimately show ?thesis using run ended by blast
qed

theorem skipped_files_starve_the_rest_witness:
  "\<exists>p. (pool_step (transfer_task utimens (example_party Map.empty) (example_party Map.empty)) ^^ 1)
      (start_pool (replicate 10 \<lparr>fa_path = ''f'', fa_direction = 0, fa_timestamp_latest_modified = None\<rparr> @ example_plan)
         example_world) p \<and>
    world p = example_world"
proof -
  let ?task = "transfer_task utimens (example_party Map.empty) (example_party Map.empty)"
  let ?skip = "\<lparr>fa_path = ''f'', fa_direction = 0, fa_timestamp_latest_modified = None\<rparr>"
  let ?p = "start_pool (replicate 10 ?skip @ example_plan) example_world"
  have "pool_step ?task ?p (?p\<lparr>waiting := replicate 9 ?skip @ example_plan, running := running ?p @ [?skip]\<rparr>)"
    by (rule pool_step.spawn) (simp_all add: start_pool_def permits_def numeral_eq_Suc)
  then obtain p where p: "(pool_step ?task ^^ 1) ?p p" by auto
  have "\<forall>a \<in> set (take 10 (replicate 10 ?skip @ example_plan)).
      fa_direction a \<noteq> direction_i32 Download \<and> fa_direction a \<noteq> direction_i32 Upload" by simp
  from skipped_files_starve_the_rest[OF this p] p show ?thesis by blast
qed

end
