(* ===== verification/Bounded_Net.thy ===== *)
theory Bounded_Net
  imports Sync_Pool
begin

section \<open>Channels of bounded capacity, messages of bounded size\<close>

text \<open>
  The channels of a stream hold 256 messages (src/bin/client.rs, \<open>sync_file\<close>;
  src/bin/server.rs, \<open>harmonize_sync_request\<close>), and a send waits while the channel is full.
  Here a side that handles a message pushes what it sends one message at a time, only when there
  is room, and reads its next message only when it has pushed everything.  Sync_Net has none of
  this waiting: it lets the other side see at once all that is sent.  And a side that reads a
  message longer than the limit of Message_Size gets an error from its stream in place of the
  message, which ends its loop; Sync_Net has no such limit.  \<open>frame_len\<close> is the length of a message
  as it is sent.

  Two sides that both wait for room would wait for ever.  The theory shows that this cannot happen
  when one of them sends no more messages than a channel holds, and that then, if the messages are
  within the limit, the bounded net has the same end as the net of Sync_Net, on every schedule.
\<close>

definition stream_capacity :: nat where
  "stream_capacity = 256"

text \<open>A side is gone (its receiver and its sender are dropped) when its loop has ended and
  everything it sent is in the channel.  A message for a side that is gone is dropped.\<close>

definition gone :: "endpoint \<Rightarrow> nat \<Rightarrow> bool" where
  "gone e pushed \<longleftrightarrow> closed e \<and> length (sent e) \<le> pushed"

text \<open>Reading: the stream fails at a message that is too long, and the loop ends with that error.\<close>

definition ep_receive :: "(SyncRequest \<Rightarrow> nat) \<Rightarrow> party \<Rightarrow> SyncRequest list \<Rightarrow> bool \<Rightarrow> endpoint \<Rightarrow> endpoint option" where
  "ep_receive frame_len p incoming end_of_stream e =
     (if \<not> closed e \<and> ep_pos e < length incoming \<and> max_decoding_message_size < frame_len (incoming ! ep_pos e)
      then Some (e\<lparr>ep_pos := Suc (ep_pos e), ep_done := Some (Inl Foreign)\<rparr>)
      else ep_step p incoming end_of_stream e)"

text \<open>A step of a side: \<open>e\<close> and \<open>k\<close> are its state and the number of its messages that are
  in the channel, \<open>f\<close> and \<open>l\<close> those of the other side.\<close>

definition side_step :: "nat \<Rightarrow> (SyncRequest \<Rightarrow> nat) \<Rightarrow> party \<Rightarrow> endpoint \<Rightarrow> nat \<Rightarrow> endpoint \<Rightarrow> nat \<Rightarrow> (endpoint \<times> nat) option" where
  "side_step cap frame_len p e k f l =
     (if k < length (sent e) then
        (if gone f l \<or> k < ep_pos f + cap then Some (e, Suc k) else None)
      else map_option (\<lambda>e'. (e', k)) (ep_receive frame_len p (take l (sent f)) (gone f l) e))"

record bounded_net =
  bn_cl :: endpoint
  cl_pushed :: nat
  bn_sv :: endpoint
  sv_pushed :: nat

inductive bounded_step :: "nat \<Rightarrow> (SyncRequest \<Rightarrow> nat) \<Rightarrow> party \<Rightarrow> party \<Rightarrow> bounded_net \<Rightarrow> bounded_net \<Rightarrow> bool" for cap frame_len C S where
  client_side: "side_step cap frame_len C (bn_cl n) (cl_pushed n) (bn_sv n) (sv_pushed n) = Some (e, k) \<Longrightarrow>
    bounded_step cap frame_len C S n (n\<lparr>bn_cl := e, cl_pushed := k\<rparr>)"
| server_side: "side_step cap frame_len S (bn_sv n) (sv_pushed n) (bn_cl n) (cl_pushed n) = Some (f, l) \<Longrightarrow>
    bounded_step cap frame_len C S n (n\<lparr>bn_sv := f, sv_pushed := l\<rparr>)"

inductive_simps bounded_step_iff: "bounded_step cap frame_len C S n n'"

text \<open>Nothing is in a channel yet.\<close>

definition start_bounded :: "party \<Rightarrow> FileAction \<Rightarrow> bounded_net" where
  "start_bounded C a = \<lparr>bn_cl = cl (start_net C a), cl_pushed = 0, bn_sv = sv (start_net C a), sv_pushed = 0\<rparr>"

subsection \<open>Steps of the two sides commute\<close>

lemma ep_receive_open: "ep_receive frame_len p inc eos e = Some e' \<Longrightarrow> \<not> closed e \<and> ep_pos e \<le> ep_pos e'"
  by (auto simp: ep_receive_def ep_step_def split: if_splits)

lemma ep_receive_grows: "ep_receive frame_len p inc eos e = Some e' \<Longrightarrow> prefix (sent e) (sent e')"
  using ep_step_grows[of p inc eos e e'] by (auto simp: ep_receive_def sent_def split: if_splits)

lemma ep_receive_closed: "closed e \<Longrightarrow> ep_receive frame_len p inc eos e = None"
  by (simp add: ep_receive_def ep_step_closed)

lemma ep_receive_mono:
  assumes "ep_receive frame_len p inc False e = Some e'" "prefix inc inc'"
  shows "ep_receive frame_len p inc' eos e = Some e'"
proof (cases "ep_pos e < length inc")
  case True
  then have "inc' ! ep_pos e = inc ! ep_pos e" "ep_pos e < length inc'"
    using assms(2) by (auto elim!: prefixE simp: nth_append)
  then show ?thesis
    using True assms(1) ep_step_mono[OF _ assms(2), of p e e' eos] by (auto simp: ep_receive_def split: if_splits)
next
  case False
  then show ?thesis using assms(1) by (simp add: ep_receive_def ep_step_def split: if_splits)
qed

text \<open>Where no message is too long, reading is that of Sync_Net.\<close>

definition decodable :: "(SyncRequest \<Rightarrow> nat) \<Rightarrow> SyncRequest list \<Rightarrow> bool" where
  "decodable frame_len ms \<longleftrightarrow> (\<forall>m \<in> set ms. frame_len m \<le> max_decoding_message_size)"

lemma ep_receive_fits: "decodable frame_len inc \<Longrightarrow> ep_receive frame_len p inc eos e = ep_step p inc eos e"
  by (auto simp: ep_receive_def decodable_def leD)

lemma decodable_take: "decodable frame_len ms \<Longrightarrow> decodable frame_len (take l ms)"
  by (auto simp: decodable_def dest: in_set_takeD)

lemma decodable_prefix: "prefix ms ns \<Longrightarrow> decodable frame_len ns \<Longrightarrow> decodable frame_len ms"
  by (auto simp: decodable_def elim!: prefixE)

lemma side_step_mono:
  assumes e: "side_step cap frame_len p e k f l = Some (e', k')" and f: "side_step cap frame_len q f l e k = Some (f', l')"
  shows "side_step cap frame_len p e k f' l' = Some (e', k')"
proof (cases "k < length (sent e)")
  case True
  then have "\<not> gone e k" by (simp add: gone_def)
  show ?thesis
  proof (cases "l < length (sent f)")
    case True
    then have "f' = f" "\<not> gone f l" using f by (auto simp: side_step_def gone_def split: if_splits)
    then show ?thesis using e \<open>k < length (sent e)\<close> by (auto simp: side_step_def split: if_splits)
  next
    case False
    then obtain eos where "ep_receive frame_len q (take k (sent e)) eos f = Some f'" using f by (auto simp: side_step_def)
    from ep_receive_open[OF this] show ?thesis
      using e \<open>k < length (sent e)\<close> by (auto simp: side_step_def gone_def split: if_splits)
  qed
next
  case False
  then have e': "ep_receive frame_len p (take l (sent f)) (gone f l) e = Some e'" and k': "k' = k"
    using e by (auto simp: side_step_def)
  have "\<not> gone f l \<and> prefix (take l (sent f)) (take l' (sent f'))"
  proof (cases "l < length (sent f)")
    case True
    then have "f' = f" "l' = Suc l" using f by (auto simp: side_step_def split: if_splits)
    then show ?thesis using True by (auto simp: gone_def take_Suc_conv_app_nth)
  next
    case full: False
    then have step: "ep_receive frame_len q (take k (sent e)) (gone e k) f = Some f'" and l': "l' = l"
      using f by (auto simp: side_step_def)
    have "prefix (sent f) (sent f')" by (rule ep_receive_grows[OF step])
    then have "prefix (take l (sent f)) (take l (sent f'))"
      using full by (auto elim!: prefixE simp: l')
    then show ?thesis using ep_receive_open[OF step] by (simp add: gone_def l')
  qed
  then show ?thesis using e' k' False ep_receive_mono[of frame_len p "take l (sent f)" e e'] by (simp add: side_step_def)
qed

lemma both_bounded_steps:
  assumes "side_step cap frame_len C (bn_cl n) (cl_pushed n) (bn_sv n) (sv_pushed n) = Some (e, k)"
    and "side_step cap frame_len S (bn_sv n) (sv_pushed n) (bn_cl n) (cl_pushed n) = Some (f, l)"
  shows "\<exists>d. bounded_step cap frame_len C S (n\<lparr>bn_cl := e, cl_pushed := k\<rparr>) d \<and> bounded_step cap frame_len C S (n\<lparr>bn_sv := f, sv_pushed := l\<rparr>) d"
proof (intro exI conjI)
  let ?d = "n\<lparr>bn_cl := e, cl_pushed := k, bn_sv := f, sv_pushed := l\<rparr>"
  show "bounded_step cap frame_len C S (n\<lparr>bn_cl := e, cl_pushed := k\<rparr>) ?d"
    using bounded_step.server_side[of cap frame_len S "n\<lparr>bn_cl := e, cl_pushed := k\<rparr>" f l C]
      side_step_mono[OF assms(2,1)] by simp
  have "bounded_step cap frame_len C S (n\<lparr>bn_sv := f, sv_pushed := l\<rparr>) (n\<lparr>bn_sv := f, sv_pushed := l, bn_cl := e, cl_pushed := k\<rparr>)"
    using bounded_step.client_side[of cap frame_len C "n\<lparr>bn_sv := f, sv_pushed := l\<rparr>" e k S]
      side_step_mono[OF assms] by simp
  moreover have "n\<lparr>bn_sv := f, sv_pushed := l, bn_cl := e, cl_pushed := k\<rparr> = ?d" by simp
  ultimately show "bounded_step cap frame_len C S (n\<lparr>bn_sv := f, sv_pushed := l\<rparr>) ?d" by (simp only:)
qed

lemma bounded_diamond:
  assumes "bounded_step cap frame_len C S n a" "bounded_step cap frame_len C S n b"
  shows "a = b \<or> (\<exists>d. bounded_step cap frame_len C S a d \<and> bounded_step cap frame_len C S b d)"
  using assms both_bounded_steps[of cap frame_len C n _ _ S] unfolding bounded_step_iff[of cap frame_len C S n]
  by (smt (verit) option.inject prod.inject)

interpretation bounded: commuting_steps "bounded_step cap frame_len C S" for cap frame_len C S
  by unfold_locales (rule bounded_diamond)


subsection \<open>The unbounded net is followed\<close>

definition net_of :: "bounded_net \<Rightarrow> net" where
  "net_of n = \<lparr>cl = bn_cl n, sv = bn_sv n\<rparr>"

lemma ep_step_visible:
  assumes "ep_step p (take l (sent f)) (gone f l) e = Some e'"
  shows "ep_step p (sent f) (closed f) e = Some e'"
proof (cases "gone f l")
  case True
  then show ?thesis using assms by (simp add: gone_def)
next
  case False
  then have "ep_step p (take l (sent f)) False e = Some e'" using assms by (simp only:)
  then show ?thesis by (rule ep_step_mono[OF _ take_is_prefix])
qed

text \<open>A step is a push, or a step of the unbounded net; the sum counts both.\<close>

lemma side_step_cases:
  assumes "side_step cap frame_len p e k f l = Some (e', k')" "decodable frame_len (sent f)"
  obtains (push) "e' = e" "k' = Suc k" | (read) "ep_step p (sent f) (closed f) e = Some e'" "k' = k"
proof (cases "k < length (sent e)")
  case True
  then show thesis using assms push by (auto simp: side_step_def split: if_splits)
next
  case False
  then have "ep_step p (take l (sent f)) (gone f l) e = Some e'" "k' = k"
    using assms by (auto simp: side_step_def ep_receive_fits[OF decodable_take])
  then show thesis using read[OF ep_step_visible] by blast
qed

lemma bounded_step_net:
  assumes "bounded_step cap frame_len C S n n'" "decodable frame_len (sent (bn_cl n))" "decodable frame_len (sent (bn_sv n))"
  shows "net_of n' = net_of n \<and> cl_pushed n' + sv_pushed n' = Suc (cl_pushed n + sv_pushed n) \<or>
    net_step C S (net_of n) (net_of n') \<and> cl_pushed n' + sv_pushed n' = cl_pushed n + sv_pushed n"
  using assms(1)
proof (cases rule: bounded_step.cases)
  case (client_side e k)
  from client_side(2) assms(3) show ?thesis
  proof (cases rule: side_step_cases)
    case push
    then show ?thesis using client_side(1) by (simp add: net_of_def)
  next
    case read
    then have "net_step C S (net_of n) ((net_of n)\<lparr>cl := e\<rparr>)" by (intro net_step.client_step) (simp add: net_of_def)
    then show ?thesis using client_side(1) read by (simp add: net_of_def)
  qed
next
  case (server_side f l)
  from server_side(2) assms(2) show ?thesis
  proof (cases rule: side_step_cases)
    case push
    then show ?thesis using server_side(1) by (simp add: net_of_def)
  next
    case read
    then have "net_step C S (net_of n) ((net_of n)\<lparr>sv := f\<rparr>)" by (intro net_step.server_step) (simp add: net_of_def)
    then show ?thesis using server_side(1) read by (simp add: net_of_def)
  qed
qed

definition within :: "bounded_net \<Rightarrow> bool" where
  "within n \<longleftrightarrow> cl_pushed n \<le> length (sent (bn_cl n)) \<and> sv_pushed n \<le> length (sent (bn_sv n))"

lemma side_step_within:
  assumes "side_step cap frame_len p e k f l = Some (e', k')" "k \<le> length (sent e)"
  shows "k' \<le> length (sent e')"
proof (cases "k < length (sent e)")
  case True
  then show ?thesis using assms by (auto simp: side_step_def split: if_splits)
next
  case False
  then have "prefix (sent e) (sent e')" "k' = k" using assms by (auto simp: side_step_def ep_receive_grows)
  then show ?thesis using assms(2) prefix_length_le by fastforce
qed

lemma bounded_step_within: "bounded_step cap frame_len C S n n' \<Longrightarrow> within n \<Longrightarrow> within n'"
  by (auto simp: bounded_step_iff within_def dest: side_step_within)

subsection \<open>No deadlock\<close>

text \<open>In a run that ends with both sides done, a side that is not done can handle the message it has.\<close>

lemma pending_client:
  assumes "(net_step C S ^^ k) n z" "closed (cl z)" "\<not> closed (cl n)" "ep_pos (cl n) < length (sent (sv n))"
  shows "\<exists>e. ep_step C (sent (sv n)) False (cl n) = Some e"
  using assms
proof (induction k arbitrary: n)
  case 0
  then show ?case by simp
next
  case (Suc k)
  obtain m where m: "net_step C S n m" "(net_step C S ^^ k) m z" using relpowp_Suc_D2[OF Suc.prems(1)] by blast
  from m(1) show ?case
  proof (cases rule: net_step.cases)
    case (client_step e)
    then show ?thesis using Suc.prems(3,4) by (auto simp: ep_step_def)
  next
    case (server_step s)
    obtain ms where ms: "sent s = sent (sv n) @ ms" using ep_step_grows[OF server_step(2)] by (auto elim: prefixE)
    have "\<exists>e. ep_step C (sent (sv m)) False (cl m) = Some e"
      using Suc.prems server_step(1) ms by (intro Suc.IH[OF m(2)]) simp_all
    then show ?thesis using Suc.prems(3,4) server_step(1) ms by (auto simp: ep_step_def nth_append split: if_splits)
  qed
qed

lemma pending_server:
  assumes "(net_step C S ^^ k) n z" "closed (sv z)" "\<not> closed (sv n)" "ep_pos (sv n) < length (sent (cl n))"
  shows "\<exists>e. ep_step S (sent (cl n)) False (sv n) = Some e"
  using pending_client[OF net_run_exchange[OF assms(1)]] assms(2-4) by (simp add: exchange_def)

lemma pending_visible:
  assumes "\<exists>e'. ep_step p (sent f) False e = Some e'" "ep_pos e < l"
  shows "\<exists>e'. ep_step p (take l (sent f)) eos e = Some e'"
  using assms by (auto simp: ep_step_def split: if_splits)

text \<open>Two sides of which neither can move, although both can handle their messages and one sends
  no more than the channel holds, are both gone.\<close>

lemma stuck_sides:
  assumes cap: "0 < cap" "length (sent e) \<le> cap"
    and pend: "\<not> closed e \<Longrightarrow> ep_pos e < length (sent f) \<Longrightarrow> \<exists>e'. ep_step p (sent f) False e = Some e'"
      "\<not> closed f \<Longrightarrow> ep_pos f < length (sent e) \<Longrightarrow> \<exists>f'. ep_step q (sent e) False f = Some f'"
    and moves: "\<not> closed e \<Longrightarrow> \<not> closed f \<Longrightarrow> ep_pos e < length (sent f) \<or> ep_pos f < length (sent e)"
    and fit: "decodable frame_len (sent e)" "decodable frame_len (sent f)"
    and stuck: "side_step cap frame_len p e k f l = None" "side_step cap frame_len q f l e k = None"
  shows "gone e k \<and> gone f l"
proof -
  have k: "length (sent e) \<le> k"
    using stuck(1) cap by (auto simp: side_step_def split: if_splits)
  have e_none: "ep_step p (take l (sent f)) (gone f l) e = None" using stuck(1) k by (simp add: side_step_def ep_receive_fits[OF decodable_take[OF fit(2)]])
  have e_read: "closed e \<or> length (sent f) \<le> ep_pos e \<or> l \<le> ep_pos e"
    using pending_visible[OF pend(1), of l "gone f l"] e_none by fastforce
  have l: "length (sent f) \<le> l"
  proof (rule ccontr)
    assume less: "\<not> length (sent f) \<le> l"
    then have "\<not> gone e k" "ep_pos e + cap \<le> l" using stuck(2) by (auto simp: side_step_def split: if_splits)
    then show False using e_read less k cap(1) by (auto simp: gone_def)
  qed
  have f_none: "ep_step q (take k (sent e)) (gone e k) f = None" using stuck(2) l by (simp add: side_step_def ep_receive_fits[OF decodable_take[OF fit(1)]])
  have f_read: "closed f \<or> length (sent e) \<le> ep_pos f \<or> k \<le> ep_pos f"
    using pending_visible[OF pend(2), of k "gone e k"] f_none by fastforce
  have e_done: "closed e \<or> \<not> closed f \<and> length (sent f) \<le> ep_pos e"
    using e_read l e_none by (auto simp: gone_def ep_step_def split: if_splits)
  have f_done: "closed f \<or> \<not> closed e \<and> length (sent e) \<le> ep_pos f"
    using f_read k f_none by (auto simp: gone_def ep_step_def split: if_splits)
  show ?thesis using e_done f_done moves k l by (auto simp: gone_def)
qed

lemma net_grows: "(net_step C S ^^ k) n z \<Longrightarrow> prefix (sent (cl n)) (sent (cl z)) \<and> prefix (sent (sv n)) (sent (sv z))"
proof (induction k arbitrary: z)
  case 0
  then show ?case by simp
next
  case (Suc k)
  obtain m where m: "(net_step C S ^^ k) n m" "net_step C S m z" using relpowp_Suc_E[OF Suc.prems] by blast
  from m(2) have "prefix (sent (cl m)) (sent (cl z)) \<and> prefix (sent (sv m)) (sent (sv z))"
    by (auto simp: net_step_iff dest: ep_step_grows)
  then show ?case using Suc.IH[OF m(1)] prefix_order.trans by blast
qed


subsection \<open>The same end\<close>

definition all_pushed :: "net \<Rightarrow> bounded_net" where
  "all_pushed z = \<lparr>bn_cl = cl z, cl_pushed = length (sent (cl z)), bn_sv = sv z, sv_pushed = length (sent (sv z))\<rparr>"

definition bounded_steps :: "nat \<Rightarrow> net \<Rightarrow> nat" where
  "bounded_steps k z = k + length (sent (cl z)) + length (sent (sv z))"

lemma prefix_len: "prefix xs ys \<Longrightarrow> length ys \<le> n \<Longrightarrow> length xs \<le> n"
  using prefix_length_le le_trans by blast

text \<open>A transfer that ends, after which one side has sent no more than a channel holds, and neither
  side a message that is too long.\<close>

definition fits :: "nat \<Rightarrow> (SyncRequest \<Rightarrow> nat) \<Rightarrow> party \<Rightarrow> party \<Rightarrow> FileAction \<Rightarrow> nat \<Rightarrow> net \<Rightarrow> bool" where
  "fits cap frame_len C S a k z \<longleftrightarrow> (net_step C S ^^ k) (start_net C a) z \<and> closed (cl z) \<and> closed (sv z) \<and> 0 < cap \<and>
     (length (sent (cl z)) \<le> cap \<or> length (sent (sv z)) \<le> cap) \<and>
     decodable frame_len (sent (cl z)) \<and> decodable frame_len (sent (sv z))"

lemma fitsD:
  assumes "fits cap frame_len C S a k z"
  shows "(net_step C S ^^ k) (start_net C a) z" "closed (cl z)" "closed (sv z)"
    "length (sent (cl z)) \<le> cap \<or> length (sent (sv z)) \<le> cap" "0 < cap"
    "decodable frame_len (sent (cl z))" "decodable frame_len (sent (sv z))"
  using assms by (simp_all add: fits_def)

text \<open>What a net has sent that is on its way to the end.\<close>

lemma on_the_way:
  assumes fits: "fits cap frame_len C S a k z" and run: "(net_step C S ^^ i) (start_net C a) n"
  shows "i \<le> k" "(net_step C S ^^ (k - i)) n z" "prefix (sent (cl n)) (sent (cl z))" "prefix (sent (sv n)) (sent (sv z))"
    "decodable frame_len (sent (cl n))" "decodable frame_len (sent (sv n))"
proof -
  note net_run = fitsD(1-3)[OF fits]
  have end_z: "\<nexists>y. net_step C S z y" using net_run(2,3) by (intro finished_no_step) (simp_all add: closed_def)
  have *: "i \<le> k \<and> (net_step C S ^^ (k - i)) n z" using transfer.every_run_ends[OF net_run(1) end_z run] .
  then show "i \<le> k" "(net_step C S ^^ (k - i)) n z" by simp_all
  then show sent: "prefix (sent (cl n)) (sent (cl z))" "prefix (sent (sv n)) (sent (sv z))"
    using net_grows[of "k - i" C S n z] by simp_all
  show "decodable frame_len (sent (cl n))" "decodable frame_len (sent (sv n))"
    using decodable_prefix[OF sent(1)] decodable_prefix[OF sent(2)] fitsD(6,7)[OF fits] by simp_all
qed

lemma bounded_run_net:
  assumes fits: "fits cap frame_len C S a k z" and "(bounded_step cap frame_len C S ^^ j) (start_bounded C a) n"
  shows "\<exists>i. (net_step C S ^^ i) (start_net C a) (net_of n) \<and> j = i + cl_pushed n + sv_pushed n \<and> within n"
  using assms(2)
proof (induction j arbitrary: n)
  case 0
  then have "n = start_bounded C a" by simp
  moreover have "net_of (start_bounded C a) = start_net C a" by (cases "start_net C a") (simp add: net_of_def start_bounded_def)
  ultimately show ?case by (intro exI[of _ 0]) (simp add: start_bounded_def within_def)
next
  case (Suc j)
  obtain m where m: "(bounded_step cap frame_len C S ^^ j) (start_bounded C a) m" "bounded_step cap frame_len C S m n"
    using relpowp_Suc_E[OF Suc.prems] by blast
  obtain i where i: "(net_step C S ^^ i) (start_net C a) (net_of m)" "j = i + cl_pushed m + sv_pushed m" "within m"
    using Suc.IH[OF m(1)] by blast
  note within = bounded_step_within[OF m(2) i(3)]
  have "decodable frame_len (sent (bn_cl m))" "decodable frame_len (sent (bn_sv m))"
    using on_the_way(5,6)[OF fits i(1)] by (simp_all add: net_of_def)
  from bounded_step_net[OF m(2) this] show ?case
  proof
    assume "net_of n = net_of m \<and> cl_pushed n + sv_pushed n = Suc (cl_pushed m + sv_pushed m)"
    then show ?thesis using i within by (intro exI[of _ i]) simp
  next
    assume "net_step C S (net_of m) (net_of n) \<and> cl_pushed n + sv_pushed n = cl_pushed m + sv_pushed m"
    then show ?thesis using i within by (intro exI[of _ "Suc i"]) auto
  qed
qed

lemma towards_end:
  assumes fits: "fits cap frame_len C S a k z" and run: "(bounded_step cap frame_len C S ^^ j) (start_bounded C a) n"
  shows "\<exists>i. (net_step C S ^^ i) (start_net C a) (net_of n) \<and> i \<le> k \<and> j = i + cl_pushed n + sv_pushed n \<and> within n \<and>
    cl_pushed n \<le> length (sent (cl z)) \<and> sv_pushed n \<le> length (sent (sv z))"
proof -
  obtain i where i: "(net_step C S ^^ i) (start_net C a) (net_of n)" "j = i + cl_pushed n + sv_pushed n" "within n"
    using bounded_run_net[OF fits run] by blast
  then show ?thesis
    using on_the_way(1,3,4)[OF fits i(1)] prefix_length_le by (fastforce simp: within_def net_of_def)
qed

lemma stuck_is_end:
  assumes fits: "fits cap frame_len C S a k z" and run: "(bounded_step cap frame_len C S ^^ j) (start_bounded C a) n" and stuck: "\<nexists>m. bounded_step cap frame_len C S n m"
  shows "n = all_pushed z \<and> j = bounded_steps k z"
proof -
  note net_run = fitsD(1-3)[OF fits] and few = fitsD(4,5)[OF fits]
  obtain i where way: "(net_step C S ^^ i) (start_net C a) (net_of n)" and "i \<le> k" "j = i + cl_pushed n + sv_pushed n" "within n"
    using towards_end[OF fits run] by blast
  then have i: "(net_step C S ^^ (k - i)) (net_of n) z" "i \<le> k" "j = i + cl_pushed n + sv_pushed n" "within n"
    using on_the_way(2)[OF fits way] by simp_all
  have grown: "prefix (sent (bn_cl n)) (sent (cl z))" "prefix (sent (bn_sv n)) (sent (sv z))"
    and fit: "decodable frame_len (sent (bn_cl n))" "decodable frame_len (sent (bn_sv n))"
    using on_the_way(3-6)[OF fits way] by (simp_all add: net_of_def)
  have none: "side_step cap frame_len C (bn_cl n) (cl_pushed n) (bn_sv n) (sv_pushed n) = None"
    "side_step cap frame_len S (bn_sv n) (sv_pushed n) (bn_cl n) (cl_pushed n) = None"
    using stuck bounded_step.intros[of cap frame_len _ n] by (metis option.exhaust surj_pair)+
  have pend: "\<exists>e. ep_step C (sent (bn_sv n)) False (bn_cl n) = Some e"
    if "\<not> closed (bn_cl n)" "ep_pos (bn_cl n) < length (sent (bn_sv n))"
    using pending_client[OF i(1) net_run(2)] that by (simp add: net_of_def)
  have pend': "\<exists>e. ep_step S (sent (bn_cl n)) False (bn_sv n) = Some e"
    if "\<not> closed (bn_sv n)" "ep_pos (bn_sv n) < length (sent (bn_cl n))"
    using pending_server[OF i(1) net_run(3)] that by (simp add: net_of_def)
  have moves: "ep_pos (bn_cl n) < length (sent (bn_sv n)) \<or> ep_pos (bn_sv n) < length (sent (bn_cl n))"
    if "\<not> closed (bn_cl n)" "\<not> closed (bn_sv n)"
  proof (cases "k - i")
    case 0
    then have "net_of n = z" using i(1) by simp
    then show ?thesis using net_run(2) that by (auto simp: net_of_def)
  next
    case (Suc m)
    then obtain y where "net_step C S (net_of n) y" using i(1) relpowp_Suc_D2 by metis
    then show ?thesis using that by (auto simp: net_step_iff net_of_def ep_step_def split: if_splits)
  qed
  have gone: "gone (bn_cl n) (cl_pushed n) \<and> gone (bn_sv n) (sv_pushed n)"
    using few(1)
  proof
    assume "length (sent (cl z)) \<le> cap"
    then have "length (sent (bn_cl n)) \<le> cap" by (rule prefix_len[OF grown(1)])
    then show ?thesis by (intro stuck_sides[OF few(2)]) (use pend pend' moves none fit in auto)
  next
    assume "length (sent (sv z)) \<le> cap"
    then have "length (sent (bn_sv n)) \<le> cap" by (rule prefix_len[OF grown(2)])
    then have "gone (bn_sv n) (sv_pushed n) \<and> gone (bn_cl n) (cl_pushed n)"
      by (intro stuck_sides[OF few(2)]) (use pend pend' moves none fit in auto)
    then show ?thesis by simp
  qed
  have "k - i = 0"
  proof (cases "k - i")
    case (Suc m)
    then obtain y where "net_step C S (net_of n) y" using i(1) relpowp_Suc_D2 by metis
    then show ?thesis using gone by (auto simp: net_step_iff net_of_def ep_step_def gone_def)
  qed simp
  then have z: "net_of n = z" and "i = k" using i(1,2) by auto
  then have "cl z = bn_cl n" "sv z = bn_sv n" by (auto simp: net_of_def)
  then show ?thesis using gone i(3,4) \<open>i = k\<close> by (cases n) (auto simp: all_pushed_def bounded_steps_def gone_def within_def)
qed

lemma some_run_ends:
  assumes fits: "fits cap frame_len C S a k z"
  shows "(bounded_step cap frame_len C S ^^ bounded_steps k z) (start_bounded C a) (all_pushed z)"
proof (rule ccontr)
  assume no: "\<not> ?thesis"
  have "\<exists>n. (bounded_step cap frame_len C S ^^ j) (start_bounded C a) n" for j
  proof (induction j)
    case 0
    then show ?case by auto
  next
    case (Suc j)
    then obtain n where n: "(bounded_step cap frame_len C S ^^ j) (start_bounded C a) n" by blast
    then have "\<exists>m. bounded_step cap frame_len C S n m" using stuck_is_end[OF fits n] no by blast
    then show ?case using n by (auto intro: relpowp_Suc_I)
  qed
  then obtain n where n: "(bounded_step cap frame_len C S ^^ Suc (bounded_steps k z)) (start_bounded C a) n" by blast
  from towards_end[OF fits n] show False by (auto simp: bounded_steps_def)
qed

lemma all_pushed_stuck:
  assumes "fits cap frame_len C S a k z"
  shows "\<nexists>y. bounded_step cap frame_len C S (all_pushed z) y"
  using fitsD(2,3)[OF assms] by (auto simp: bounded_step_iff side_step_def all_pushed_def ep_receive_closed)

lemma bounded_runs_end:
  assumes "fits cap frame_len C S a k z" "(bounded_step cap frame_len C S ^^ j) (start_bounded C a) n"
  shows "j \<le> bounded_steps k z \<and> (bounded_step cap frame_len C S ^^ (bounded_steps k z - j)) n (all_pushed z)"
  by (rule bounded.every_run_ends[OF some_run_ends[OF assms(1)] all_pushed_stuck[OF assms(1)] assms(2)])

subsection \<open>Properties\<close>

text \<open>C11: Channels of bounded capacity change nothing: take a transfer that ends in the unbounded
  net, of whose sides one sends no more than a channel holds, and whose messages are within the
  limit of a frame.  With channels of that capacity no run is longer than a bound, every run can be continued (the two sides never wait for each
  other's channel), and all runs end in the same state: that of the unbounded net, with all
  messages pushed.\<close>

theorem bounded_channels_same_end:
  assumes "(net_step C S ^^ k) (start_net C a) z" "ep_done (cl z) \<noteq> None" "ep_done (sv z) \<noteq> None"
    and "length (sent (cl z)) \<le> cap \<or> length (sent (sv z)) \<le> cap" "0 < cap"
    and "\<forall>m \<in> set (sent (cl z)) \<union> set (sent (sv z)). frame_len m \<le> max_decoding_message_size"
    and "(bounded_step cap frame_len C S ^^ j) (start_bounded C a) n"
  shows "j \<le> bounded_steps k z \<and> (bounded_step cap frame_len C S ^^ (bounded_steps k z - j)) n (all_pushed z) \<and>
    (\<nexists>y. bounded_step cap frame_len C S (all_pushed z) y)"
proof -
  have fits: "fits cap frame_len C S a k z" using assms(1-6) by (simp add: fits_def closed_def decodable_def)
  show ?thesis using bounded_runs_end[OF fits assms(7)] all_pushed_stuck[OF fits] by blast
qed

text \<open>The transfer of a ready file, with the channels of the program.\<close>

lemma ready_fits:
  assumes "transfer_ends set_file_mtime C S B a w k z" "3 \<le> cap" "frame_bound frame_len"
    and "0 < unat (receiver_block_size C S a)" "length (fa_path a) \<le> 2 ^ 16"
    and "\<forall>c \<in> set (chunks (unat (receiver_block_size C S a)) (receiver_version C S a w)). length (pa_blake3 S c) \<le> 32"
    and "length (chunks (unat (receiver_block_size C S a)) (receiver_version C S a w)) \<le> 88000"
  shows "fits cap frame_len (client_at C w) (server_at S w) a k z"
proof -
  have "set (sent (cl z)) \<union> set (sent (sv z)) \<subseteq>
      transfer_messages (pa_blake3 S) (receiver_block_size C S a) (receiver_version C S a w) (B a) a"
    using assms(1) by (simp add: transfer_ends_def)
  then have "decodable frame_len (sent (cl z))" "decodable frame_len (sent (sv z))"
    using messages_fit[OF assms(3-7)] by (auto simp: decodable_def)
  then show ?thesis using assms(1,2) by (auto simp: transfer_ends_def fits_def closed_def)
qed

lemma ready_block_size: "ready set_file_mtime C S B a w \<Longrightarrow> 0 < unat (receiver_block_size C S a)"
  by (auto simp: ready_def receiver_block_size_def can_receive_def)

text \<open>C10: The channels of the program, which hold 256 messages each way, and its frames of at most 4 MB
  are large enough for what a sender sends, whatever the size of its file, as long as the receiver's
  version has no more than 88000 blocks (720 MB at the default block size).  Then the transfer of a
  file that is ready ends on every schedule, in one final state in which both sides have completed,
  and leaves the bytes of the sender on both sides.  Of the encoding of messages it is used that a
  frame is no longer than what zstd makes of an incompressible message; a strong checksum has at
  most 32 bytes, and the path no more than 64 KB.\<close>

theorem transfers_fit_their_channels:
  assumes "ready set_file_mtime C S B a w"
    and "\<forall>m. frame_len m \<le> encoded_len m + encoded_len m div 256 + 64" "length (fa_path a) \<le> 2 ^ 16"
    and "\<forall>c \<in> set (chunks (unat (receiver_block_size C S a)) (receiver_version C S a w)). length (pa_blake3 S c) \<le> 32"
    and "length (chunks (unat (receiver_block_size C S a)) (receiver_version C S a w)) \<le> 88000"
  shows "\<exists>k z. (\<forall>j n. (bounded_step stream_capacity frame_len (client_at C w) (server_at S w) ^^ j) (start_bounded (client_at C w) a) n \<longrightarrow>
      j \<le> k \<and> (bounded_step stream_capacity frame_len (client_at C w) (server_at S w) ^^ (k - j)) n z) \<and>
    ep_done (bn_cl z) = Some (Inr ()) \<and> ep_done (bn_sv z) = Some (Inr ()) \<and>
    contents (end_stream set_file_mtime (ep_stream (bn_cl z)) (client_files w)) (client_path C a) = Some (B a) \<and>
    contents (end_stream set_file_mtime (ep_stream (bn_sv z)) (server_files w)) (server_path S a) = Some (B a)"
proof -
  obtain k z where ends: "transfer_ends set_file_mtime C S B a w k z" using ready_ends[OF assms(1)] by blast
  then have ended: "ep_done (cl z) = Some (Inr ())" "ep_done (sv z) = Some (Inr ())"
    and effect: "transfer_effect C S B a w (files_after set_file_mtime w z)"
    by (simp_all add: transfer_ends_def)
  have "delivered C S B a (files_after set_file_mtime w z)" by (rule effect_delivered[OF assms(1) effect])
  moreover have "frame_bound frame_len" using assms(2) by (simp add: frame_bound_def)
  then have "fits stream_capacity frame_len (client_at C w) (server_at S w) a k z"
    using ready_block_size[OF assms(1)] assms(3-5) by (intro ready_fits[OF ends]) (simp_all add: stream_capacity_def)
  ultimately show ?thesis
    using bounded_runs_end[of stream_capacity frame_len "client_at C w" "server_at S w" a k z] ended
    by (intro exI[of _ "bounded_steps k z"] exI[of _ "all_pushed z"])
      (simp add: all_pushed_def delivered_def files_after_def)
qed


text \<open>The first file of the example plan, a download.\<close>

lemma example_receiver:
  "receiver_block_size (example_party Map.empty) (example_party Map.empty) (hd example_plan) = 2"
  "receiver_version (example_party Map.empty) (example_party Map.empty) (hd example_plan) example_world = [1, 2, 3]"
  "length (fa_path (hd example_plan)) = 1"
  "chunks 2 [1, 2, 3 :: byte] = [[1, 2], [3]]"
proof -
  have "fs_read (client_files example_world) ''/srv/f'' = Inr [1, 2, 3]"
    by (simp add: fs_read_Inr example_world_def example_paths) (simp add: example_tree_def is_dir_def)
  then show "receiver_version (example_party Map.empty) (example_party Map.empty) (hd example_plan) example_world = [1, 2, 3]"
    by (simp add: receiver_version_def example_plan_def example_places)
qed (simp_all add: receiver_block_size_def example_plan_def chunks.simps)

theorem bounded_channels_same_end_witness:
  "\<exists>k z. (bounded_step 3 encoded_len (client_at (example_party Map.empty) example_world) (server_at (example_party Map.empty) example_world) ^^
      bounded_steps k z) (start_bounded (client_at (example_party Map.empty) example_world) (hd example_plan)) (all_pushed z)"
proof -
  let ?P = "example_party Map.empty"
  have "ready utimens ?P ?P example_bytes (hd example_plan) example_world"
    using example_ready by (simp add: example_plan_def)
  then obtain k z where "transfer_ends utimens ?P ?P example_bytes (hd example_plan) example_world k z"
    using ready_ends by blast
  then have run: "(net_step (client_at ?P example_world) (server_at ?P example_world) ^^ k)
      (start_net (client_at ?P example_world) (hd example_plan)) z"
    and ended: "ep_done (cl z) \<noteq> None" "ep_done (sv z) \<noteq> None"
    and few: "length (sent (cl z)) \<le> 3 \<or> length (sent (sv z)) \<le> 3"
    and sent: "set (sent (cl z)) \<union> set (sent (sv z)) \<subseteq> transfer_messages example_hash 2 [1, 2, 3] (example_bytes (hd example_plan)) (hd example_plan)"
    by (auto simp: transfer_ends_def example_receiver)
  have "encoded_len m \<le> max_decoding_message_size" if "m \<in> set (sent (cl z)) \<union> set (sent (sv z))" for m
    by (rule messages_fit[OF frame_bound_encoded _ _ _ _ subsetD[OF sent that]]) (simp_all add: example_receiver)
  then have "\<forall>m \<in> set (sent (cl z)) \<union> set (sent (sv z)). encoded_len m \<le> max_decoding_message_size" by blast
  from bounded_channels_same_end[OF run ended few _ this, of 0] show ?thesis by auto
qed

theorem transfers_fit_their_channels_witness:
  "\<exists>k z. (bounded_step stream_capacity encoded_len (client_at (example_party Map.empty) example_world)
        (server_at (example_party Map.empty) example_world) ^^ k)
      (start_bounded (client_at (example_party Map.empty) example_world) (hd example_plan)) z \<and>
    contents (end_stream utimens (ep_stream (bn_cl z)) (client_files example_world)) ''/srv/f'' = Some [1, 2, 9, 3]"
proof -
  let ?P = "example_party Map.empty"
  have "ready utimens ?P ?P example_bytes (hd example_plan) example_world"
    using example_ready by (simp add: example_plan_def)
  from transfers_fit_their_channels[OF this, of encoded_len] obtain k z where
    runs: "\<forall>j n. (bounded_step stream_capacity encoded_len (client_at ?P example_world) (server_at ?P example_world) ^^ j)
        (start_bounded (client_at ?P example_world) (hd example_plan)) n \<longrightarrow>
      (bounded_step stream_capacity encoded_len (client_at ?P example_world) (server_at ?P example_world) ^^ (k - j)) n z"
    and bytes: "contents (end_stream utimens (ep_stream (bn_cl z)) (client_files example_world))
        (client_path ?P (hd example_plan)) = Some (example_bytes (hd example_plan))"
    by (auto simp: example_receiver)
  have "(bounded_step stream_capacity encoded_len (client_at ?P example_world) (server_at ?P example_world) ^^ k)
      (start_bounded (client_at ?P example_world) (hd example_plan)) z"
    using spec[OF spec[OF runs, of 0]] by simp
  then show ?thesis using bytes by (auto simp: example_plan_def example_places example_bytes_def)
qed

end
