(* ===== verification/Frame_Limit.thy ===== *)
theory Frame_Limit
  imports Bounded_Net
begin

section \<open>Files with too many blocks\<close>

text \<open>
  The receiver of a file sends the signatures of all blocks of its version in one message
  (\<open>send_block_signatures_for_file\<close> of src/sync/transfer.rs), which, other than literals, is not cut
  into chunks.  When it is longer than the limit of a frame, the sender's stream fails, the sender
  leaves, and the writer that the receiver has opened ends without a delta: the file is replaced by
  an empty one.
\<close>

subsection \<open>Single steps\<close>

lemma client_turn:
  "side_step cap frame_len C e k f l = Some (e', k') \<Longrightarrow>
     bounded_step cap frame_len C S \<lparr>bn_cl = e, cl_pushed = k, bn_sv = f, sv_pushed = l\<rparr>
       \<lparr>bn_cl = e', cl_pushed = k', bn_sv = f, sv_pushed = l\<rparr>"
  using bounded_step.client_side[of cap frame_len C "\<lparr>bn_cl = e, cl_pushed = k, bn_sv = f, sv_pushed = l\<rparr>" e' k' S] by simp

lemma server_turn:
  "side_step cap frame_len S f l e k = Some (f', l') \<Longrightarrow>
     bounded_step cap frame_len C S \<lparr>bn_cl = e, cl_pushed = k, bn_sv = f, sv_pushed = l\<rparr>
       \<lparr>bn_cl = e, cl_pushed = k, bn_sv = f', sv_pushed = l'\<rparr>"
  using bounded_step.server_side[of cap frame_len S "\<lparr>bn_cl = e, cl_pushed = k, bn_sv = f, sv_pushed = l\<rparr>" f' l' C] by simp

lemma five_steps: "R a b \<Longrightarrow> R b c \<Longrightarrow> R c d \<Longrightarrow> R d e \<Longrightarrow> R e z \<Longrightarrow> (R ^^ 5) a z"
  by (simp add: numeral_eq_Suc OO_def) blast

lemma push_step: "k < length (sent e) \<Longrightarrow> k < cap \<Longrightarrow> side_step cap frame_len p e k f l = Some (e, Suc k)"
  by (simp add: side_step_def)

lemma round_step:
  assumes "length (sent e) \<le> k" "ep_done e = None" "ep_pos e < l" "l \<le> length (sent f)"
    and "frame_len (sent f ! ep_pos e) \<le> max_decoding_message_size" "stream_round p (sent f ! ep_pos e) (ep_stream e) = Some (h, d)"
  shows "side_step cap frame_len p e k f l = Some (\<lparr>ep_stream = h, ep_pos = Suc (ep_pos e), ep_done = d\<rparr>, k)"
  using assms ep_step_next[of e "take l (sent f)" p h d "gone f l"] by (simp add: side_step_def ep_receive_def)

lemma refused_step:
  assumes "length (sent e) \<le> k" "ep_done e = None" "ep_pos e < l" "l \<le> length (sent f)"
    and "max_decoding_message_size < frame_len (sent f ! ep_pos e)"
  shows "side_step cap frame_len p e k f l = Some (e\<lparr>ep_pos := Suc (ep_pos e), ep_done := Some (Inl Foreign)\<rparr>, k)"
  using assms by (simp add: side_step_def ep_receive_def closed_def)

lemma end_step:
  assumes "length (sent e) \<le> k" "ep_done e = None" "l \<le> ep_pos e" "gone f l"
  shows "side_step cap frame_len p e k f l = Some (e\<lparr>ep_done := Some (Inr ())\<rparr>, k)"
  using assms by (simp add: side_step_def ep_receive_def ep_step_def closed_def)

lemma both_gone_stuck: "gone (bn_cl z) (cl_pushed z) \<Longrightarrow> gone (bn_sv z) (sv_pushed z) \<Longrightarrow> \<nexists>y. bounded_step cap frame_len C S z y"
  by (auto simp: bounded_step_iff side_step_def gone_def ep_receive_closed)

subsection \<open>The two runs\<close>

text \<open>The run of an upload: the server signs, the client refuses the signatures, the server sees the
  end of the stream and its writer gets no delta.\<close>

lemma upload_refused:
  assumes action: "fa_direction a = direction_i32 Upload" and cap: "0 < cap"
    and signed: "generate_blocks_signatures (pa_fs S) (pa_clean S) (pa_blake3 S) (fa_path a) (sync_path (pa_config S))
      (config_block_size (pa_config S)) = Inr (sig, cache)"
    and path: "get_absolute_path (pa_clean S) (fa_path a) (sync_path (pa_config S)) = Inr q" "pa_life S q = None"
    and frames: "frame_len (file_action_message a) \<le> max_decoding_message_size"
      "max_decoding_message_size < frame_len (request (Signatures sig))"
  shows "\<exists>z. (bounded_step cap frame_len C S ^^ 5) (start_bounded C a) z \<and> (\<nexists>y. bounded_step cap frame_len C S z y) \<and>
    ep_done (bn_cl z) = Some (Inl Foreign) \<and> ep_done (bn_sv z) = Some (Inr ()) \<and> stream_writers (ep_stream (bn_cl z)) = [] \<and>
    stream_writers (ep_stream (bn_sv z)) = [\<lparr>wt_path = q, wt_cache = cache,
      wt_modified_ts = unwrap_or_default (fa_timestamp_latest_modified a), wt_deltas = [], wt_lifetime = None\<rparr>]"
proof -
  let ?act = "file_action_message a"
  let ?ts = "unwrap_or_default (fa_timestamp_latest_modified a)"
  let ?e = "\<lambda>h pos d. \<lparr>ep_stream = h, ep_pos = pos, ep_done = d\<rparr> :: endpoint"
  let ?c = "\<lparr>st_sink = new_channel\<lparr>accepted := [?act]\<rparr>, st_file_path = fa_path a, st_writer = None, st_dropped = []\<rparr>"
  let ?s = "\<lparr>st_sink = new_channel\<lparr>accepted := [request (Signatures sig)]\<rparr>, st_file_path = fa_path a,
      st_writer = Some \<lparr>wt_path = q, wt_cache = cache, wt_modified_ts = ?ts, wt_deltas = [], wt_lifetime = None\<rparr>,
      st_dropped = []\<rparr>"
  let ?n = "\<lambda>c k s l. \<lparr>bn_cl = c, cl_pushed = k, bn_sv = s, sv_pushed = l\<rparr>"
  let ?z = "?n (?e ?c 1 (Some (Inl Foreign))) 1 (?e ?s 1 (Some (Inr ()))) 1"
  have start: "start_bounded C a = ?n (?e ?c 0 None) 0 (?e (new_stream new_channel) 0 None) 0"
    using action by (simp add: start_bounded_def start_not_download)
  have 1: "side_step cap frame_len C (?e ?c 0 None) 0 (?e (new_stream new_channel) 0 None) 0 = Some (?e ?c 0 None, 1)"
    using cap by (simp add: push_step sent_def)
  have 2: "side_step cap frame_len S (?e (new_stream new_channel) 0 None) 0 (?e ?c 0 None) 1 = Some (?e ?s 1 None, 0)"
    using round_upload[OF action signed path] frames(1)
    by (subst round_step) (simp_all add: sent_def new_stream_def new_channel_def)
  have 3: "side_step cap frame_len S (?e ?s 1 None) 0 (?e ?c 0 None) 1 = Some (?e ?s 1 None, 1)"
    using cap by (simp add: push_step sent_def)
  have 4: "side_step cap frame_len C (?e ?c 0 None) 1 (?e ?s 1 None) 1 = Some (?e ?c 1 (Some (Inl Foreign)), 1)"
    using frames(2) by (subst refused_step) (simp_all add: sent_def)
  have 5: "side_step cap frame_len S (?e ?s 1 None) 1 (?e ?c 1 (Some (Inl Foreign))) 1 = Some (?e ?s 1 (Some (Inr ())), 1)"
    by (subst end_step) (simp_all add: sent_def gone_def closed_def)
  have "(bounded_step cap frame_len C S ^^ 5) (start_bounded C a) ?z"
    unfolding start
    by (rule five_steps) (rule client_turn[OF 1] server_turn[OF 2] server_turn[OF 3] client_turn[OF 4] server_turn[OF 5])+
  moreover have "\<nexists>y. bounded_step cap frame_len C S ?z y"
    by (rule both_gone_stuck) (simp_all add: gone_def closed_def sent_def)
  ultimately show ?thesis by (intro exI[of _ ?z]) (simp add: stream_writers_def)
qed

text \<open>The run of a download: the client sends signatures, the server refuses them, the client sees the
  end of the stream, takes it for success, and its writer gets no delta.\<close>

lemma download_refused:
  assumes action: "fa_direction a = direction_i32 Download" and cap: "1 < cap"
    and path: "get_absolute_path (pa_clean C) (fa_path a) (sync_path (pa_config C)) = Inr q"
      "path_join (sync_path (pa_config C)) (fa_path a) = q" "pa_life C q = None"
    and bs: "0 < unat (config_block_size (pa_config C))" "unat (config_block_size (pa_config C)) \<le> isize_max"
    and own: "own_version (pa_fs C) q old"
    and frames: "frame_len (file_action_message a) \<le> max_decoding_message_size"
      "max_decoding_message_size < frame_len (request (Signatures (signed (pa_blake3 C) (config_block_size (pa_config C)) old)))"
  shows "\<exists>z. (bounded_step cap frame_len C S ^^ 5) (start_bounded C a) z \<and> (\<nexists>y. bounded_step cap frame_len C S z y) \<and>
    ep_done (bn_cl z) = Some (Inr ()) \<and> ep_done (bn_sv z) = Some (Inl Foreign) \<and> stream_writers (ep_stream (bn_sv z)) = [] \<and>
    stream_writers (ep_stream (bn_cl z)) = [\<lparr>wt_path = q, wt_cache = chunks (unat (config_block_size (pa_config C))) old,
      wt_modified_ts = unwrap_or_default (fa_timestamp_latest_modified a), wt_deltas = [], wt_lifetime = None\<rparr>]"
proof -
  let ?act = "file_action_message a" and ?bs = "config_block_size (pa_config C)"
  let ?sig = "request (Signatures (signed (pa_blake3 C) ?bs old))"
  let ?ts = "unwrap_or_default (fa_timestamp_latest_modified a)"
  let ?e = "\<lambda>h pos d. \<lparr>ep_stream = h, ep_pos = pos, ep_done = d\<rparr> :: endpoint"
  let ?c = "\<lparr>st_sink = new_channel\<lparr>accepted := [?act, ?sig]\<rparr>, st_file_path = fa_path a,
      st_writer = Some \<lparr>wt_path = q, wt_cache = chunks (unat ?bs) old, wt_modified_ts = ?ts, wt_deltas = [], wt_lifetime = None\<rparr>,
      st_dropped = []\<rparr>"
  let ?s = "\<lparr>st_sink = new_channel, st_file_path = fa_path a, st_writer = None, st_dropped = []\<rparr>"
  let ?n = "\<lambda>c k s l. \<lparr>bn_cl = c, cl_pushed = k, bn_sv = s, sv_pushed = l\<rparr>"
  let ?z = "?n (?e ?c 0 (Some (Inr ()))) 2 (?e ?s 2 (Some (Inl Foreign))) 0"
  have "sync_file_open (pa_fs C) (pa_clean C) (pa_blake3 C) channel_send (pa_config C) (pa_life C) a new_channel = (?c, Inr ())"
    using open_download[where tx = new_channel and life = "pa_life C" and q = q, OF action path(1,2) bs own _ path(3)]
    by (simp add: new_channel_def)
  then have start: "start_bounded C a = ?n (?e ?c 0 None) 0 (?e (new_stream new_channel) 0 None) 0"
    by (simp add: start_bounded_def start_net_def)
  have round: "stream_round S ?act (new_stream new_channel) = Some (?s, None)"
    using action by (simp add: stream_round_def file_action_message_def request_def handle_sync_payload_def
        handle_file_action_def new_stream_def)
  have 1: "side_step cap frame_len C (?e ?c 0 None) 0 (?e (new_stream new_channel) 0 None) 0 = Some (?e ?c 0 None, 1)"
    using cap by (simp add: push_step sent_def)
  have 2: "side_step cap frame_len C (?e ?c 0 None) 1 (?e (new_stream new_channel) 0 None) 0 = Some (?e ?c 0 None, 2)"
    using cap by (simp add: push_step sent_def)
  have 3: "side_step cap frame_len S (?e (new_stream new_channel) 0 None) 0 (?e ?c 0 None) 2 = Some (?e ?s 1 None, 0)"
    using round frames(1) by (subst round_step) (simp_all add: sent_def new_stream_def new_channel_def)
  have 4: "side_step cap frame_len S (?e ?s 1 None) 0 (?e ?c 0 None) 2 = Some (?e ?s 2 (Some (Inl Foreign)), 0)"
    using frames(2) by (subst refused_step) (simp_all add: sent_def new_channel_def)
  have 5: "side_step cap frame_len C (?e ?c 0 None) 2 (?e ?s 2 (Some (Inl Foreign))) 0 = Some (?e ?c 0 (Some (Inr ())), 2)"
    by (subst end_step) (simp_all add: sent_def gone_def closed_def new_channel_def)
  have "(bounded_step cap frame_len C S ^^ 5) (start_bounded C a) ?z"
    unfolding start
    by (rule five_steps) (rule client_turn[OF 1] client_turn[OF 2] server_turn[OF 3] server_turn[OF 4] client_turn[OF 5])+
  moreover have "\<nexists>y. bounded_step cap frame_len C S ?z y"
    by (rule both_gone_stuck) (simp_all add: gone_def closed_def sent_def new_channel_def)
  ultimately show ?thesis by (intro exI[of _ ?z]) (simp add: stream_writers_def)
qed

text \<open>A writer without deltas leaves an empty file.\<close>

lemma written_empty:
  assumes "mtime_setter set_file_mtime" "can_receive blake3 bs F q new"
    and "stream_writers h = [\<lparr>wt_path = q, wt_cache = cache, wt_modified_ts = ts, wt_deltas = [], wt_lifetime = None\<rparr>]"
  shows "contents (end_stream set_file_mtime h F) q = Some []"
proof -
  obtain f where "writable_name q f" "can_replace F q" using assms(2) by (auto simp: can_receive_def)
  from end_upload[OF assms(1) this, of cache "[]"] show ?thesis using assms(3) by (simp add: indices_ok_def)
qed

subsection \<open>Properties\<close>

text \<open>C15: A file whose receiver has a version with too many blocks is emptied.  Let a planned file be
  ready in every respect, but let the receiver's signatures be longer than a frame may be (which they
  are, without compression, from 116509 blocks on: \<open>signatures_too_long\<close>).  Then every schedule
  ends after five steps in one final state, in which the receiver's file is empty: the server's for
  an upload, whose client at least ends with an error, and the client's for a download, whose client
  ends as if the file had arrived.\<close>

theorem oversized_signatures_empty_the_file:
  assumes ready: "ready set_file_mtime C S B a w"
    and too_long: "max_decoding_message_size <
      frame_len (request (Signatures (signed (pa_blake3 S) (receiver_block_size C S a) (receiver_version C S a w))))"
    and "frame_len (file_action_message a) \<le> max_decoding_message_size"
  shows "\<exists>z. (\<forall>j n. (bounded_step stream_capacity frame_len (client_at C w) (server_at S w) ^^ j) (start_bounded (client_at C w) a) n \<longrightarrow>
      j \<le> 5 \<and> (bounded_step stream_capacity frame_len (client_at C w) (server_at S w) ^^ (5 - j)) n z) \<and>
    (\<nexists>y. bounded_step stream_capacity frame_len (client_at C w) (server_at S w) z y) \<and>
    (if fa_direction a = direction_i32 Download then
       ep_done (bn_cl z) = Some (Inr ()) \<and> ep_done (bn_sv z) = Some (Inl Foreign) \<and>
       contents (end_stream set_file_mtime (ep_stream (bn_cl z)) (client_files w)) (client_path C a) = Some []
     else
       ep_done (bn_cl z) = Some (Inl Foreign) \<and> ep_done (bn_sv z) = Some (Inr ()) \<and>
       contents (end_stream set_file_mtime (ep_stream (bn_sv z)) (server_files w)) (server_path S a) = Some [])"
proof -
  let ?step = "bounded_step stream_capacity frame_len (client_at C w) (server_at S w)"
  have setter: "mtime_setter set_file_mtime" and sane: "sane C S a" using ready by (simp_all add: ready_def)
  have server: "get_absolute_path (pa_clean S) (fa_path a) (sync_path (pa_config S)) = Inr (server_path S a)"
    using sane by (auto simp: sane_def server_path_def)
  have room: "0 < stream_capacity" "1 < stream_capacity" by (simp_all add: stream_capacity_def)
  consider (download) "fa_direction a = direction_i32 Download" | (upload) "fa_direction a = direction_i32 Upload"
    using ready by (auto simp: ready_def)
  then show ?thesis
  proof cases
    case download
    let ?bs = "config_block_size (pa_config C)"
    have can: "can_receive (pa_blake3 S) ?bs (client_files w) (client_path C a) (B a)" using ready download by (auto simp: ready_def)
    then obtain old where bs: "0 < unat ?bs" "unat ?bs \<le> isize_max" and old: "fs_read (client_files w) (client_path C a) = Inr old \<or>
        fs_read (client_files w) (client_path C a) = Inl NotFound \<and> \<not> fs_exists (client_files w) (client_path C a) \<and> old = []"
      by (auto simp: can_receive_def)
    have version: "receiver_version C S a w = old" "receiver_block_size C S a = ?bs"
      using old download by (auto simp: receiver_version_def receiver_block_size_def)
    obtain z where z: "(?step ^^ 5) (start_bounded (client_at C w) a) z" "\<nexists>y. ?step z y"
        "ep_done (bn_cl z) = Some (Inr ())" "ep_done (bn_sv z) = Some (Inl Foreign)"
        "stream_writers (ep_stream (bn_cl z)) = [\<lparr>wt_path = client_path C a, wt_cache = chunks (unat ?bs) old,
          wt_modified_ts = unwrap_or_default (fa_timestamp_latest_modified a), wt_deltas = [], wt_lifetime = None\<rparr>]"
      using download_refused[where C = "client_at C w" and S = "server_at S w" and cap = stream_capacity and frame_len = frame_len
          and q = "client_path C a" and old = old, OF download room(2)] sane bs own_version_read[OF old] too_long assms(3) version
      by (auto simp: sane_def client_path_def)
    show ?thesis
      using bounded.every_run_ends[OF z(1,2)] z written_empty[OF setter can z(5)] download by (intro exI[of _ z]) simp
  next
    case upload
    let ?bs = "config_block_size (pa_config S)"
    have can: "can_receive (pa_blake3 S) ?bs (server_files w) (server_path S a) (B a)" using ready upload by (auto simp: ready_def)
    then obtain old where bs: "0 < unat ?bs" "unat ?bs \<le> isize_max" and old: "fs_read (server_files w) (server_path S a) = Inr old \<or>
        fs_read (server_files w) (server_path S a) = Inl NotFound \<and> \<not> fs_exists (server_files w) (server_path S a) \<and> old = []"
      by (auto simp: can_receive_def)
    have version: "receiver_version C S a w = old" "receiver_block_size C S a = ?bs"
      using old upload by (auto simp: receiver_version_def receiver_block_size_def)
    have signed: "generate_blocks_signatures (server_files w) (pa_clean S) (pa_blake3 S) (fa_path a) (sync_path (pa_config S)) ?bs =
        Inr (signed (pa_blake3 S) ?bs old, chunks (unat ?bs) old)"
      using old generate_blocks_signatures_ok[OF server _ bs] generate_blocks_signatures_NotFound[OF server _ bs]
      by (auto simp: signed_def signed_empty)
    obtain z where z: "(?step ^^ 5) (start_bounded (client_at C w) a) z" "\<nexists>y. ?step z y"
        "ep_done (bn_cl z) = Some (Inl Foreign)" "ep_done (bn_sv z) = Some (Inr ())"
        "stream_writers (ep_stream (bn_sv z)) = [\<lparr>wt_path = server_path S a, wt_cache = chunks (unat ?bs) old,
          wt_modified_ts = unwrap_or_default (fa_timestamp_latest_modified a), wt_deltas = [], wt_lifetime = None\<rparr>]"
      using upload_refused[where C = "client_at C w" and S = "server_at S w" and cap = stream_capacity and frame_len = frame_len
          and q = "server_path S a", OF upload room(1)] sane server signed too_long assms(3) version
      by (auto simp: sane_def)
    show ?thesis
      using bounded.every_run_ends[OF z(1,2)] z written_empty[OF setter can z(5)] upload by (intro exI[of _ z]) simp
  qed
qed

text \<open>An upload to a server whose version has 116509 blocks of two bytes.\<close>

definition large_version :: "byte list" where
  "large_version = replicate 233018 0"

definition large_world :: files where
  "large_world = \<lparr>client_files = example_tree [''f'' \<mapsto> [5, 6]], server_files = example_tree [''f'' \<mapsto> large_version]\<rparr>"

lemma length_chunks_le_length: "length (chunks n xs) \<le> length xs"
proof (induction n xs rule: chunks.induct)
  case (1 n xs)
  show ?case
  proof (cases "n = 0 \<or> xs = []")
    case True
    then show ?thesis by (subst chunks.simps) simp
  next
    case False
    then have "length (chunks n (drop n xs)) \<le> length xs - n" using 1 by simp
    moreover have "0 < length xs" "0 < n" using False by simp_all
    ultimately have "Suc (length (chunks n (drop n xs))) \<le> length xs" by linarith
    then show ?thesis using False by (subst chunks.simps) simp
  qed
qed

lemma large_blocks: "116509 \<le> length (chunks 2 large_version)" "length (chunks 2 large_version) \<le> 2 ^ 32"
proof -
  have len: "length large_version = 233018" unfolding large_version_def by (rule length_replicate)
  show "116509 \<le> length (chunks 2 large_version)" using chunks_complete[of 2 116508 large_version] len by simp
  show "length (chunks 2 large_version) \<le> 2 ^ 32" using length_chunks_le_length[of 2 large_version] len by simp
qed

lemma large_read: "fs_read (server_files large_world) ''/srv/f'' = Inr large_version"
  "fs_read (client_files large_world) ''/srv/f'' = Inr [5, 6]"
  by (simp_all add: large_world_def example_read)

lemma large_upload:
  "client_path (example_party files) example_upload = ''/srv/f''" "server_path (example_party files) example_upload = ''/srv/f''"
  "fa_direction example_upload = direction_i32 Upload" "fa_path example_upload = ''f''"
  by (simp_all add: example_upload_def example_places)

lemma large_ready:
  "ready utimens (example_party Map.empty) (example_party Map.empty) (\<lambda>_. [5, 6]) example_upload large_world"
proof -
  have "can_receive example_hash 2 (server_files large_world) ''/srv/f'' [5, 6]"
    unfolding can_receive_def
    using example_paths(5) example_can_replace strong_separates_example[of 2 large_version "[5, 6]"] large_read(1) large_blocks(2)
    by (intro conjI exI[of _ large_version]) (auto simp: isize_max_def large_world_def)
  moreover have "cwd (example_tree files) = []" for files by (simp add: example_tree_def)
  ultimately show ?thesis
    using large_read(2) utimens.mtime_setter_axioms example_paths(4)
    by (simp add: ready_def sane_def large_upload) (simp add: large_world_def)
qed

theorem oversized_signatures_empty_the_file_witness:
  "\<exists>z. (bounded_step stream_capacity encoded_len (client_at (example_party Map.empty) large_world)
        (server_at (example_party Map.empty) large_world) ^^ 5)
      (start_bounded (client_at (example_party Map.empty) large_world) example_upload) z \<and>
    ep_done (bn_cl z) = Some (Inl Foreign) \<and>
    contents (end_stream utimens (ep_stream (bn_sv z)) (server_files large_world)) ''/srv/f'' = Some []"
proof -
  let ?P = "example_party Map.empty"
  let ?step = "bounded_step stream_capacity encoded_len (client_at ?P large_world) (server_at ?P large_world)"
  have version: "receiver_block_size ?P ?P example_upload = 2" "receiver_version ?P ?P example_upload large_world = large_version"
    using large_read(1) by (simp_all add: receiver_block_size_def receiver_version_def large_upload)
  have "max_decoding_message_size < encoded_len (request (Signatures (signed example_hash 2 large_version)))"
    using large_blocks(1) by (intro signatures_too_long) simp_all
  then have long: "max_decoding_message_size < encoded_len (request (Signatures (signed (pa_blake3 ?P)
      (receiver_block_size ?P ?P example_upload) (receiver_version ?P ?P example_upload large_world))))"
    by (simp only: version example_party_simps)
  have action: "encoded_len (file_action_message example_upload) \<le> max_decoding_message_size"
    using action_message_len[of example_upload] by (simp add: large_upload(4) max_decoding_message_size_def)
  have up: "(fa_direction example_upload = direction_i32 Download) = False" by (simp add: large_upload(3))
  obtain z where "\<forall>j n. (?step ^^ j) (start_bounded (client_at ?P large_world) example_upload) n \<longrightarrow> j \<le> 5 \<and> (?step ^^ (5 - j)) n z"
      "ep_done (bn_cl z) = Some (Inl Foreign)"
      "contents (end_stream utimens (ep_stream (bn_sv z)) (server_files large_world)) (server_path ?P example_upload) = Some []"
    using oversized_signatures_empty_the_file[OF large_ready long action] unfolding up if_False by blast
  moreover from this(1)[THEN spec, THEN spec, of 0] have "(?step ^^ 5) (start_bounded (client_at ?P large_world) example_upload) z" by simp
  ultimately show ?thesis unfolding large_upload(2) by blast
qed

end
