(* ===== verification/Writer_Steps.thy ===== *)
theory Writer_Steps
  imports Sync_Pool
begin

section \<open>Writers that run at the same time\<close>

text \<open>
  The task of src/utils/writer.rs one file operation at a time: create the temporary file, apply a
  delta, rename, set the time.  Run alone it is \<open>delta_writer\<close>.  Any number of writers run on
  one file system, in any order of their operations.

  Writers whose files are not in each other's way do not notice each other: their steps commute, so
  every interleaving ends in the file system that running them one after another gives.  This is
  what Sync_Pool takes for granted when it lets a transfer act in one step.  Two writers of the
  same file share the temporary name, and then the result can be a mixture of both.

  A handle is the place of the file (see File_System): this is faithful as long as no other writer
  renames that place while the handle is written to, which holds for every run considered here.
\<close>

subsection \<open>The operations of a writer\<close>

datatype writer_phase = Opening | Applying "string list" "Delta list" | Stamping | Ended "unit outcome"

fun writer_act ::
    "(file_system \<Rightarrow> PathBuf \<Rightarrow> mtime \<Rightarrow> io_error + file_system) \<Rightarrow> writer_task \<Rightarrow> writer_phase \<Rightarrow>
     file_system \<Rightarrow> (file_system \<times> writer_phase) option" where
  "writer_act set_file_mtime w Opening F =
     (case fs_create F (tmp_file (wt_path w)) of
        Inl e \<Rightarrow> Some (F, Ended (Inl (Err (Io e))))
      | Inr (handle, F') \<Rightarrow> Some (F', Applying handle (wt_deltas w)))"
| "writer_act set_file_mtime w (Applying handle (d # ds)) F =
     (case writer_step (wt_cache w) handle d F of
        Inl e \<Rightarrow> Some (F, Ended (Inl e))
      | Inr F' \<Rightarrow> Some (F', Applying handle ds))"
| "writer_act set_file_mtime w (Applying handle []) F =
     (case fs_rename F (tmp_file (wt_path w)) (wt_path w) of
        Inl e \<Rightarrow> Some (F, Ended (Inl (Err (Io e))))
      | Inr F' \<Rightarrow> Some (F', Stamping))"
| "writer_act set_file_mtime w Stamping F =
     Some (case set_file_mtime F (wt_path w) (file_time (wt_modified_ts w)) of Inl _ \<Rightarrow> F | Inr F' \<Rightarrow> F',
           Ended (Inr ()))"
| "writer_act set_file_mtime w (Ended r) F = None"

record writers =
  wn_fs :: file_system
  wn_runs :: "(writer_task \<times> writer_phase) list"

inductive writers_step ::
    "(file_system \<Rightarrow> PathBuf \<Rightarrow> mtime \<Rightarrow> io_error + file_system) \<Rightarrow> writers \<Rightarrow> writers \<Rightarrow> bool" for set_file_mtime where
  act: "i < length (wn_runs n) \<Longrightarrow> wn_runs n ! i = (w, ph) \<Longrightarrow>
    writer_act set_file_mtime w ph (wn_fs n) = Some (F, ph') \<Longrightarrow>
    writers_step set_file_mtime n (n\<lparr>wn_fs := F, wn_runs := (wn_runs n)[i := (w, ph')]\<rparr>)"

inductive_cases writers_stepE: "writers_step set_file_mtime n n'"

definition start_writers :: "file_system \<Rightarrow> writer_task list \<Rightarrow> writers" where
  "start_writers F ws = \<lparr>wn_fs = F, wn_runs = map (\<lambda>w. (w, Opening)) ws\<rparr>"

subsection \<open>A writer alone\<close>

text \<open>Runs of the writer at one index of the list.\<close>

lemma step_at:
  assumes "i < length rs" "rs ! i = (w, ph)" "writer_act set_file_mtime w ph F = Some (F', ph')"
  shows "writers_step set_file_mtime \<lparr>wn_fs = F, wn_runs = rs\<rparr> \<lparr>wn_fs = F', wn_runs = rs[i := (w, ph')]\<rparr>"
  using writers_step.act[of i "\<lparr>wn_fs = F, wn_runs = rs\<rparr>" w ph set_file_mtime F' ph'] assms by simp

lemma step_run:
  assumes "i < length rs" "rs ! i = (w, ph)" "writer_act set_file_mtime w ph F = Some (F', ph')"
  shows "(writers_step set_file_mtime ^^ 1) \<lparr>wn_fs = F, wn_runs = rs\<rparr> \<lparr>wn_fs = F', wn_runs = rs[i := (w, ph')]\<rparr>"
  using step_at[OF assms] by auto

lemma loop_at:
  assumes "i < length rs" "rs ! i = (w, Applying handle ds)" "writer_loop (wt_cache w) handle ds F = (F', r)"
  shows "\<exists>k. (writers_step set_file_mtime ^^ k) \<lparr>wn_fs = F, wn_runs = rs\<rparr>
    \<lparr>wn_fs = F', wn_runs = rs[i := (w, case r of Inl e \<Rightarrow> Ended (Inl e) | Inr _ \<Rightarrow> Applying handle [])]\<rparr>"
  using assms
proof (induction ds arbitrary: F rs)
  case Nil
  then have "F' = F" "r = Inr ()" "rs[i := (w, Applying handle [])] = rs" by (auto simp: list_update_same_conv)
  then show ?case by (intro exI[of _ 0]) simp
next
  case (Cons d ds)
  show ?case
  proof (cases "writer_step (wt_cache w) handle d F")
    case (Inl e)
    then have "writers_step set_file_mtime \<lparr>wn_fs = F, wn_runs = rs\<rparr> \<lparr>wn_fs = F, wn_runs = rs[i := (w, Ended (Inl e))]\<rparr>"
      using Cons.prems by (intro step_at) auto
    then show ?thesis using Cons.prems(3) Inl by (intro exI[of _ 1]) auto
  next
    case (Inr F1)
    let ?rs = "rs[i := (w, Applying handle ds)]"
    have step: "writers_step set_file_mtime \<lparr>wn_fs = F, wn_runs = rs\<rparr> \<lparr>wn_fs = F1, wn_runs = ?rs\<rparr>"
      using Cons.prems Inr by (intro step_at) auto
    obtain k where "(writers_step set_file_mtime ^^ k) \<lparr>wn_fs = F1, wn_runs = ?rs\<rparr>
      \<lparr>wn_fs = F', wn_runs = ?rs[i := (w, case r of Inl e \<Rightarrow> Ended (Inl e) | Inr _ \<Rightarrow> Applying handle [])]\<rparr>"
      using Cons.IH[of ?rs F1] Cons.prems Inr by auto
    then show ?thesis using relpowp_Suc_I2[where P = "writers_step set_file_mtime", OF step] by (intro exI[of _ "Suc k"]) simp
  qed
qed

lemma writer_at:
  assumes "i < length rs" "rs ! i = (w, Opening)"
    and run: "delta_writer set_file_mtime (wt_path w) (wt_cache w) (wt_modified_ts w) (wt_deltas w) F = (F', r)"
  shows "\<exists>k. (writers_step set_file_mtime ^^ k) \<lparr>wn_fs = F, wn_runs = rs\<rparr> \<lparr>wn_fs = F', wn_runs = rs[i := (w, Ended r)]\<rparr>"
proof (cases "fs_create F (tmp_file (wt_path w))")
  case (Inl e)
  then have "writers_step set_file_mtime \<lparr>wn_fs = F, wn_runs = rs\<rparr> \<lparr>wn_fs = F', wn_runs = rs[i := (w, Ended r)]\<rparr>"
    using assms by (intro step_at) (auto simp: delta_writer_def)
  then show ?thesis by (intro exI[of _ 1]) auto
next
  case (Inr x)
  obtain handle F1 where x: "x = (handle, F1)" by (cases x)
  let ?rs = "rs[i := (w, Applying handle (wt_deltas w))]"
  have 1: "(writers_step set_file_mtime ^^ 1) \<lparr>wn_fs = F, wn_runs = rs\<rparr> \<lparr>wn_fs = F1, wn_runs = ?rs\<rparr>"
    using step_at[OF assms(1,2), of set_file_mtime F F1] Inr x by auto
  obtain F2 r2 where loop: "writer_loop (wt_cache w) handle (wt_deltas w) F1 = (F2, r2)" by fastforce
  obtain k where 2: "(writers_step set_file_mtime ^^ k) \<lparr>wn_fs = F1, wn_runs = ?rs\<rparr>
    \<lparr>wn_fs = F2, wn_runs = rs[i := (w, case r2 of Inl e \<Rightarrow> Ended (Inl e) | Inr _ \<Rightarrow> Applying handle [])]\<rparr>"
    using loop_at[of i ?rs w handle "wt_deltas w" F1 F2 r2 set_file_mtime] assms(1) loop by auto
  show ?thesis
  proof (cases r2)
    case (Inl e)
    then have "F' = F2" "r = Inl e" using run \<open>fs_create F (tmp_file (wt_path w)) = Inr x\<close> x loop by (auto simp: delta_writer_def)
    then show ?thesis using runs_append[OF 1 2[unfolded Inl, simplified]] by blast
  next
    case ok: (Inr u)
    let ?rs2 = "rs[i := (w, Applying handle [])]"
    show ?thesis
    proof (cases "fs_rename F2 (tmp_file (wt_path w)) (wt_path w)")
      case (Inl e)
      have "(writers_step set_file_mtime ^^ 1) \<lparr>wn_fs = F2, wn_runs = ?rs2\<rparr> \<lparr>wn_fs = F2, wn_runs = rs[i := (w, Ended (Inl (Err (Io e))))]\<rparr>"
        using step_at[of i ?rs2 w "Applying handle []" set_file_mtime F2 F2] assms(1) Inl by auto
      note path = runs_append[OF 1 runs_append[OF 2[unfolded ok, simplified] this]]
      have "F' = F2" "r = Inl (Err (Io e))" using run \<open>fs_create F (tmp_file (wt_path w)) = Inr x\<close> x loop Inl ok
        by (auto simp: delta_writer_def)
      then show ?thesis using path by blast
    next
      case renamed: (Inr F3)
      let ?rs3 = "rs[i := (w, Stamping)]"
      have 3: "(writers_step set_file_mtime ^^ 1) \<lparr>wn_fs = F2, wn_runs = ?rs2\<rparr> \<lparr>wn_fs = F3, wn_runs = ?rs3\<rparr>"
        using step_at[of i ?rs2 w "Applying handle []" set_file_mtime F2 F3] assms(1) renamed by auto
      have 4: "(writers_step set_file_mtime ^^ 1) \<lparr>wn_fs = F3, wn_runs = ?rs3\<rparr> \<lparr>wn_fs = F', wn_runs = rs[i := (w, Ended r)]\<rparr>"
        using step_at[of i ?rs3 w Stamping set_file_mtime F3 F'] assms(1) run Inr x loop ok renamed
        by (auto simp: delta_writer_def)
      show ?thesis using runs_append[OF 1 runs_append[OF 2[unfolded ok, simplified] runs_append[OF 3 4]]] by blast
    qed
  qed
qed


subsection \<open>What an operation sees and changes\<close>

text \<open>The setter of modification times looks at the file and the directories above it only.\<close>

locale local_mtime_setter = mtime_setter +
  assumes set_mtime_local: "same_except L F G \<Longrightarrow> clear_of L (resolve F p) \<Longrightarrow> set_file_mtime F p t = Inr F' \<Longrightarrow>
    \<exists>G'. set_file_mtime G p t = Inr G'"

interpretation utimens: local_mtime_setter utimens
proof unfold_locales
  fix L F G p t F'
  assume same: "same_except L F G" and clear: "clear_of L (resolve F p)" and set: "utimens F p t = Inr F'"
  then show "\<exists>G'. utimens G p t = Inr G'"
    using lookup_clear(1)[OF same clear] same_except_resolve[OF same, of p]
    by (auto simp: utimens_def split: sum.splits)
qed

text \<open>\<open>G\<close> with the nodes of \<open>F\<close> at the places \<open>K\<close>.\<close>

definition patched :: "string list set \<Rightarrow> file_system \<Rightarrow> file_system \<Rightarrow> file_system" where
  "patched K F G = G\<lparr>nodes := (\<lambda>k. if k \<in> K then nodes F k else nodes G k)\<rparr>"

lemma patched_same: "same_except K F G \<Longrightarrow> patched K G F = G"
  by (cases F; cases G) (auto simp: patched_def same_except_def)

lemma patched_put:
  assumes "k \<in> K" "\<forall>l \<in> K. nodes G l = nodes F l"
  shows "patched K (put_file k c m F) G = put_file k c m G"
proof -
  have "(\<lambda>l. if l \<in> K then nodes (put_file k c m F) l else nodes G l) = (nodes G)(k \<mapsto> File c m)"
    using assms by (auto simp: fun_eq_iff)
  then show ?thesis unfolding patched_def by (simp only: put_file_def)
qed

lemma patched_unchanged: "\<forall>l \<in> K. nodes G l = nodes F l \<Longrightarrow> patched K F G = G"
  by (cases G) (auto simp: patched_def)

definition handle_ok :: "file_system \<Rightarrow> writer_task \<Rightarrow> writer_phase \<Rightarrow> bool" where
  "handle_ok F w ph \<longleftrightarrow> (\<forall>handle ds. ph = Applying handle ds \<longrightarrow> handle = resolve F (tmp_file (wt_path w)))"

lemma missing_clear:
  assumes "same_except K F F'" "clear_of K l"
  shows "missing_kind F' l = missing_kind F l"
proof -
  have "nodes F' l' = nodes F l'" if "prefix l' l" for l'
    using assms(1) clear_ofD[OF assms(2) that] by (simp add: same_except_def)
  then show ?thesis by (simp add: missing_kind_def take_is_prefix)
qed

text \<open>An operation of a writer changes its own places, and does the same when places it does not
  look at are changed.\<close>

lemma writer_act_frame:
  assumes "mtime_setter set_file_mtime" "writer_act set_file_mtime w ph F = Some (F', ph')" "handle_ok F w ph"
  shows "same_except (places F (wt_path w)) F F'" "handle_ok F' w ph'"
proof -
  have "same_except (places F (wt_path w)) F F' \<and> handle_ok F' w ph'"
  proof (cases ph)
    case Opening
    then show ?thesis using assms(2)
      by (auto simp: fs_create_Inr places_def handle_ok_def split: sum.splits prod.splits)
  next
    case (Applying handle ds)
    then have h: "handle = resolve F (tmp_file (wt_path w))" using assms(3) by (simp add: handle_ok_def)
    show ?thesis
    proof (cases ds)
      case Nil
      then show ?thesis using assms(2) Applying
        by (auto simp: fs_rename_Inr places_def handle_ok_def same_except_def split: sum.splits)
    next
      case (Cons d ds')
      show ?thesis
      proof (cases "writer_step (wt_cache w) handle d F")
        case (Inl e)
        then show ?thesis using assms(2) Applying Cons by (auto simp: handle_ok_def)
      next
        case (Inr F1)
        then have "F' = F1" "ph' = Applying handle ds'" using assms(2) Applying Cons by auto
        then show ?thesis using writer_step_same[OF Inr] same_except_resolve[OF writer_step_same[OF Inr]] h
          by (auto simp: places_def handle_ok_def intro: same_except_mono)
      qed
    qed
  next
    case Stamping
    then show ?thesis using assms(2) mtime_setter.set_mtime_Inr[OF assms(1)]
      by (fastforce simp: places_def handle_ok_def split: sum.splits)
  next
    case (Ended r)
    then show ?thesis using assms(2) by simp
  qed
  then show "same_except (places F (wt_path w)) F F'" "handle_ok F' w ph'" by simp_all
qed

lemma fs_create_clear:
  assumes "same_except L F G" "clear_of L (resolve F p)"
  shows "fs_create G p = (case fs_create F p of Inl e \<Rightarrow> Inl e | Inr (k, F') \<Rightarrow> Inr (k, put_file (resolve F p) [] (clock F) G))"
  using lookup_clear[OF assms] missing_clear[OF assms] same_except_resolve[OF assms(1), of p] assms(1)
  by (simp add: fs_create_def same_except_def Let_def split: option.split)

lemma writer_step_clear:
  assumes "same_except L F G" "k \<notin> L"
  shows "writer_step cache k d G = (case writer_step cache k d F of Inl e \<Rightarrow> Inl e | Inr F' \<Rightarrow> Inr (patched {k} F' G))"
proof -
  have same: "nodes G k = nodes F k" "clock G = clock F" using assms by (simp_all add: same_except_def)
  have all: "fs_write_all G k pos bs = (case fs_write_all F k pos bs of Inl e \<Rightarrow> Inl e | Inr F' \<Rightarrow> Inr (patched {k} F' G))" for pos bs
    using same by (auto simp: fs_write_all_def patched_put split: option.split node.split)
  show ?thesis
    by (auto simp: writer_step_def all from_io_def split: sum.split option.split Instruction.split)
qed

lemma fs_rename_clear:
  assumes "same_except L F G" "clear_of L (resolve F p)" "clear_of L (resolve F q)"
  shows "fs_rename G p q = (case fs_rename F p q of Inl e \<Rightarrow> Inl e | Inr F' \<Rightarrow> Inr (patched {resolve F q, resolve F p} F' G))"
proof -
  have same: "nodes G (resolve F q) = nodes F (resolve F q)" using lookup_clear(4)[OF assms(1,3)] .
  have res: "resolve G p = resolve F p" "resolve G q = resolve F q" using same_except_resolve[OF assms(1)] by simp_all
  have "patched {resolve F q, resolve F p} (put_file (resolve F q) c m (F\<lparr>nodes := (nodes F)(resolve F p := None)\<rparr>)) G =
      put_file (resolve F q) c m (G\<lparr>nodes := (nodes G)(resolve F p := None)\<rparr>)" for c m
    by (cases G) (auto simp: patched_def put_file_def)
  then show ?thesis
    using lookup_clear[OF assms(1,2)] lookup_clear[OF assms(1,3)] missing_clear[OF assms(1,3)] assms(1)
    by (simp add: fs_rename_def res same_except_def Let_def split: option.split sum.split)
qed


lemma same_except_sym: "same_except K F G \<Longrightarrow> same_except K G F"
  by (simp add: same_except_def)

lemma patched_more:
  assumes "J \<subseteq> K" "same_except J F F'" "\<forall>l \<in> K. nodes G l = nodes F l"
  shows "patched J F' G = patched K F' G"
proof -
  have "(\<lambda>k. if k \<in> J then nodes F' k else nodes G k) = (\<lambda>k. if k \<in> K then nodes F' k else nodes G k)"
    using assms by (auto simp: same_except_def fun_eq_iff)
  then show ?thesis by (simp only: patched_def)
qed

lemma stamp_local:
  assumes setter: "local_mtime_setter set_file_mtime" and same: "same_except L F G" and clear: "clear_of L (resolve F p)"
  shows "(case set_file_mtime G p t of Inl _ \<Rightarrow> G | Inr G' \<Rightarrow> G') =
    patched (places F p) (case set_file_mtime F p t of Inl _ \<Rightarrow> F | Inr F' \<Rightarrow> F') G \<or>
    (\<exists>l \<in> places F p. nodes G l \<noteq> nodes F l)"
proof (cases "\<forall>l \<in> places F p. nodes G l = nodes F l")
  case agree: True
  note loc = local_mtime_setter.set_mtime_local[OF setter] and setm = local_mtime_setter.axioms(1)[OF setter]
  have res: "resolve G p = resolve F p" using same_except_resolve[OF same] .
  show ?thesis
  proof (cases "set_file_mtime F p t")
    case (Inl e)
    then have "\<exists>e. set_file_mtime G p t = Inl e"
      using loc[OF same_except_sym[OF same], of p t] clear res by (cases "set_file_mtime G p t") auto
    then show ?thesis using Inl agree patched_unchanged by auto
  next
    case (Inr F')
    then obtain G' where G': "set_file_mtime G p t = Inr G'" using loc[OF same clear] by blast
    obtain c m where F': "nodes F (resolve F p) = Some (File c m)" "F' = put_file (resolve F p) c t F"
      using mtime_setter.set_mtime_Inr[OF setm Inr] by blast
    have "G' = put_file (resolve F p) c t G"
      using mtime_setter.set_mtime_Inr[OF setm G'] agree F'(1) by (auto simp: res places_def)
    then show ?thesis using Inr G' F'(2) patched_put[OF _ agree, of "resolve F p"] by (simp add: places_def)
  qed
qed blast

lemma writer_act_local:
  assumes setter: "local_mtime_setter set_file_mtime" and act: "writer_act set_file_mtime w ph F = Some (F', ph')"
    and same: "same_except L F G" and clear: "\<forall>k \<in> places F (wt_path w). clear_of L k" and ok: "handle_ok F w ph"
  shows "writer_act set_file_mtime w ph G = Some (patched (places F (wt_path w)) F' G, ph')"
proof -
  let ?K = "places F (wt_path w)" and ?tmp = "resolve F (tmp_file (wt_path w))" and ?l = "resolve F (wt_path w)"
  have agree: "\<forall>l \<in> ?K. nodes G l = nodes F l" using lookup_clear(4)[OF same] clear by blast
  have at: "clear_of L ?tmp" "clear_of L ?l" using clear by (simp_all add: places_def)
  note unchanged = patched_unchanged[OF agree]
  show ?thesis
  proof (cases ph)
    case Opening
    show ?thesis
    proof (cases "fs_create F (tmp_file (wt_path w))")
      case (Inl e)
      then show ?thesis using act Opening fs_create_clear[OF same at(1)] unchanged by auto
    next
      case (Inr x)
      then have "x = (?tmp, put_file ?tmp [] (clock F) F)" by (cases x) (simp add: fs_create_Inr)
      then show ?thesis
        using act Opening fs_create_clear[OF same at(1)] Inr patched_put[OF _ agree, of ?tmp] by (auto simp: places_def)
    qed
  next
    case (Applying handle ds)
    then have h: "handle = ?tmp" using ok by (simp add: handle_ok_def)
    show ?thesis
    proof (cases ds)
      case Nil
      show ?thesis
        using act Applying Nil fs_rename_clear[OF same at] unchanged
        by (auto simp: places_def split: sum.splits)
    next
      case (Cons d ds')
      have "?tmp \<notin> L" using at(1) clear_ofD by blast
      note step = writer_step_clear[OF same this, of "wt_cache w" d]
      show ?thesis
      proof (cases "writer_step (wt_cache w) ?tmp d F")
        case (Inl e)
        then show ?thesis using act Applying Cons step unchanged h by auto
      next
        case (Inr F1)
        then have "patched {?tmp} F1 G = patched ?K F1 G"
          using writer_step_same[OF Inr] agree by (intro patched_more) (auto simp: places_def)
        then show ?thesis using act Applying Cons step Inr h by auto
      qed
    qed
  next
    case Stamping
    then show ?thesis using act stamp_local[OF setter same at(2)] agree by auto
  next
    case (Ended r)
    then show ?thesis using act by simp
  qed
qed

subsection \<open>Writers that are apart commute\<close>

definition apart_writers :: "file_system \<Rightarrow> writer_task \<Rightarrow> writer_task \<Rightarrow> bool" where
  "apart_writers F v w \<longleftrightarrow> (\<forall>k \<in> places F (wt_path w). clear_of (places F (wt_path v)) k)"

definition writers_ok ::
    "(file_system \<Rightarrow> PathBuf \<Rightarrow> mtime \<Rightarrow> io_error + file_system) \<Rightarrow> writers \<Rightarrow> bool" where
  "writers_ok set_file_mtime n \<longleftrightarrow> local_mtime_setter set_file_mtime \<and>
     (\<forall>i < length (wn_runs n). handle_ok (wn_fs n) (fst (wn_runs n ! i)) (snd (wn_runs n ! i))) \<and>
     (\<forall>i < length (wn_runs n). \<forall>j < length (wn_runs n). i \<noteq> j \<longrightarrow>
        apart_writers (wn_fs n) (fst (wn_runs n ! i)) (fst (wn_runs n ! j)))"

lemma handle_ok_same: "same_except K F F' \<Longrightarrow> handle_ok F' w ph = handle_ok F w ph"
  by (simp add: handle_ok_def same_except_resolve)

lemma apart_writers_same: "same_except K F F' \<Longrightarrow> apart_writers F' v w = apart_writers F v w"
  by (simp add: apart_writers_def places_def same_except_resolve)

lemma writers_okD:
  assumes "writers_ok set_file_mtime n" "i < length (wn_runs n)" "wn_runs n ! i = (v, ph)"
  shows "local_mtime_setter set_file_mtime" "handle_ok (wn_fs n) v ph"
    "j < length (wn_runs n) \<Longrightarrow> j \<noteq> i \<Longrightarrow> wn_runs n ! j = (w, qh) \<Longrightarrow> apart_writers (wn_fs n) v w"
  using assms by (fastforce simp: writers_ok_def)+

lemma writers_step_ok:
  assumes "writers_step set_file_mtime n n'" "writers_ok set_file_mtime n"
  shows "writers_ok set_file_mtime n'"
  using assms(1)
proof (cases rule: writers_step.cases)
  case (act i w ph F ph')
  have setter: "mtime_setter set_file_mtime" and ok: "handle_ok (wn_fs n) w ph"
    using writers_okD(1,2)[OF assms(2) act(2,3)] local_mtime_setter.axioms(1) by simp_all
  note frame = writer_act_frame[OF setter act(4) ok]
  have tasks: "fst ((wn_runs n)[i := (w, ph')] ! k) = fst (wn_runs n ! k)" for k
    using act(2,3) by (cases "k = i") simp_all
  have "handle_ok F (fst (wn_runs n ! k)) (snd ((wn_runs n)[i := (w, ph')] ! k))" if "k < length (wn_runs n)" for k
    using assms(2) that act(2,3) frame(2) by (cases "k = i") (auto simp: writers_ok_def handle_ok_same[OF frame(1)])
  then show ?thesis
    using assms(2) act(1) by (simp add: writers_ok_def tasks apart_writers_same[OF frame(1)])
qed

lemma two_writers:
  assumes ok: "writers_ok set_file_mtime n" and ij: "i < length (wn_runs n)" "j < length (wn_runs n)" "i \<noteq> j"
    and i: "wn_runs n ! i = (v, ph)" "writer_act set_file_mtime v ph (wn_fs n) = Some (F, ph')"
    and j: "wn_runs n ! j = (w, qh)" "writer_act set_file_mtime w qh (wn_fs n) = Some (G, qh')"
  shows "writers_step set_file_mtime (n\<lparr>wn_fs := G, wn_runs := (wn_runs n)[j := (w, qh')]\<rparr>)
    (n\<lparr>wn_fs := patched (places (wn_fs n) (wt_path v)) F G, wn_runs := (wn_runs n)[j := (w, qh'), i := (v, ph')]\<rparr>)"
proof -
  have setter: "local_mtime_setter set_file_mtime" and hv: "handle_ok (wn_fs n) v ph" and hw: "handle_ok (wn_fs n) w qh"
    and apart: "apart_writers (wn_fs n) w v"
    using writers_okD[OF ok ij(1) i(1)] writers_okD[OF ok ij(2) j(1)] ij i(1) by auto
  have "same_except (places (wn_fs n) (wt_path w)) (wn_fs n) G"
    by (rule writer_act_frame(1)[OF local_mtime_setter.axioms(1)[OF setter] j(2) hw])
  from writer_act_local[OF setter i(2) this _ hv] apart
  have "writer_act set_file_mtime v ph G = Some (patched (places (wn_fs n) (wt_path v)) F G, ph')"
    by (simp add: apart_writers_def)
  then show ?thesis
    using writers_step.act[of i "n\<lparr>wn_fs := G, wn_runs := (wn_runs n)[j := (w, qh')]\<rparr>" v ph set_file_mtime] ij i(1) by simp
qed

lemma patched_swap:
  assumes "same_except J H F" "same_except K H G" "\<forall>k \<in> K. k \<notin> J"
  shows "patched J F G = patched K G F"
proof -
  have "(\<lambda>k. if k \<in> J then nodes F k else nodes G k) = (\<lambda>k. if k \<in> K then nodes G k else nodes F k)"
    using assms by (auto simp: same_except_def fun_eq_iff)
  moreover have "cwd F = cwd G" "fault F = fault G" "clock F = clock G" using assms by (simp_all add: same_except_def)
  ultimately show ?thesis unfolding patched_def by (cases F; cases G) simp
qed

definition writers_move ::
    "(file_system \<Rightarrow> PathBuf \<Rightarrow> mtime \<Rightarrow> io_error + file_system) \<Rightarrow> writers \<Rightarrow> writers \<Rightarrow> bool" where
  "writers_move set_file_mtime n n' \<longleftrightarrow> writers_ok set_file_mtime n \<and> writers_step set_file_mtime n n'"

lemma writers_diamond:
  assumes "writers_move set_file_mtime n a" "writers_move set_file_mtime n b"
  shows "a = b \<or> (\<exists>c. writers_move set_file_mtime a c \<and> writers_move set_file_mtime b c)"
proof -
  have ok: "writers_ok set_file_mtime n" using assms(1) by (simp add: writers_move_def)
  obtain i v ph F ph' where i: "i < length (wn_runs n)" "wn_runs n ! i = (v, ph)"
      "writer_act set_file_mtime v ph (wn_fs n) = Some (F, ph')"
    and a: "a = n\<lparr>wn_fs := F, wn_runs := (wn_runs n)[i := (v, ph')]\<rparr>"
    using assms(1) by (auto simp: writers_move_def elim!: writers_stepE)
  obtain j w qh G qh' where j: "j < length (wn_runs n)" "wn_runs n ! j = (w, qh)"
      "writer_act set_file_mtime w qh (wn_fs n) = Some (G, qh')"
    and b: "b = n\<lparr>wn_fs := G, wn_runs := (wn_runs n)[j := (w, qh')]\<rparr>"
    using assms(2) by (auto simp: writers_move_def elim!: writers_stepE)
  show ?thesis
  proof (cases "i = j")
    case True
    then show ?thesis using i j a b by simp
  next
    case False
    let ?J = "places (wn_fs n) (wt_path v)" and ?K = "places (wn_fs n) (wt_path w)"
    have setter: "local_mtime_setter set_file_mtime" and hv: "handle_ok (wn_fs n) v ph" and hw: "handle_ok (wn_fs n) w qh"
      and apart: "apart_writers (wn_fs n) v w"
      using writers_okD[OF ok i(1,2)] writers_okD[OF ok j(1,2)] j(1,2) False by auto
    note setm = local_mtime_setter.axioms(1)[OF setter]
    have "patched ?J F G = patched ?K G F"
    proof (rule patched_swap[OF writer_act_frame(1)[OF setm i(3) hv] writer_act_frame(1)[OF setm j(3) hw]])
      show "\<forall>k \<in> ?K. k \<notin> ?J" using apart clear_ofD by (fastforce simp: apart_writers_def)
    qed
    moreover have "(wn_runs n)[j := (w, qh'), i := (v, ph')] = (wn_runs n)[i := (v, ph'), j := (w, qh')]"
      using False by (rule list_update_swap[OF not_sym])
    ultimately have "writers_step set_file_mtime a (n\<lparr>wn_fs := patched ?J F G, wn_runs := (wn_runs n)[j := (w, qh'), i := (v, ph')]\<rparr>)"
      "writers_step set_file_mtime b (n\<lparr>wn_fs := patched ?J F G, wn_runs := (wn_runs n)[j := (w, qh'), i := (v, ph')]\<rparr>)"
      using two_writers[OF ok i(1) j(1) False i(2,3) j(2,3)] two_writers[OF ok j(1) i(1) False[symmetric] j(2,3) i(2,3)]
      by (simp_all add: a b)
    then show ?thesis
      using assms writers_step_ok unfolding writers_move_def by blast
  qed
qed

interpretation writing: commuting_steps "writers_move set_file_mtime" for set_file_mtime
  by unfold_locales (rule writers_diamond)


subsection \<open>One after another\<close>

text \<open>How the writers of a list end when they run one after another.\<close>

fun finished_runs ::
    "(file_system \<Rightarrow> PathBuf \<Rightarrow> mtime \<Rightarrow> io_error + file_system) \<Rightarrow> file_system \<Rightarrow> writer_task list \<Rightarrow>
     (writer_task \<times> writer_phase) list" where
  "finished_runs set_file_mtime F [] = []"
| "finished_runs set_file_mtime F (w # ws) =
     (w, Ended (snd (delta_writer set_file_mtime (wt_path w) (wt_cache w) (wt_modified_ts w) (wt_deltas w) F))) #
     finished_runs set_file_mtime (run_writer set_file_mtime w F) ws"

lemma sequential_run:
  "\<exists>k. (writers_step set_file_mtime ^^ k) \<lparr>wn_fs = F, wn_runs = rs @ map (\<lambda>w. (w, Opening)) ws\<rparr>
    \<lparr>wn_fs = fold (run_writer set_file_mtime) ws F, wn_runs = rs @ finished_runs set_file_mtime F ws\<rparr>"
proof (induction ws arbitrary: F rs)
  case Nil
  then show ?case by (intro exI[of _ 0]) simp
next
  case (Cons w ws)
  let ?r = "snd (delta_writer set_file_mtime (wt_path w) (wt_cache w) (wt_modified_ts w) (wt_deltas w) F)"
  have "delta_writer set_file_mtime (wt_path w) (wt_cache w) (wt_modified_ts w) (wt_deltas w) F = (run_writer set_file_mtime w F, ?r)"
    by (simp add: run_writer_def)
  from writer_at[OF _ _ this, of "length rs" "rs @ map (\<lambda>w. (w, Opening)) (w # ws)"]
  obtain i where i: "(writers_step set_file_mtime ^^ i) \<lparr>wn_fs = F, wn_runs = rs @ map (\<lambda>w. (w, Opening)) (w # ws)\<rparr>
      \<lparr>wn_fs = run_writer set_file_mtime w F, wn_runs = (rs @ [(w, Ended ?r)]) @ map (\<lambda>w. (w, Opening)) ws\<rparr>"
    by auto
  obtain j where "(writers_step set_file_mtime ^^ j)
      \<lparr>wn_fs = run_writer set_file_mtime w F, wn_runs = (rs @ [(w, Ended ?r)]) @ map (\<lambda>w. (w, Opening)) ws\<rparr>
      \<lparr>wn_fs = fold (run_writer set_file_mtime) ws (run_writer set_file_mtime w F),
        wn_runs = (rs @ [(w, Ended ?r)]) @ finished_runs set_file_mtime (run_writer set_file_mtime w F) ws\<rparr>"
    using Cons.IH by blast
  from runs_append[OF i this] show ?case by auto
qed

lemma finished_runs_ended: "(w, ph) \<in> set (finished_runs set_file_mtime F ws) \<Longrightarrow> \<exists>r. ph = Ended r"
  by (induction ws arbitrary: F) auto

lemma finished_no_move: "\<not> writers_step set_file_mtime \<lparr>wn_fs = G, wn_runs = finished_runs set_file_mtime F ws\<rparr> n"
proof
  assume "writers_step set_file_mtime \<lparr>wn_fs = G, wn_runs = finished_runs set_file_mtime F ws\<rparr> n"
  then obtain w ph x where ph: "(w, ph) \<in> set (finished_runs set_file_mtime F ws)" "writer_act set_file_mtime w ph G = Some x"
    by (auto elim!: writers_stepE) (metis nth_mem)
  then show False using finished_runs_ended by fastforce
qed

lemma writers_run_move:
  assumes "(writers_step set_file_mtime ^^ k) n n'" "writers_ok set_file_mtime n"
  shows "(writers_move set_file_mtime ^^ k) n n' \<and> writers_ok set_file_mtime n'"
  using assms(1)
proof (induction k arbitrary: n')
  case 0
  then show ?case using assms(2) by simp
next
  case (Suc k)
  obtain m where m: "(writers_step set_file_mtime ^^ k) n m" "writers_step set_file_mtime m n'"
    using relpowp_Suc_E[OF Suc.prems] by blast
  note IH = Suc.IH[OF m(1)]
  then have "writers_move set_file_mtime m n'" using m(2) unfolding writers_move_def by blast
  then show ?case using writers_step_ok[OF m(2)] IH by auto
qed

lemma move_run_steps: "(writers_move set_file_mtime ^^ k) n n' \<Longrightarrow> (writers_step set_file_mtime ^^ k) n n'"
proof (induction k arbitrary: n')
  case (Suc k)
  then show ?case by (auto simp: writers_move_def)
qed simp

subsection \<open>Two writers of one file\<close>

text \<open>Pieces written into a file that has contents already, from a place in it on.\<close>

lemma writer_loop_over:
  assumes "nodes F k = Some (File c m)" "pos \<le> length c" "contiguous cache pos ps" "indices_ok cache ps"
    and "pos + length (pieces_bytes cache ps) < 2 ^ 63"
  shows "\<exists>m'. writer_loop cache k (map piece_delta ps) F =
    (put_file k (take pos c @ pieces_bytes cache ps @ drop (pos + length (pieces_bytes cache ps)) c) m' F, Inr ())"
  using assms
proof (induction ps arbitrary: F c m pos)
  case Nil
  then show ?case by (auto intro!: exI[of _ m] simp: put_file_same)
next
  case (Cons d ps)
  obtain x where d: "d = (pos, x)" using Cons.prems(3) by (cases d) auto
  let ?bs = "instr_bytes cache x"
  let ?c = "write_at c pos ?bs"
  have c: "?c = take pos c @ ?bs @ drop (pos + length ?bs) c" using Cons.prems(2) by (simp add: write_at_def)
  have x: "\<forall>j. x = BlockIndex j \<longrightarrow> unat j < length cache" using Cons.prems(4) by (auto simp: indices_ok_def d)
  have pos: "unat (word_of_nat pos :: u64) = pos" using Cons.prems(5) by (intro unat_word_of_nat_64) simp
  have step: "writer_step cache k (piece_delta d) F = Inr (put_file k ?c (clock F) F)"
    using x Cons.prems(1,5) by (auto simp: writer_step_Inr piece_delta_def d pos)
  have "\<exists>m'. writer_loop cache k (map piece_delta ps) (put_file k ?c (clock F) F) =
    (put_file k (take (pos + length ?bs) ?c @ pieces_bytes cache ps @
       drop (pos + length ?bs + length (pieces_bytes cache ps)) ?c) m' (put_file k ?c (clock F) F), Inr ())"
    using Cons.prems by (intro Cons.IH) (auto simp: d indices_ok_def c)
  then show ?case using Cons.prems(2) step by (simp add: d c) (simp add: add.commute add.left_commute)
qed


text \<open>The steps by which the second writer of a file takes the temporary file of the first.\<close>

lemma stamp_at:
  assumes "mtime_setter set_file_mtime" "resolve F q = l"
  shows "\<exists>m. (case set_file_mtime (put_file l b m0 F) q t of Inl _ \<Rightarrow> put_file l b m0 F | Inr F' \<Rightarrow> F') =
    put_file l b m (put_file l b m0 F)"
proof (cases "set_file_mtime (put_file l b m0 F) q t")
  case (Inl e)
  then show ?thesis by (intro exI[of _ m0]) simp
next
  case (Inr F')
  then show ?thesis using mtime_setter.set_mtime_Inr[OF assms(1) Inr] assms(2) by (intro exI[of _ t]) auto
qed

lemma second_writer_takes_all:
  assumes setter: "mtime_setter set_file_mtime" and name: "writable_name q f" and can: "can_replace F q"
    and v: "wt_path v = q" "wt_deltas v = map piece_delta ps" "contiguous (wt_cache v) 0 ps" "indices_ok (wt_cache v) ps"
      "length (pieces_bytes (wt_cache v) ps) < 2 ^ 63"
    and w: "wt_path w = q" "wt_deltas w = map piece_delta qs" "contiguous (wt_cache w) 0 qs" "indices_ok (wt_cache w) qs"
      "length (pieces_bytes (wt_cache w) qs) < 2 ^ 63"
  shows "\<exists>k e G. (writers_step set_file_mtime ^^ k) (start_writers F [v, w])
      \<lparr>wn_fs = G, wn_runs = [(v, Ended (Inl (Err (Io e)))), (w, Ended (Inr ()))]\<rparr> \<and>
    contents G q = Some (pieces_bytes (wt_cache w) qs @
      drop (length (pieces_bytes (wt_cache w) qs)) (pieces_bytes (wt_cache v) ps))"
proof -
  let ?k = "resolve F (tmp_file q)" and ?l = "resolve F q" and ?step = "writers_step set_file_mtime"
  let ?old = "pieces_bytes (wt_cache v) ps" and ?new = "pieces_bytes (wt_cache w) qs"
  let ?mix = "?new @ drop (length ?new) ?old"
  have kl: "?k \<noteq> ?l" using tmp_file_elsewhere[OF name] .
  have place: "\<not> is_dir F ?k" "?k \<noteq> []" using can by (auto simp: can_replace_def is_dir_def)
  let ?F1 = "put_file ?k [] (clock F) F"
  have create: "fs_create F (tmp_file q) = Inr (?k, ?F1)" "fs_create ?F1 (tmp_file q) = Inr (?k, ?F1)"
    using can place by (simp_all add: fs_create_Inr can_replace_def butlast_resolve_tmp[OF name] is_dir_put_file)
  have 1: "(?step ^^ 1) (start_writers F [v, w]) \<lparr>wn_fs = ?F1, wn_runs = [(v, Applying ?k (wt_deltas v)), (w, Opening)]\<rparr>"
    using step_run[of 0 "[(v, Opening), (w, Opening)]" v Opening set_file_mtime F ?F1] create v(1) by (simp add: start_writers_def)
  have 2: "(?step ^^ 1) \<lparr>wn_fs = ?F1, wn_runs = [(v, Applying ?k (wt_deltas v)), (w, Opening)]\<rparr>
      \<lparr>wn_fs = ?F1, wn_runs = [(v, Applying ?k (wt_deltas v)), (w, Applying ?k (wt_deltas w))]\<rparr>"
    using step_run[of 1 "[(v, Applying ?k (wt_deltas v)), (w, Opening)]" w Opening set_file_mtime ?F1 ?F1] create w(1) by simp
  obtain m1 where "writer_loop (wt_cache v) ?k (wt_deltas v) ?F1 = (put_file ?k ?old m1 ?F1, Inr ())"
    using writer_loop_pieces[of ?F1 ?k "[]" "clock F" "wt_cache v" ps] v(2-5) by auto
  then have loop: "writer_loop (wt_cache v) ?k (wt_deltas v) ?F1 = (put_file ?k ?old m1 F, Inr ())" by simp
  obtain i where 3: "(?step ^^ i) \<lparr>wn_fs = ?F1, wn_runs = [(v, Applying ?k (wt_deltas v)), (w, Applying ?k (wt_deltas w))]\<rparr>
      \<lparr>wn_fs = put_file ?k ?old m1 F, wn_runs = [(v, Applying ?k []), (w, Applying ?k (wt_deltas w))]\<rparr>"
    using loop_at[OF _ _ loop, of 0 "[(v, Applying ?k (wt_deltas v)), (w, Applying ?k (wt_deltas w))]" set_file_mtime] by auto
  obtain m2 where "writer_loop (wt_cache w) ?k (wt_deltas w) (put_file ?k ?old m1 F) =
      (put_file ?k ?mix m2 (put_file ?k ?old m1 F), Inr ())"
    using writer_loop_over[of "put_file ?k ?old m1 F" ?k ?old m1 0 "wt_cache w" qs] w(2-5) by auto
  then have loop2: "writer_loop (wt_cache w) ?k (wt_deltas w) (put_file ?k ?old m1 F) = (put_file ?k ?mix m2 F, Inr ())" by simp
  obtain j where 4: "(?step ^^ j) \<lparr>wn_fs = put_file ?k ?old m1 F, wn_runs = [(v, Applying ?k []), (w, Applying ?k (wt_deltas w))]\<rparr>
      \<lparr>wn_fs = put_file ?k ?mix m2 F, wn_runs = [(v, Applying ?k []), (w, Applying ?k [])]\<rparr>"
    using loop_at[OF _ _ loop2, of 1 "[(v, Applying ?k []), (w, Applying ?k (wt_deltas w))]" set_file_mtime] by auto
  let ?F2 = "put_file ?k ?mix m2 F"
  let ?F3 = "put_file ?l ?mix m2 (?F2\<lparr>nodes := (nodes ?F2)(?k := None)\<rparr>)"
  have "fs_rename ?F2 (tmp_file q) q = Inr ?F3"
    using can kl place by (simp add: fs_rename_Inr can_replace_def is_dir_put_file)
  then have 5: "(?step ^^ 1) \<lparr>wn_fs = ?F2, wn_runs = [(v, Applying ?k []), (w, Applying ?k [])]\<rparr>
      \<lparr>wn_fs = ?F3, wn_runs = [(v, Applying ?k []), (w, Stamping)]\<rparr>"
    using step_run[of 1 "[(v, Applying ?k []), (w, Applying ?k [])]" w "Applying ?k []" set_file_mtime ?F2 ?F3] w(1) by simp
  define G where "G = (case set_file_mtime ?F3 q (file_time (wt_modified_ts w)) of Inl _ \<Rightarrow> ?F3 | Inr F' \<Rightarrow> F')"
  have 6: "(?step ^^ 1) \<lparr>wn_fs = ?F3, wn_runs = [(v, Applying ?k []), (w, Stamping)]\<rparr>
      \<lparr>wn_fs = G, wn_runs = [(v, Applying ?k []), (w, Ended (Inr ()))]\<rparr>"
    using step_run[of 1 "[(v, Applying ?k []), (w, Stamping)]" w Stamping set_file_mtime ?F3 G] w(1) by (simp add: G_def)
  have "resolve (?F2\<lparr>nodes := (nodes ?F2)(?k := None)\<rparr>) q = ?l" by (simp add: resolve_def)
  from stamp_at[OF setter this] obtain m where G: "G = put_file ?l ?mix m ?F3" unfolding G_def by blast
  have gone: "nodes G ?k = None" "resolve G p = resolve F p" "fault G = fault F" for p using kl by (simp_all add: G)
  then obtain e where "fs_rename G (tmp_file q) q = Inl e"
    using can place(2) by (auto simp: fs_rename_def lookup_file_def is_dir_def can_replace_def)
  then have 7: "(?step ^^ 1) \<lparr>wn_fs = G, wn_runs = [(v, Applying ?k []), (w, Ended (Inr ()))]\<rparr>
      \<lparr>wn_fs = G, wn_runs = [(v, Ended (Inl (Err (Io e)))), (w, Ended (Inr ()))]\<rparr>"
    using step_run[of 0 "[(v, Applying ?k []), (w, Ended (Inr ()))]" v "Applying ?k []" set_file_mtime G G] v(1) by simp
  have "contents G q = Some ?mix" by (simp add: contents_def G)
  then show ?thesis
    using runs_append[OF 1 runs_append[OF 2 runs_append[OF 3 runs_append[OF 4 runs_append[OF 5 runs_append[OF 6 7]]]]]] by blast
qed

subsection \<open>Properties\<close>

text \<open>C12: Writers of files that are not in each other's way (neither uses the name, or the temporary
  name, of the other or of a directory above it) are independent: however their file operations are
  interleaved, no run is longer than a bound, every run can be continued to its end, and the end
  is always the same, with the file system and the results that running the writers one after
  another gives.\<close>

theorem writers_interleave_freely:
  assumes "local_mtime_setter set_file_mtime"
    and "\<forall>i < length ws. \<forall>j < length ws. i \<noteq> j \<longrightarrow> apart_writers F (ws ! i) (ws ! j)"
  shows "\<exists>k. \<forall>j n. (writers_step set_file_mtime ^^ j) (start_writers F ws) n \<longrightarrow>
    j \<le> k \<and> (writers_step set_file_mtime ^^ (k - j)) n
      \<lparr>wn_fs = fold (run_writer set_file_mtime) ws F, wn_runs = finished_runs set_file_mtime F ws\<rparr>"
proof -
  have ok: "writers_ok set_file_mtime (start_writers F ws)"
    using assms by (simp add: writers_ok_def start_writers_def handle_ok_def)
  let ?z = "\<lparr>wn_fs = fold (run_writer set_file_mtime) ws F, wn_runs = finished_runs set_file_mtime F ws\<rparr>"
  obtain k where "(writers_step set_file_mtime ^^ k) (start_writers F ws) ?z"
    using sequential_run[of set_file_mtime F "[]" ws] by (auto simp: start_writers_def)
  then have run: "(writers_move set_file_mtime ^^ k) (start_writers F ws) ?z" using writers_run_move ok by blast
  have stuck: "\<nexists>y. writers_move set_file_mtime ?z y" using finished_no_move by (auto simp: writers_move_def)
  show ?thesis
    using writing.every_run_ends[OF run stuck] writers_run_move[OF _ ok] move_run_steps by blast
qed

text \<open>C28: Two streams that write the same file at the same time (two clients that upload it) use one
  temporary file: there is an order of their operations after which the second writer has succeeded
  and the first has failed, and the file has the bytes of the second followed by what is left of the
  first.  When the first version is the longer one, that is neither of the two.\<close>

theorem same_file_writers_mix:
  assumes "mtime_setter set_file_mtime" "writable_name q f" "can_replace F q"
    and "wt_path v = q" "wt_deltas v = map piece_delta ps" "contiguous (wt_cache v) 0 ps" "indices_ok (wt_cache v) ps"
    and "wt_path w = q" "wt_deltas w = map piece_delta qs" "contiguous (wt_cache w) 0 qs" "indices_ok (wt_cache w) qs"
    and "length (pieces_bytes (wt_cache w) qs) < length (pieces_bytes (wt_cache v) ps)"
      "length (pieces_bytes (wt_cache v) ps) < 2 ^ 63"
  shows "\<exists>k e G. (writers_step set_file_mtime ^^ k) (start_writers F [v, w])
      \<lparr>wn_fs = G, wn_runs = [(v, Ended (Inl (Err (Io e)))), (w, Ended (Inr ()))]\<rparr> \<and>
    contents G q = Some (pieces_bytes (wt_cache w) qs @
      drop (length (pieces_bytes (wt_cache w) qs)) (pieces_bytes (wt_cache v) ps)) \<and>
    contents G q \<noteq> Some (pieces_bytes (wt_cache w) qs)"
  using second_writer_takes_all[OF assms(1-7) assms(13) assms(8-11)] assms(12,13) by fastforce


text \<open>A writer that is sent one literal.\<close>

definition literal_writer :: "PathBuf \<Rightarrow> byte list \<Rightarrow> writer_task" where
  "literal_writer p bytes = \<lparr>wt_path = p, wt_cache = [], wt_modified_ts = timestamp_default,
     wt_deltas = map piece_delta [(0, Literal bytes)], wt_lifetime = None\<rparr>"

lemma literal_writer_simps [simp]:
  "wt_path (literal_writer p bytes) = p" "wt_cache (literal_writer p bytes) = []"
  "wt_deltas (literal_writer p bytes) = map piece_delta [(0, Literal bytes)]"
  by (simp_all add: literal_writer_def)

theorem writers_interleave_freely_witness:
  "\<exists>k. (writers_step utimens ^^ k) (start_writers (example_tree Map.empty) [literal_writer ''/srv/f'' [1, 2], literal_writer ''/srv/g'' [3]])
     \<lparr>wn_fs = fold (run_writer utimens) [literal_writer ''/srv/f'' [1, 2], literal_writer ''/srv/g'' [3]] (example_tree Map.empty),
      wn_runs = finished_runs utimens (example_tree Map.empty) [literal_writer ''/srv/f'' [1, 2], literal_writer ''/srv/g'' [3]]\<rparr>"
proof -
  let ?F = "example_tree Map.empty" and ?ws = "[literal_writer ''/srv/f'' [1, 2], literal_writer ''/srv/g'' [3]]"
  have "\<forall>i < length ?ws. \<forall>j < length ?ws. i \<noteq> j \<longrightarrow> apart_writers ?F (?ws ! i) (?ws ! j)"
    by (auto simp: less_Suc_eq apart_writers_def example_places clear_of_def)
  from writers_interleave_freely[OF utimens.local_mtime_setter_axioms this]
  obtain k where runs: "\<forall>j n. (writers_step utimens ^^ j) (start_writers ?F ?ws) n \<longrightarrow>
      j \<le> k \<and> (writers_step utimens ^^ (k - j)) n
        \<lparr>wn_fs = fold (run_writer utimens) ?ws ?F, wn_runs = finished_runs utimens ?F ?ws\<rparr>" by blast
  show ?thesis using spec[OF spec[OF runs, of 0], of "start_writers ?F ?ws"] by auto
qed

theorem same_file_writers_mix_witness:
  "\<exists>k e G. (writers_step utimens ^^ k)
      (start_writers (example_tree Map.empty) [literal_writer ''/srv/f'' [1, 2, 3], literal_writer ''/srv/f'' [9]])
      \<lparr>wn_fs = G, wn_runs = [(literal_writer ''/srv/f'' [1, 2, 3], Ended (Inl (Err (Io e)))), (literal_writer ''/srv/f'' [9], Ended (Inr ()))]\<rparr> \<and>
    contents G ''/srv/f'' = Some [9, 2, 3]"
  using same_file_writers_mix[OF utimens.mtime_setter_axioms example_paths(5) example_can_replace,
      of "literal_writer ''/srv/f'' [1, 2, 3]" "[(0, Literal [1, 2, 3])]" "literal_writer ''/srv/f'' [9]" "[(0, Literal [9])]" Map.empty]
  by (auto simp: indices_ok_def)

end
