(* ===== verification/Message_Types.thy ===== *)
theory Message_Types
  imports Server_Session
begin

section \<open>Well-formed messages\<close>

text \<open>
  The protocol buffers of proto/harmonic.proto type little: every field of a message may be missing,
  an index may be any number, a chunk of any size.  \<open>typed_message n\<close> is what the code means a
  message to be, for deltas that answer signatures of at most \<open>n\<close> blocks: the field is there, an
  offset can be a file offset, a literal is not empty and within the limit of a chunk, a block
  number is one of the signatures, a block size can be allocated.

  Preservation: whatever a party receives, what it sends is well formed.  Progress: the writer
  never fails on a well-formed delta.  Neither needs the peer to be honest, or the checksums to be
  distinct.
\<close>

definition typed_delta :: "nat \<Rightarrow> Delta \<Rightarrow> bool" where
  "typed_delta n d \<longleftrightarrow> unat (delta_index d) < 2 ^ 63 \<and>
     (case instruction d of
        None \<Rightarrow> False
      | Some (BlockIndex j) \<Rightarrow> unat j < n
      | Some (Literal b) \<Rightarrow> b \<noteq> [] \<and> length b \<le> MAX_LITERAL_CHUNK_SIZE)"

definition typed_message :: "nat \<Rightarrow> SyncRequest \<Rightarrow> bool" where
  "typed_message n m =
     (case payload m of
        None \<Rightarrow> False
      | Some (FileActionP a) \<Rightarrow> True
      | Some (Signatures sig) \<Rightarrow> 0 < unat (block_size sig) \<and> unat (block_size sig) \<le> isize_max
      | Some (DeltaP d) \<Rightarrow> typed_delta n d
      | Some (Complete b) \<Rightarrow> b)"

definition typed_channel :: "nat \<Rightarrow> channel \<Rightarrow> bool" where
  "typed_channel n c \<longleftrightarrow> list_all (typed_message n) (accepted c)"

lemma typed_requests [simp]:
  "typed_message n (request (Complete True))"
  "typed_message n (request (Signatures sig)) \<longleftrightarrow> 0 < unat (block_size sig) \<and> unat (block_size sig) \<le> isize_max"
  "typed_message n (delta_request i x) \<longleftrightarrow> typed_delta n \<lparr>delta_index = i, instruction = Some x\<rparr>"
  "typed_message n (request (FileActionP a))"
  by (simp_all add: typed_message_def delta_request_def request_def)

subsection \<open>Preservation\<close>

lemma channel_send_typed: "channel_send m c = (c', r) \<Longrightarrow> typed_message n m \<Longrightarrow> typed_channel n c \<Longrightarrow> typed_channel n c'"
  by (auto simp: channel_send_def typed_channel_def split: option.splits nat.splits)

lemma unat_plus_63: "unat (a :: u64) + k < 2 ^ 63 \<Longrightarrow> unat (a + word_of_nat k) = unat a + k"
  by (simp add: unat_word_ariths unsigned_of_nat take_bit_nat_eq_self)

lemma send_literal_chunks_typed:
  "send_literal_chunks channel_send buf start offset c = (c', r) \<Longrightarrow> unat start + length buf < 2 ^ 63 \<Longrightarrow>
   typed_channel n c \<Longrightarrow> typed_channel n c'"
proof (induction "channel_send :: SyncRequest \<Rightarrow> channel \<Rightarrow> channel \<times> unit outcome" buf start offset c
    rule: send_literal_chunks.induct)
  case (1 buf start offset c)
  show ?case
  proof (cases "offset < length buf")
    case True
    let ?n = "min MAX_LITERAL_CHUNK_SIZE (length buf - offset)"
    obtain c1 r1 where c1: "channel_send (delta_request (start + word_of_nat offset)
        (Literal (slice_at buf offset ?n))) c = (c1, r1)" by fastforce
    have "0 < MAX_LITERAL_CHUNK_SIZE" by (simp add: MAX_LITERAL_CHUNK_SIZE_def)
    then have "slice_at buf offset ?n \<noteq> []" "length (slice_at buf offset ?n) \<le> MAX_LITERAL_CHUNK_SIZE"
      using True by (simp_all add: length_greater_0_conv [symmetric] del: length_greater_0_conv)
    then have "typed_message n (delta_request (start + word_of_nat offset) (Literal (slice_at buf offset ?n)))"
      using 1(3) True by (simp add: typed_delta_def unat_plus_63)
    then have typed: "typed_channel n c1" using channel_send_typed[OF c1] 1(4) by blast
    show ?thesis
    proof (cases r1)
      case (Inl e)
      then show ?thesis using 1(2) True c1 typed by (subst (asm) send_literal_chunks.simps) (simp add: Let_def)
    next
      case (Inr u)
      then have "send_literal_chunks channel_send buf start (offset + ?n) c1 = (c', r)"
        using 1(2) True c1 by (subst (asm) send_literal_chunks.simps) (simp add: Let_def)
      then show ?thesis using 1(1)[OF True refl refl c1[symmetric] Inr] 1(3) typed by simp
    qed
  next
    case False
    then show ?thesis using 1(2,4) by (subst (asm) send_literal_chunks.simps) simp
  qed
qed

lemma flush_buffer_typed:
  "flush_buffer channel_send buf start c = (c', r) \<Longrightarrow> buf = [] \<or> unat start + length buf < 2 ^ 63 \<Longrightarrow>
   typed_channel n c \<Longrightarrow> typed_channel n c'"
  by (auto simp: flush_buffer_def split: if_splits dest: send_literal_chunks_typed)

definition typed_sigs :: "nat \<Rightarrow> sig_map \<Rightarrow> bool" where
  "typed_sigs n sigs \<longleftrightarrow> (\<forall>w m s j. sigs w = Some m \<longrightarrow> m s = Some j \<longrightarrow> unat j < n)"

lemma sig_insert_typed: "i < n \<Longrightarrow> typed_sigs n acc \<Longrightarrow> typed_sigs n (sig_insert (i, b) acc)"
proof -
  assume i: "i < n" and acc: "typed_sigs n acc"
  have "unat (word_of_nat i :: u32) < n" using i by (simp add: unsigned_of_nat take_bit_nat_def order_le_less_trans)
  then show ?thesis using acc by (auto simp: typed_sigs_def sig_insert_def Let_def split: option.splits if_splits)
qed

lemma build_sig_map_typed: "typed_sigs (length bs) (build_sig_map bs)"
proof -
  have "typed_sigs n (fold sig_insert ibs acc)" if "\<forall>(i, b) \<in> set ibs. i < n" "typed_sigs n acc" for n ibs acc
    using that by (induction ibs arbitrary: acc) (auto simp: sig_insert_typed)
  moreover have "\<forall>(i, b) \<in> set (enumerate 0 bs). i < length bs" by (auto simp: in_set_enumerate_eq)
  moreover have "typed_sigs (length bs) Map.empty" by (simp add: typed_sigs_def)
  ultimately show ?thesis unfolding build_sig_map_def by blast
qed

lemma find_block_typed:
  "find_block blake3 sigs data bs i h = Some j \<Longrightarrow> typed_sigs n sigs \<Longrightarrow> unat j < n \<and> i + bs \<le> length data"
  by (auto simp: find_block_def typed_sigs_def split: if_splits option.splits)

text \<open>The buffer of the loop holds the bytes before \<open>i\<close>.\<close>

definition buffered :: "nat \<Rightarrow> byte list \<Rightarrow> u64 \<Rightarrow> bool" where
  "buffered i buf start \<longleftrightarrow> buf = [] \<or> unat start + length buf = i"

lemma buffered_short: "buffered i buf start \<Longrightarrow> i < 2 ^ 63 \<Longrightarrow> buf = [] \<or> unat start + length buf < 2 ^ 63"
  by (auto simp: buffered_def)

lemma match_typed:
  assumes "find_block blake3 sigs data bs i h = Some index" "typed_sigs n sigs" "length data < 2 ^ 63" "i \<le> length data"
    and "buffered i buf start" "typed_channel n c"
    and c1: "flush_buffer channel_send buf start c = (c1, r1)"
    and c2: "channel_send (delta_request (word_of_nat i) (BlockIndex index)) c1 = (c2, r2)"
  shows "typed_channel n c1" "typed_channel n c2"
proof -
  have "unat index < n" using find_block_typed[OF assms(1,2)] by simp
  then have block: "typed_message n (delta_request (word_of_nat i) (BlockIndex index))"
    using assms(3,4) by (simp add: typed_delta_def unat_word_of_nat_64)
  show t1: "typed_channel n c1" using flush_buffer_typed[OF c1 buffered_short[OF assms(5)]] assms(3,4,6) by simp
  show "typed_channel n c2" using channel_send_typed[OF c2 block t1] .
qed

text \<open>A byte that is appended, and the buffer sent when it is full.\<close>

lemma literal_typed:
  assumes "i < length data" "length data < 2 ^ 63" "buffered i buf start" "typed_channel n c"
  defines "start1 \<equiv> if buf = [] then word_of_nat i else start" and "buf1 \<equiv> buf @ [data ! i]"
  defines "full \<equiv> MAX_LITERAL_CHUNK_SIZE \<le> length buf1"
  assumes c1: "(if full then send_literal_chunks channel_send buf1 start1 0 c else (c, Inr ())) = (c1, r1)"
  shows "typed_channel n c1" "buffered (i + 1) (if full then [] else buf1) (if full then word_of_nat (i + 1) else start1)"
proof -
  have "unat start1 + length buf1 = i + 1"
    using assms(1-3) by (auto simp: buffered_def start1_def buf1_def unat_word_of_nat_64)
  then have b: "buffered (i + 1) buf1 start1" "unat start1 + length buf1 < 2 ^ 63"
    using assms(1,2) by (simp_all add: buffered_def)
  show "typed_channel n c1"
    using c1 assms(4) send_literal_chunks_typed[OF _ b(2), of 0 c c1 r1 n] by (auto split: if_splits)
  show "buffered (i + 1) (if full then [] else buf1) (if full then word_of_nat (i + 1) else start1)"
    using b(1) by (simp add: buffered_def)
qed

lemma delta_loop_typed:
  assumes "delta_loop channel_send blake3 sigs data bs i buf start h c = Some r"
    and "length data < 2 ^ 63" "typed_sigs n sigs" "i \<le> length data" "buffered i buf start" "typed_channel n c"
  shows "typed_channel n (fst r)"
proof -
  let ?P = "\<lambda>send' blake3' sigs' data' bs' i' buf' start' h' c' r'. send' = channel_send \<longrightarrow> length data' < 2 ^ 63 \<longrightarrow>
    typed_sigs n sigs' \<longrightarrow> i' \<le> length data' \<longrightarrow> buffered i' buf' start' \<longrightarrow> typed_channel n c' \<longrightarrow> typed_channel n (fst r')"
  have "?P channel_send blake3 sigs data bs i buf start h c r"
    using assms(1)
  proof (rule delta_loop.raw_induct[where P = ?P, rotated], goal_cases)
    case (1 rec send' blake3' sigs' data' bs' i' buf' start' h' c' r')
    note rec = 1(1)[rule_format, OF _ refl]
    show ?case
    proof (intro impI)
      assume send: "send' = channel_send" and len: "length data' < 2 ^ 63" and sigs: "typed_sigs n sigs'"
        and i: "i' \<le> length data'" and buf: "buffered i' buf' start'" and c: "typed_channel n c'"
      obtain c1 r1 where c1: "flush_buffer channel_send buf' start' c' = (c1, r1)" by fastforce
      have t1: "typed_channel n c1" using flush_buffer_typed[OF c1 buffered_short[OF buf]] i len c by simp
      consider (found) index where "find_block blake3' sigs' data' bs' i' (bz_hash h') = Some index"
        | (finished) "find_block blake3' sigs' data' bs' i' (bz_hash h') = None" "length data' \<le> i'"
        | (byte) "find_block blake3' sigs' data' bs' i' (bz_hash h') = None" "i' < length data'"
        using linorder_not_le[of "length data'" i'] by (cases "find_block blake3' sigs' data' bs' i' (bz_hash h')") blast+
      then show "typed_channel n (fst r')"
      proof cases
        case found
        obtain c2 r2 where c2: "channel_send (delta_request (word_of_nat i') (BlockIndex index)) c1 = (c2, r2)" by fastforce
        note t2 = match_typed(2)[OF found sigs len i buf c c1 c2]
        have "i' + bs' \<le> length data'" using find_block_typed[OF found sigs] by simp
        note again = rec[OF _ len sigs this _ t2]
        show ?thesis
          using 1(2) found send c1 c2 t1 t2 again
          by (cases r1; cases r2) (auto simp: Let_def buffered_def)
      next
        case finished
        then show ?thesis
          using 1(2) send c1 t1 channel_send_typed[OF prod.collapse[symmetric] typed_requests(1) t1]
          by (cases r1) auto
      next
        case byte
        obtain c3 r3 where c3: "(if MAX_LITERAL_CHUNK_SIZE \<le> length (buf' @ [data' ! i'])
            then send_literal_chunks channel_send (buf' @ [data' ! i']) (if buf' = [] then word_of_nat i' else start') 0 c'
            else (c', Inr ())) = (c3, r3)" by fastforce
        note t3 = literal_typed[OF byte(2) len buf c c3]
        have "i' + 1 \<le> length data'" using byte(2) by simp
        note again = rec[OF _ len sigs this t3(2) t3(1)]
        show ?thesis
          using 1(2) byte send c3 t3(1) again by (cases r3) (auto simp: Let_def split: if_splits sum.splits)
      qed
    qed
  qed
  then show ?thesis using assms(2-6) by simp
qed

text \<open>No file is longer than an offset can say.\<close>

definition sizes_ok :: "file_system \<Rightarrow> bool" where
  "sizes_ok F \<longleftrightarrow> (\<forall>p c. fs_read F p = Inr c \<longrightarrow> length c < 2 ^ 63)"

lemma send_delta_typed:
  assumes "send_delta_from_block_signatures F blake3 channel_send p sig c = Some (c', r)"
    and "sizes_ok F" "length (blocks sig) \<le> n" "typed_channel n c"
  shows "typed_channel n c'"
proof (cases "fs_read F p")
  case (Inl e)
  then show ?thesis using assms(1,4) by (simp add: send_delta_from_block_signatures_def Let_def)
next
  case (Inr data')
  have "typed_sigs n (build_sig_map (blocks sig))"
    using build_sig_map_typed[of "blocks sig"] assms(3) by (auto simp: typed_sigs_def) (meson order_less_le_trans)
  then show ?thesis
    using assms(1,4) Inr delta_loop_typed[of blake3 "build_sig_map (blocks sig)" data' "unat (block_size sig)" 0 "[]" 0 _ c "(c', r)" n] assms(2)
    by (auto simp: sizes_ok_def send_delta_from_block_signatures_def buffered_def Let_def split: sum.splits)
qed

text \<open>A message that says no more blocks than \<open>n\<close>.\<close>

definition few_blocks :: "nat \<Rightarrow> SyncRequest \<Rightarrow> bool" where
  "few_blocks n m \<longleftrightarrow> (\<forall>sig. payload m = Some (Signatures sig) \<longrightarrow> length (blocks sig) \<le> n)"

lemma handle_sync_payload_typed:
  assumes run: "handle_sync_payload F clean blake3 channel_send config life p h = Some (h', r)"
    and sizes: "sizes_ok F" and few: "few_blocks n (request p)" and typed: "typed_channel n (st_sink h)"
  shows "typed_channel n (st_sink h')"
proof (cases p)
  case (FileActionP a)
  have "typed_channel n c'"
    if "send_block_signatures_for_file F clean blake3 channel_send q root bs c = (c', r')" "typed_channel n c" for q root bs c c' r'
  proof (cases "generate_blocks_signatures F clean blake3 q root bs")
    case (Inl e)
    then show ?thesis using that by (cases e) (auto simp: send_block_signatures_for_file_def)
  next
    case (Inr x)
    obtain sig cache where x: "x = (sig, cache)" by (cases x)
    have "typed_message n (request (Signatures sig))"
      using generate_blocks_signatures_InrD[OF Inr[unfolded x]] by (auto simp: signed_def)
    then show ?thesis
      using that Inr x channel_send_typed[of "request (Signatures sig)" c]
      by (auto simp: send_block_signatures_for_file_def split: prod.splits sum.splits)
  qed
  then show ?thesis
    using run typed FileActionP
    by (auto simp: handle_sync_payload_def handle_file_action_def set_writer_def Let_def split: if_splits sum.splits prod.splits)
next
  case (Signatures sig)
  have "length (blocks sig) \<le> n" using few Signatures by (simp add: few_blocks_def request_def)
  then show ?thesis
    using run typed Signatures sizes send_delta_typed[of F blake3 _ sig "st_sink h" _ _ n]
    by (auto simp: handle_sync_payload_def split: sum.splits option.splits)
next
  case (DeltaP d)
  then show ?thesis
    using run typed by (auto simp: handle_sync_payload_def split: option.splits prod.splits sum.splits)
next
  case (Complete b)
  then show ?thesis
    using run typed channel_send_typed[of "request (Complete True)" "st_sink h" _ _ n]
    by (auto simp: handle_sync_payload_def split: prod.splits sum.splits)
qed

lemma stream_loop_typed:
  assumes "stream_loop F clean blake3 channel_send config life ms h = Some (h', r)" "sizes_ok F"
    and "\<forall>m. Inr m \<in> set ms \<longrightarrow> few_blocks n m" "typed_channel n (st_sink h)"
  shows "typed_channel n (st_sink h')"
  using assms(1,3,4)
proof (induction ms arbitrary: h)
  case Nil
  then show ?case by simp
next
  case (Cons x ms)
  show ?case
  proof (cases x)
    case (Inl u)
    then show ?thesis using Cons.prems by simp
  next
    case (Inr m)
    show ?thesis
    proof (cases "payload m")
      case None
      then show ?thesis using Inr Cons by simp
    next
      case (Some p)
      obtain h1 r1 where h1: "handle_sync_payload F clean blake3 channel_send config life p h = Some (h1, r1)"
        using Cons.prems(1) Inr Some by (auto split: option.splits)
      have "few_blocks n (request p)" using Cons.prems(2) Inr Some by (auto simp: few_blocks_def request_def)
      then have "typed_channel n (st_sink h1)"
        using handle_sync_payload_typed[OF h1 assms(2) _ Cons.prems(3)] by blast
      then show ?thesis
        using Cons Inr Some h1 by (auto split: sum.splits SyncStatus.splits)
    qed
  qed
qed

subsection \<open>Progress\<close>

lemma writer_step_typed:
  assumes "typed_delta (length cache) d" "nodes F k = Some (File c m)"
  shows "\<exists>F' c' m'. writer_step cache k d F = Inr F' \<and> nodes F' k = Some (File c' m') \<and> same_except {k} F F'"
proof -
  obtain x where x: "instruction d = Some x" "unat (delta_index d) < 2 ^ 63" "\<forall>j. x = BlockIndex j \<longrightarrow> unat j < length cache"
    using assms(1) by (auto simp: typed_delta_def split: option.splits Instruction.splits)
  let ?F = "put_file k (write_at c (unat (delta_index d)) (instr_bytes cache x)) (clock F) F"
  have "writer_step cache k d F = Inr ?F" using x assms(2) by (auto simp: writer_step_Inr)
  then show ?thesis by (intro exI[of _ ?F]) simp
qed

lemma writer_loop_typed:
  assumes "list_all (typed_delta (length cache)) ds" "nodes F k = Some (File c m)"
  shows "\<exists>F' c' m'. writer_loop cache k ds F = (F', Inr ()) \<and> nodes F' k = Some (File c' m') \<and> same_except {k} F F'"
  using assms
proof (induction ds arbitrary: F c m)
  case Nil
  then show ?case by simp
next
  case (Cons d ds)
  obtain F1 c1 m1 where F1: "writer_step cache k d F = Inr F1" "nodes F1 k = Some (File c1 m1)" "same_except {k} F F1"
    using writer_step_typed[of cache d F k c m] Cons.prems by auto
  obtain F2 c2 m2 where "writer_loop cache k ds F1 = (F2, Inr ())" "nodes F2 k = Some (File c2 m2)" "same_except {k} F1 F2"
    using Cons.IH[OF _ F1(2)] Cons.prems(1) by auto
  then show ?case using F1(1) same_except_trans[OF F1(3)] by auto
qed

lemma delta_writer_typed:
  assumes "list_all (typed_delta (length cache)) ds" "writable_name p f" "can_replace F p"
  shows "\<exists>F'. delta_writer set_file_mtime p cache ts ds F = (F', Inr ())"
proof -
  let ?k = "resolve F (tmp_file p)" and ?l = "resolve F p"
  let ?F1 = "put_file ?k [] (clock F) F"
  have create: "fs_create F (tmp_file p) = Inr (?k, ?F1)"
    using assms(3) by (simp add: fs_create_Inr can_replace_def butlast_resolve_tmp[OF assms(2)])
  obtain F2 c m where loop: "writer_loop cache ?k ds ?F1 = (F2, Inr ())" "nodes F2 ?k = Some (File c m)" "same_except {?k} ?F1 F2"
    using writer_loop_typed[OF assms(1), of ?F1 ?k "[]" "clock F"] by auto
  have same: "same_except {?k} F F2" using loop(3) by (auto simp: same_except_def)
  have place: "\<not> is_dir F ?k" "?k \<noteq> []" "?k \<noteq> ?l" using assms(3) tmp_file_elsewhere[OF assms(2)] by (auto simp: can_replace_def is_dir_def)
  have "is_dir F2 q \<longleftrightarrow> is_dir F q" for q
    using same loop(2) place(1,2) by (cases "q = ?k") (auto simp: is_dir_def same_except_def)
  then have "\<exists>F3. fs_rename F2 (tmp_file p) p = Inr F3"
    using assms(3) loop(2) place same_except_resolve[OF same] same
    by (simp add: fs_rename_Inr can_replace_def) (simp add: same_except_def)
  then show ?thesis using create loop(1) by (auto simp: delta_writer_def)
qed

lemma deltas_of_typed:
  assumes "list_all (typed_message n) ms"
  shows "list_all (typed_delta n) (deltas_of ms)"
  using assms by (induction ms) (auto simp: deltas_of_def typed_message_def split: option.splits Payload.splits)


subsection \<open>Properties\<close>

text \<open>C13: Preservation: whatever a client sends on a stream (messages without a payload, deltas without
  an instruction, a block size of 0, any hashes), every reply of the server is well formed: it has a
  payload, its deltas have an instruction, an offset that a file can have and a literal that is not
  empty and fits into a message, the block numbers are among those of the signatures received, and
  its signatures have a block size that can be allocated.\<close>

theorem stream_replies_are_typed:
  assumes "serve_stream F clean blake3 set_file_mtime config life ms tx = Some (replies, F', r)"
    and "sizes_ok F" "accepted tx = []"
    and "\<forall>m sig. Inr m \<in> set ms \<longrightarrow> payload m = Some (Signatures sig) \<longrightarrow> length (blocks sig) \<le> n"
  shows "\<forall>m \<in> set replies. typed_message n m"
proof -
  obtain h where "stream_loop F clean blake3 channel_send config life ms (new_stream tx) = Some (h, r)"
    and replies: "replies = accepted (st_sink h)"
    using assms(1) by (auto simp: serve_stream_def split: option.splits)
  from stream_loop_typed[OF this(1) assms(2), of n] have "typed_channel n (st_sink h)"
    using assms(3,4) by (auto simp: few_blocks_def new_stream_def typed_channel_def)
  then show ?thesis by (simp add: replies typed_channel_def list_all_iff)
qed

text \<open>C14: Progress: well-formed deltas do not go wrong.  Whatever signatures a sender was given (of other
  contents, with colliding checksums or an odd block size) and whether or not it was interrupted, a
  writer with at least as many blocks as the signatures applies all that was sent: no block number
  is beyond its cache (which would be a panic), no delta is without an instruction and no offset is
  refused, and the target is replaced.\<close>

theorem deltas_never_go_wrong:
  assumes "send_delta_from_block_signatures G blake3 channel_send src sig tx = Some (tx', r)"
    and "sizes_ok G" "accepted tx = []" "length (blocks sig) \<le> length cache"
    and "writable_name q f" "can_replace R q"
  shows "\<exists>R'. delta_writer set_file_mtime q cache ts (deltas_of (accepted tx')) R = (R', Inr ())"
proof -
  have "typed_channel (length cache) tx'"
    using send_delta_typed[OF assms(1,2,4)] assms(3) by (simp add: typed_channel_def)
  then have "list_all (typed_delta (length cache)) (deltas_of (accepted tx'))"
    by (intro deltas_of_typed) (simp add: typed_channel_def)
  then show ?thesis by (rule delta_writer_typed[OF _ assms(5,6)])
qed

lemma example_sizes_ok: "sizes_ok (example_tree [''f'' \<mapsto> [1, 2, 3]])"
proof -
  have "length c < 2 ^ 63" if "nodes (example_tree [''f'' \<mapsto> [1, 2, 3]]) k = Some (File c m)" for k c m
    using that by (auto simp: example_tree_def split: list.splits if_splits)
  then show ?thesis by (auto simp: sizes_ok_def fs_read_Inr)
qed

theorem stream_replies_are_typed_witness:
  "\<exists>replies F' r. serve_stream (example_tree [''f'' \<mapsto> [1, 2, 3]]) lexical_clean example_hash utimens example_config (\<lambda>_. None)
      [Inr (file_action_message example_upload), Inr \<lparr>payload = None\<rparr>] new_channel = Some (replies, F', r) \<and>
    replies = [request (Signatures (signed example_hash 2 [1, 2, 3]))] \<and> (\<forall>m \<in> set replies. typed_message 0 m)"
proof -
  let ?F = "example_tree [''f'' \<mapsto> [1, 2, 3]]"
  obtain F' r where run: "serve_stream ?F lexical_clean example_hash utimens example_config (\<lambda>_. None)
      [Inr (file_action_message example_upload), Inr \<lparr>payload = None\<rparr>] new_channel =
      Some ([request (Signatures (signed example_hash 2 [1, 2, 3]))], F', r)"
    using handle_upload[where tx = new_channel and a = example_upload and F = ?F and clean = lexical_clean and
        config = example_config and life = "\<lambda>_. None" and q = "''/srv/f''"]
      example_signed example_paths(4)
    by (simp add: serve_stream_def file_action_message_def request_def handle_sync_payload_def example_upload_def new_channel_def)
  have "\<forall>m \<in> set [request (Signatures (signed example_hash 2 [1, 2, 3]))]. typed_message 0 m"
    by (rule stream_replies_are_typed[OF run example_sizes_ok]) (auto simp: new_channel_def file_action_message_def request_def)
  with run show ?thesis by blast
qed

theorem deltas_never_go_wrong_witness:
  "\<exists>tx' r R'. send_delta_from_block_signatures (example_tree [''f'' \<mapsto> [1, 2, 3]]) example_hash channel_send ''/srv/f''
      (signed example_hash 2 [7, 7, 7]) new_channel = Some (tx', r) \<and>
    delta_writer utimens ''/srv/f'' [[], []] timestamp_default (deltas_of (accepted tx')) (example_tree Map.empty) = (R', Inr ())"
proof -
  let ?G = "example_tree [''f'' \<mapsto> [1, 2, 3]]" and ?sig = "signed example_hash 2 [7, 7, 7]"
  have "fs_read ?G ''/srv/f'' = Inr [1, 2, 3]" by (rule example_read) simp
  then have "\<exists>x. send_delta_from_block_signatures ?G example_hash channel_send ''/srv/f'' ?sig new_channel = Some x"
    using send_delta_signed[of ?G "''/srv/f''" "[1, 2, 3]" 2 example_hash channel_send "[7, 7, 7]" new_channel]
    by (simp add: isize_max_def)
  then obtain tx' r where run: "send_delta_from_block_signatures ?G example_hash channel_send ''/srv/f'' ?sig new_channel = Some (tx', r)"
    by auto
  have "length (blocks ?sig) \<le> length [[], [] :: byte list]" by (simp add: signed_def signatures_of_def chunks.simps)
  from deltas_never_go_wrong[OF run example_sizes_ok _ this example_paths(5) example_can_replace, of utimens timestamp_default Map.empty]
  show ?thesis using run by (auto simp: new_channel_def)
qed

end
