(* ===== verification/Service_History.thy ===== *)
theory Service_History
  imports Server_Session
begin

section \<open>The service over time\<close>

text \<open>
  The two calls of the service (src/bin/server.rs) one after another, on one table of sessions and
  one disk, and what holds after any history of calls: who is admitted, and what has been written.
  A call is served to its end before the next (streams at the same time: Writer_Steps).

  \<open>walkdir F\<close> are the entries that the crate walkdir finds on the disk \<open>F\<close>.
\<close>

datatype call =
    Initiate_Sync i64 ClientSyncState
  | Sync_Request "string option" "(unit + SyncRequest) list" channel

datatype answer = Planned "status + ServerSyncStateResponse" | Streamed "status + (SyncRequest list \<times> unit outcome)"

text \<open>The number is the time of the call, the list what arrives on the stream; \<open>None\<close> for a stream
  that never comes to its end.\<close>

fun serve_call ::
    "(string \<Rightarrow> string option) \<Rightarrow> (i64 \<Rightarrow> bool) \<Rightarrow> (file_system \<Rightarrow> PathBuf \<Rightarrow> dir_entry option list) \<Rightarrow>
     (PathBuf \<Rightarrow> PathBuf) \<Rightarrow> (byte list \<Rightarrow> byte list) \<Rightarrow>
     (file_system \<Rightarrow> PathBuf \<Rightarrow> mtime \<Rightarrow> io_error + file_system) \<Rightarrow> (PathBuf \<Rightarrow> nat option) \<Rightarrow>
     call \<Rightarrow> HarmonicService \<times> file_system \<Rightarrow> ((HarmonicService \<times> file_system) \<times> answer) option" where
  "serve_call uuid_from_str micros_ok walkdir clean blake3 set_file_mtime life (Initiate_Sync now msg) (S, F) =
     (let state_now = generate_state F blake3 (walkdir F) now (sync_path (service_config S)) True
      in case harmonize_client_initiate_sync uuid_from_str micros_ok now state_now msg S of
           (S', r) \<Rightarrow> Some ((S', F), Planned r))"
| "serve_call uuid_from_str micros_ok walkdir clean blake3 set_file_mtime life (Sync_Request header ms tx) (S, F) =
     (case harmonize_sync_request uuid_from_str header S F clean blake3 set_file_mtime life ms tx of
        Inl e \<Rightarrow> Some ((S, F), Streamed (Inl e))
      | Inr None \<Rightarrow> None
      | Inr (Some (replies, F', r)) \<Rightarrow> Some ((S, F'), Streamed (Inr (replies, r))))"

text \<open>A history: the calls with their answers.\<close>

fun serve_calls ::
    "(call \<Rightarrow> 's \<Rightarrow> ('s \<times> answer) option) \<Rightarrow> call list \<Rightarrow> 's \<Rightarrow> ('s \<times> (call \<times> answer) list) option" where
  "serve_calls step [] s = Some (s, [])"
| "serve_calls step (c # cs) s =
     (case step c s of
        None \<Rightarrow> None
      | Some (s', a) \<Rightarrow> map_option (apsnd (\<lambda>history. (c, a) # history)) (serve_calls step cs s'))"

subsection \<open>Directories\<close>

text \<open>No writer makes or removes a directory.\<close>

definition same_dirs :: "file_system \<Rightarrow> file_system \<Rightarrow> bool" where
  "same_dirs F G \<longleftrightarrow> (\<forall>k. is_dir G k \<longleftrightarrow> is_dir F k)"

lemma same_dirs_refl [simp]: "same_dirs F F"
  by (simp add: same_dirs_def)

lemma same_dirs_trans [trans]: "same_dirs F G \<Longrightarrow> same_dirs G H \<Longrightarrow> same_dirs F H"
  by (simp add: same_dirs_def)

lemma same_dirs_put_file [simp]: "\<not> is_dir F k \<Longrightarrow> same_dirs F (put_file k c m F)"
  by (simp add: same_dirs_def is_dir_put_file)

lemma writer_loop_dirs: "writer_loop cache k ds F = (F', r) \<Longrightarrow> k \<noteq> [] \<Longrightarrow> same_dirs F F'"
proof (induction ds arbitrary: F)
  case (Cons d ds)
  show ?case
  proof (cases "writer_step cache k d F")
    case (Inl e)
    then show ?thesis using Cons.prems by simp
  next
    case (Inr G)
    then have "same_dirs F G" using Cons.prems(2) by (auto simp: writer_step_Inr is_dir_def)
    also have "same_dirs G F'" using Cons Inr by simp
    finally show ?thesis .
  qed
qed simp

lemma fs_rename_dirs: "fs_rename F p q = Inr G \<Longrightarrow> same_dirs F G"
  by (auto simp: fs_rename_Inr same_dirs_def is_dir_def put_file_def split: if_splits)

lemma delta_writer_dirs:
  assumes "mtime_setter set_file_mtime" "delta_writer set_file_mtime p cache ts ds F = (F', r)"
  shows "same_dirs F F'"
proof (cases "fs_create F (tmp_file p)")
  case (Inl e)
  then show ?thesis using assms(2) by (simp add: delta_writer_def)
next
  case (Inr c)
  then obtain k F1 where c: "fs_create F (tmp_file p) = Inr (k, F1)" by (cases c) auto
  obtain F2 r2 where loop: "writer_loop cache k ds F1 = (F2, r2)" by fastforce
  have "k \<noteq> []" using c by (auto simp: fs_create_Inr is_dir_def)
  then have "same_dirs F F1" "same_dirs F1 F2" using c writer_loop_dirs[OF loop] by (auto simp: fs_create_Inr)
  then have two: "same_dirs F F2" by (rule same_dirs_trans)
  have time: "same_dirs G H" if "set_file_mtime G q t = Inr H" for G H q t
    using mtime_setter.set_mtime_Inr[OF assms(1) that] by (auto simp: same_dirs_def is_dir_def split: if_splits)
  consider (failed) "F' = F2"
    | (renamed) F3 where "fs_rename F2 (tmp_file p) p = Inr F3" "F' = F3"
    | (timed) F3 t where "fs_rename F2 (tmp_file p) p = Inr F3" "set_file_mtime F3 p t = Inr F'"
    using assms(2) c loop by (auto simp: delta_writer_def split: sum.splits)
  then show ?thesis
  proof cases
    case failed
    then show ?thesis using two by simp
  next
    case (renamed F3)
    then show ?thesis using same_dirs_trans[OF two fs_rename_dirs] by blast
  next
    case (timed F3 t)
    show ?thesis by (rule same_dirs_trans[OF two same_dirs_trans[OF fs_rename_dirs[OF timed(1)] time[OF timed(2)]]])
  qed
qed

lemma run_writers_dirs:
  assumes "mtime_setter set_file_mtime"
  shows "same_dirs F (fold (run_writer set_file_mtime) ws F)"
proof (induction ws arbitrary: F)
  case (Cons w ws)
  have "same_dirs F (run_writer set_file_mtime w F)"
    unfolding run_writer_def by (rule delta_writer_dirs[OF assms prod.collapse[symmetric]])
  also have "same_dirs \<dots> (fold (run_writer set_file_mtime) ws (run_writer set_file_mtime w F))" by (rule Cons.IH)
  finally show ?case by simp
qed simp

lemma serve_stream_dirs:
  "mtime_setter set_file_mtime \<Longrightarrow> serve_stream F clean blake3 set_file_mtime config life ms tx = Some (replies, F', r) \<Longrightarrow>
     same_dirs F F'"
  by (auto simp: serve_stream_def end_stream_def run_writers_dirs split: option.splits)

subsection \<open>Histories\<close>

text \<open>The calls that opened the session of a uuid.\<close>

definition opened :: "(string \<Rightarrow> string option) \<Rightarrow> (call \<times> answer) list \<Rightarrow> string \<Rightarrow> bool" where
  "opened uuid_from_str history uuid \<longleftrightarrow>
     (\<exists>now msg response. (Initiate_Sync now msg, Planned (Inr response)) \<in> set history \<and>
        uuid_from_str (cs_sync_uuid msg) = Some uuid)"

lemma opened_Cons:
  "opened uuid_from_str ((c, a) # history) uuid \<longleftrightarrow>
     opened uuid_from_str [(c, a)] uuid \<or> opened uuid_from_str history uuid"
  by (simp add: opened_def) blast

lemma serve_call_sessions:
  assumes "serve_call uuid_from_str micros_ok walkdir clean blake3 set_file_mtime life c (S, F) = Some ((S', F'), a)"
  shows "service_config S' = service_config S"
    "sync_sessions S' uuid \<noteq> None \<longleftrightarrow> sync_sessions S uuid \<noteq> None \<or> opened uuid_from_str [(c, a)] uuid"
proof -
  have "service_config S' = service_config S \<and>
      (sync_sessions S' uuid \<noteq> None \<longleftrightarrow> sync_sessions S uuid \<noteq> None \<or> opened uuid_from_str [(c, a)] uuid)"
  proof (cases c)
    case (Initiate_Sync now msg)
    then show ?thesis
      using assms
      by (auto simp: harmonize_client_initiate_sync_def opened_def Let_def split: if_splits sum.splits option.splits)
  next
    case (Sync_Request header ms tx)
    then show ?thesis using assms by (auto simp: opened_def split: sum.splits option.splits)
  qed
  then show "service_config S' = service_config S"
    "sync_sessions S' uuid \<noteq> None \<longleftrightarrow> sync_sessions S uuid \<noteq> None \<or> opened uuid_from_str [(c, a)] uuid" by blast+
qed

lemma serve_calls_sessions:
  assumes "serve_calls (serve_call uuid_from_str micros_ok walkdir clean blake3 set_file_mtime life) cs (S, F) =
      Some ((S', F'), history)"
  shows "service_config S' = service_config S \<and>
    (sync_sessions S' uuid \<noteq> None \<longleftrightarrow> sync_sessions S uuid \<noteq> None \<or> opened uuid_from_str history uuid)"
  using assms
proof (induction cs arbitrary: S F history)
  case Nil
  then show ?case by (simp add: opened_def)
next
  case (Cons c cs)
  then obtain S1 F1 a rest where
    first: "serve_call uuid_from_str micros_ok walkdir clean blake3 set_file_mtime life c (S, F) = Some ((S1, F1), a)"
    and later: "serve_calls (serve_call uuid_from_str micros_ok walkdir clean blake3 set_file_mtime life) cs (S1, F1) =
      Some ((S', F'), rest)" and history: "history = (c, a) # rest"
    by (auto split: option.splits)
  show ?case
    using Cons.IH[OF later] serve_call_sessions[OF first] opened_Cons[of uuid_from_str c a rest uuid] history by auto
qed

text \<open>What a history leaves of the disk, from what one call leaves.\<close>

definition disk_inside :: "PathBuf \<Rightarrow> file_system \<Rightarrow> file_system \<Rightarrow> bool" where
  "disk_inside root F G \<longleftrightarrow> same_except (inside F root) F G \<and> same_dirs F G"

lemma disk_inside_refl [simp]: "disk_inside root F F"
  by (simp add: disk_inside_def)

lemma disk_inside_trans:
  assumes "disk_inside root F G" "disk_inside root G H"
  shows "disk_inside root F H"
proof -
  have one: "same_except (inside F root) F G" and two: "same_except (inside G root) G H"
    and dirs: "same_dirs F H"
    using assms same_dirs_trans[of F G H] by (simp_all add: disk_inside_def)
  have "same_except (inside F root) G H" using two by (simp add: inside_same[OF one])
  with one have "same_except (inside F root) F H" by (rule same_except_trans)
  with dirs show ?thesis by (simp add: disk_inside_def)
qed

lemma disk_inside_root:
  assumes "disk_inside root F G" "is_dir F (resolve F root)" "fault F (resolve F root) = None"
  shows "is_dir G (resolve G root)" "fault G (resolve G root) = None"
proof -
  have same: "same_except (inside F root) F G" and dirs: "same_dirs F G" using assms(1) by (simp_all add: disk_inside_def)
  have "resolve G root = resolve F root" by (rule same_except_resolve[OF same])
  then show "is_dir G (resolve G root)" "fault G (resolve G root) = None"
    using assms(2,3) dirs same by (simp_all add: same_dirs_def same_except_def)
qed

lemma serve_calls_inside:
  assumes "path_cleaner clean" "mtime_setter set_file_mtime"
    and "sync_path (service_config S) \<noteq> []" "is_dir F (resolve F (sync_path (service_config S)))"
      "fault F (resolve F (sync_path (service_config S))) = None"
    and "serve_calls (serve_call uuid_from_str micros_ok walkdir clean blake3 set_file_mtime life) cs (S, F) =
      Some ((S', F'), history)"
  shows "disk_inside (sync_path (service_config S)) F F'"
  using assms(3-6)
proof (induction cs arbitrary: S F history)
  case Nil
  then show ?case by simp
next
  case (Cons c cs)
  let ?root = "sync_path (service_config S)"
  obtain S1 F1 a rest where
    first: "serve_call uuid_from_str micros_ok walkdir clean blake3 set_file_mtime life c (S, F) = Some ((S1, F1), a)"
    and later: "serve_calls (serve_call uuid_from_str micros_ok walkdir clean blake3 set_file_mtime life) cs (S1, F1) =
      Some ((S', F'), rest)"
    using Cons.prems(4) by (auto split: option.splits)
  have config: "service_config S1 = service_config S" by (rule serve_call_sessions(1)[OF first])
  have one: "disk_inside ?root F F1"
  proof (cases c)
    case (Initiate_Sync now msg)
    then show ?thesis using first by (auto simp: Let_def split: prod.splits)
  next
    case (Sync_Request header ms tx)
    show ?thesis
    proof (cases "check_session uuid_from_str header S")
      case (Inl e)
      then show ?thesis using first Sync_Request by (simp add: harmonize_sync_request_def)
    next
      case (Inr u)
      then obtain replies r where "serve_stream F clean blake3 set_file_mtime (service_config S) life ms tx = Some (replies, F1, r)"
        using first Sync_Request by (auto simp: harmonize_sync_request_def split: option.splits)
      then show ?thesis
        using serve_stream_inside[OF assms(1) Cons.prems(1-3) assms(2)] serve_stream_dirs[OF assms(2)]
        by (simp add: disk_inside_def)
    qed
  qed
  have "disk_inside ?root F1 F'"
    using Cons.IH[OF _ _ _ later] Cons.prems(1) disk_inside_root[OF one Cons.prems(2,3)] config by simp
  with one show ?case by (rule disk_inside_trans)
qed

subsection \<open>Properties\<close>

text \<open>C5: Whatever clients do (any calls in any order, with any sessions, any paths and deltas on the
  streams, and any endings of these), the server changes nothing outside its sync directory, and it
  neither makes nor removes a directory.\<close>

theorem history_stays_inside:
  assumes "path_cleaner clean" "mtime_setter set_file_mtime"
    and "sync_path (service_config S) \<noteq> []" "is_dir F (resolve F (sync_path (service_config S)))"
      "fault F (resolve F (sync_path (service_config S))) = None"
    and "serve_calls (serve_call uuid_from_str micros_ok walkdir clean blake3 set_file_mtime life) cs (S, F) =
      Some ((S', F'), history)"
  shows "(\<forall>k. (\<exists>names. k = resolve F (sync_path (service_config S)) @ names) \<or> nodes F' k = nodes F k) \<and>
    (\<forall>k. is_dir F' k \<longleftrightarrow> is_dir F k)"
  using serve_calls_inside[OF assms] by (auto simp: disk_inside_def same_except_def inside_def same_dirs_def)

text \<open>C23: Who is admitted: after any history of calls to a server that started with no sessions, the
  request of a stream passes the check exactly when its header is a uuid for which a call that
  starts a sync has succeeded before.  So a session is never closed: it is admitted for as long as
  the server runs, and the table only grows.\<close>

theorem admitted_iff_initiated:
  assumes "sync_sessions S = Map.empty"
    and "serve_calls (serve_call uuid_from_str micros_ok walkdir clean blake3 set_file_mtime life) cs (S, F) =
      Some ((S', F'), history)"
  shows "check_session uuid_from_str header S' = Inr () \<longleftrightarrow>
    (\<exists>uuid. Option.bind header uuid_from_str = Some uuid \<and> opened uuid_from_str history uuid)"
proof -
  have "opened uuid_from_str history uuid \<longleftrightarrow> sync_sessions S' uuid \<noteq> None" for uuid
    using serve_calls_sessions[OF assms(2), of uuid] assms(1) by simp
  then show ?thesis by (simp add: check_session_def split: option.splits)
qed

definition two_calls :: "call list" where
  "two_calls =
     [Initiate_Sync 7 \<lparr>cs_sync_uuid = ''u'', cs_timestamp_last_sync_micro = 0, cs_status_list = []\<rparr>,
      Sync_Request (Some ''u'')
        [Inr (file_action_message \<lparr>fa_path = ''../f'', fa_direction = 2, fa_timestamp_latest_modified = None\<rparr>)] new_channel]"

definition fresh_service :: HarmonicService where
  "fresh_service = \<lparr>sync_sessions = Map.empty, service_config = example_config\<rparr>"

lemma two_calls_run:
  "\<exists>S' F' history. serve_calls (serve_call Some (\<lambda>_. True) (\<lambda>_ _. []) lexical_clean example_hash utimens (\<lambda>_. None)) two_calls
      (fresh_service, example_tree Map.empty) = Some ((S', F'), history) \<and> opened Some history ''u''"
proof -
  let ?step = "serve_call Some (\<lambda>_. True) (\<lambda>_ _. []) lexical_clean example_hash utimens (\<lambda>_. None)"
  let ?F = "example_tree Map.empty"
  let ?msg = "\<lparr>cs_sync_uuid = ''u'', cs_timestamp_last_sync_micro = 0, cs_status_list = []\<rparr>"
  have "generate_sync_plan \<lparr>last_sync_timestamp_micros = 7, tree = []\<rparr> [] = Inr []" by code_simp
  then obtain S1 response where first: "?step (Initiate_Sync 7 ?msg) (fresh_service, ?F) = Some ((S1, ?F), Planned (Inr response))"
    by (simp add: generate_state_def harmonize_client_initiate_sync_def)
  have S1: "service_config S1 = example_config" "sync_sessions S1 ''u'' \<noteq> None"
    using serve_call_sessions(1)[OF first] serve_call_sessions(2)[OF first, of "''u''"] by (simp_all add: fresh_service_def opened_def)
  have "get_absolute_path lexical_clean ''../f'' ''/srv'' = Inl (Err (PathError ''../f''))" by code_simp
  then have "\<exists>F2 replies r. ?step (two_calls ! 1) (S1, ?F) = Some ((S1, F2), Streamed (Inr (replies, r)))"
    using S1 by (auto simp: two_calls_def harmonize_sync_request_def check_session_def serve_stream_def file_action_message_def
        request_def handle_sync_payload_def handle_file_action_def send_block_signatures_for_file_def
        generate_blocks_signatures_def new_stream_def Let_def)
  then obtain F2 replies r where "?step (two_calls ! 1) (S1, ?F) = Some ((S1, F2), Streamed (Inr (replies, r)))" by blast
  then have "serve_calls ?step two_calls (fresh_service, ?F) =
      Some ((S1, F2), [(Initiate_Sync 7 ?msg, Planned (Inr response)), (two_calls ! 1, Streamed (Inr (replies, r)))])"
    using first by (simp add: two_calls_def del: serve_call.simps)
  then show ?thesis by (force simp: opened_def)
qed

theorem history_stays_inside_witness:
  "\<exists>S' F' history. serve_calls (serve_call Some (\<lambda>_. True) (\<lambda>_ _. []) lexical_clean example_hash utimens (\<lambda>_. None)) two_calls
      (fresh_service, example_tree Map.empty) = Some ((S', F'), history) \<and> nodes F' [''f''] = nodes (example_tree Map.empty) [''f'']"
proof -
  obtain S' F' history where run: "serve_calls (serve_call Some (\<lambda>_. True) (\<lambda>_ _. []) lexical_clean example_hash utimens (\<lambda>_. None))
      two_calls (fresh_service, example_tree Map.empty) = Some ((S', F'), history)"
    using two_calls_run by blast
  have root: "sync_path (service_config fresh_service) = ''/srv''" by (simp add: fresh_service_def)
  have "is_dir (example_tree Map.empty) (resolve (example_tree Map.empty) ''/srv'')"
    "fault (example_tree Map.empty) (resolve (example_tree Map.empty) ''/srv'') = None"
    by (simp_all add: example_root) (simp_all add: example_tree_def is_dir_def)
  then have "nodes F' [''f''] = nodes (example_tree Map.empty) [''f'']"
    using conjunct1[OF history_stays_inside[OF lexical.path_cleaner_axioms utimens.mtime_setter_axioms _ _ _ run],
        THEN spec, of "[''f'']"] root
    by (auto simp: example_root)
  with run show ?thesis by blast
qed

theorem admitted_iff_initiated_witness:
  "\<exists>S' F' history. serve_calls (serve_call Some (\<lambda>_. True) (\<lambda>_ _. []) lexical_clean example_hash utimens (\<lambda>_. None)) two_calls
      (fresh_service, example_tree Map.empty) = Some ((S', F'), history) \<and>
    check_session Some (Some ''u'') S' = Inr ()"
proof -
  obtain S' F' history where run: "serve_calls (serve_call Some (\<lambda>_. True) (\<lambda>_ _. []) lexical_clean example_hash utimens (\<lambda>_. None))
      two_calls (fresh_service, example_tree Map.empty) = Some ((S', F'), history)" "opened Some history ''u''"
    using two_calls_run by blast
  have "sync_sessions fresh_service = Map.empty" by (simp add: fresh_service_def)
  then show ?thesis using admitted_iff_initiated[OF _ run(1), of "Some ''u''"] run by auto
qed

end
