(* ===== verification/Trace_Context.thy ===== *)
theory Trace_Context
  imports Server_Session
begin

section \<open>Tracing\<close>

text \<open>
  Models src/utils/tracing.rs.  At the start of a program \<open>tracing_orchestrator\<close> sets the globals of
  OpenTelemetry and of the crate tracing: the propagator, the provider of tracers, the subscriber.
  An interceptor of the client writes the context of its trace into the metadata of every request,
  and a layer of the server reads it back.  The same metadata carries the uuid of the session
  (src/bin/client.rs, \<open>sync_file\<close>), which \<open>harmonize_sync_request\<close> checks.

  Parameters: the providers that the builders of the SDK yield (\<open>otlp_provider\<close> is \<open>None\<close> when the
  exporter cannot be built), \<open>tracer_of\<close>, the filter from the environment (\<open>None\<close> when there is
  none or it is invalid) and \<open>new_filter\<close>; \<open>parse_key\<close> is \<open>MetadataKey::from_bytes\<close> (which lowers the
  case of a key), \<open>value_ok\<close> whether \<open>MetadataValue::try_from\<close> takes a text, \<open>inject\<close> the pairs that a
  propagator sets for a context, \<open>extract\<close> its way back, which asks for keys.  What a subscriber
  does with spans and events is not modelled: it changes neither files nor messages.
\<close>

subsection \<open>Setting up\<close>

text \<open>The cargo features \<open>trace-stdout\<close> and \<open>trace-jaeger\<close>; not both of them (the first block of
  \<open>init_tracer\<close> would be a statement with a value, which does not compile).  With neither, the
  third block is taken, whose tracer is not of the declared type \<open>Tracer\<close>: it is written out as it
  is meant.\<close>

datatype trace_backend = Trace_Stdout | Trace_Jaeger | No_Trace

record ('propagator, 'provider, 'subscriber) telemetry =
  text_map_propagator :: "'propagator option"
  tracer_provider :: "'provider option"
  TRACER_PROVIDER :: "'provider option"
  global_default :: "'subscriber option"

text \<open>What a program starts with: OpenTelemetry's propagator and provider that do nothing.\<close>

definition no_telemetry :: "('propagator, 'provider, 'subscriber) telemetry" where
  "no_telemetry = \<lparr>text_map_propagator = None, tracer_provider = None, TRACER_PROVIDER = None, global_default = None\<rparr>"

text \<open>\<open>OnceLock::set\<close> and \<open>set_global_default\<close> keep the first value.\<close>

definition set_once :: "'a \<Rightarrow> 'a option \<Rightarrow> 'a option" where
  "set_once x cell = (case cell of None \<Rightarrow> Some x | Some y \<Rightarrow> Some y)"

definition init_tracer ::
    "trace_backend \<Rightarrow> 'provider \<Rightarrow> 'provider option \<Rightarrow> 'provider \<Rightarrow> ('provider \<Rightarrow> 'tracer) \<Rightarrow>
     ('propagator, 'provider, 'subscriber) telemetry \<Rightarrow> ('tracer \<times> ('propagator, 'provider, 'subscriber) telemetry) outcome" where
  "init_tracer backend stdout_provider otlp_provider noop_provider tracer_of G =
     (case backend of
        Trace_Stdout \<Rightarrow>
          (let provider = stdout_provider in Inr (tracer_of provider, G\<lparr>tracer_provider := Some provider\<rparr>))
      | Trace_Jaeger \<Rightarrow>
          (case otlp_provider of
             None \<Rightarrow> Inl Panic
           | Some provider \<Rightarrow>
               Inr (tracer_of provider,
                    G\<lparr>tracer_provider := Some provider, TRACER_PROVIDER := set_once provider (TRACER_PROVIDER G)\<rparr>))
      | No_Trace \<Rightarrow> Inr (tracer_of noop_provider, G))"

definition init_tracing ::
    "trace_backend \<Rightarrow> 'provider \<Rightarrow> 'provider option \<Rightarrow> 'provider \<Rightarrow> ('provider \<Rightarrow> 'tracer) \<Rightarrow>
     'filter option \<Rightarrow> (string \<Rightarrow> 'filter) \<Rightarrow> string \<Rightarrow>
     ('propagator, 'provider, 'tracer \<times> 'filter) telemetry \<Rightarrow> ('propagator, 'provider, 'tracer \<times> 'filter) telemetry outcome" where
  "init_tracing backend stdout_provider otlp_provider noop_provider tracer_of env_filter new_filter level G =
     and_then (init_tracer backend stdout_provider otlp_provider noop_provider tracer_of G) (\<lambda>(tracer, G').
       let subscriber = (tracer, case env_filter of None \<Rightarrow> new_filter level | Some f \<Rightarrow> f)
       in Inr (G'\<lparr>global_default := set_once subscriber (global_default G')\<rparr>))"

definition tracing_orchestrator ::
    "'propagator \<Rightarrow> trace_backend \<Rightarrow> 'provider \<Rightarrow> 'provider option \<Rightarrow> 'provider \<Rightarrow> ('provider \<Rightarrow> 'tracer) \<Rightarrow>
     'filter option \<Rightarrow> (string \<Rightarrow> 'filter) \<Rightarrow> string \<Rightarrow>
     ('propagator, 'provider, 'tracer \<times> 'filter) telemetry \<Rightarrow> ('propagator, 'provider, 'tracer \<times> 'filter) telemetry outcome" where
  "tracing_orchestrator trace_context backend stdout_provider otlp_provider noop_provider tracer_of env_filter new_filter level G =
     init_tracing backend stdout_provider otlp_provider noop_provider tracer_of env_filter new_filter level
       (G\<lparr>text_map_propagator := Some trace_context\<rparr>)"

text \<open>The provider that is shut down at the end of a manual run, if any; an error of its shutdown is
  only logged.\<close>

definition shutdown_tracer :: "trace_backend \<Rightarrow> ('propagator, 'provider, 'subscriber) telemetry \<Rightarrow> 'provider option" where
  "shutdown_tracer backend G = (if backend = Trace_Jaeger then TRACER_PROVIDER G else None)"

subsection \<open>The metadata of a request\<close>

type_synonym metadata = "string \<rightharpoonup> string"

text \<open>\<open>MetadataInjector::set\<close>: a key or a value that cannot be metadata is only logged.\<close>

definition injector_set ::
    "(string \<Rightarrow> string option) \<Rightarrow> (string \<Rightarrow> bool) \<Rightarrow> string \<times> string \<Rightarrow> metadata \<Rightarrow> metadata" where
  "injector_set parse_key value_ok kv m =
     (case kv of (key, value) \<Rightarrow>
       (case parse_key key of
          None \<Rightarrow> m
        | Some key' \<Rightarrow> if value_ok value then m(key' \<mapsto> value) else m))"

definition send_trace ::
    "(string \<Rightarrow> string option) \<Rightarrow> (string \<Rightarrow> bool) \<Rightarrow> ('propagator \<Rightarrow> 'context \<Rightarrow> (string \<times> string) list) \<Rightarrow>
     ('propagator, 'provider, 'subscriber) telemetry \<Rightarrow> 'context \<Rightarrow> metadata \<Rightarrow> metadata" where
  "send_trace parse_key value_ok inject G span_context m =
     (case text_map_propagator G of
        None \<Rightarrow> m
      | Some prop \<Rightarrow> fold (injector_set parse_key value_ok) (inject prop span_context) m)"

text \<open>The parent that the span of the request gets; \<open>current\<close> is what it has without one.\<close>

definition accept_trace ::
    "('propagator \<Rightarrow> (string \<Rightarrow> string option) \<Rightarrow> 'context) \<Rightarrow> 'context \<Rightarrow>
     ('propagator, 'provider, 'subscriber) telemetry \<Rightarrow> metadata \<Rightarrow> 'context" where
  "accept_trace extract current G headers =
     (case text_map_propagator G of None \<Rightarrow> current | Some prop \<Rightarrow> extract prop headers)"

definition make_span :: "metadata \<Rightarrow> string \<times> metadata" where
  "make_span headers = (''incoming request'', headers)"

text \<open>The metadata \<open>sync_file\<close> opens a stream with; a uuid is text that metadata can hold.\<close>

definition stream_metadata :: "string \<Rightarrow> metadata" where
  "stream_metadata sync_uuid = [''session-uuid'' \<mapsto> sync_uuid]"

subsection \<open>What arrives\<close>

lemma injector_set_other:
  "parse_key (fst kv) \<noteq> Some k \<Longrightarrow> injector_set parse_key value_ok kv m k = m k"
  by (cases kv) (auto simp: injector_set_def split: option.split)

lemma fold_injector_other:
  "\<forall>kv \<in> set kvs. parse_key (fst kv) \<noteq> Some k \<Longrightarrow> fold (injector_set parse_key value_ok) kvs m k = m k"
  by (induction kvs arbitrary: m) (simp_all add: injector_set_other)

lemma fold_injector_get:
  assumes "distinct (map fst kvs)" "\<forall>(k, v) \<in> set kvs. parse_key k = Some k \<and> value_ok v" "(k, v) \<in> set kvs"
  shows "fold (injector_set parse_key value_ok) kvs m k = Some v"
  using assms
proof (induction kvs arbitrary: m)
  case Nil
  then show ?case by simp
next
  case (Cons kv kvs)
  show ?case
  proof (cases "(k, v) \<in> set kvs")
    case True
    then show ?thesis using Cons by simp
  next
    case False
    then have kv: "kv = (k, v)" using Cons.prems(3) by auto
    have "\<forall>x \<in> set kvs. parse_key (fst x) \<noteq> Some k" using Cons.prems(1,2) kv by (fastforce simp: image_iff)
    then have "fold (injector_set parse_key value_ok) kvs m' k = m' k" for m' by (rule fold_injector_other)
    moreover have "injector_set parse_key value_ok kv m k = Some v"
      using Cons.prems(2) kv by (simp add: injector_set_def)
    ultimately show ?thesis by (simp only: fold_Cons comp_apply)
  qed
qed

lemma orchestrator_propagator:
  "tracing_orchestrator trace_context backend sp op np tracer_of env_filter new_filter level G = Inr G' \<Longrightarrow>
     text_map_propagator G' = Some trace_context"
  by (auto simp: tracing_orchestrator_def init_tracing_def init_tracer_def and_then_Inr_iff Let_def
      split: trace_backend.splits option.splits)

text \<open>The first call decides about the subscriber, and the filter is that of the configuration
  unless the environment has one.\<close>

lemma orchestrator_subscriber:
  assumes "tracing_orchestrator trace_context backend sp op np tracer_of env_filter new_filter level G = Inr G'"
  shows "global_default G' \<noteq> None" "global_default G \<noteq> None \<Longrightarrow> global_default G' = global_default G"
    "global_default G = None \<Longrightarrow> env_filter = None \<Longrightarrow> map_option snd (global_default G') = Some (new_filter level)"
  using assms
  by (auto simp: tracing_orchestrator_def init_tracing_def init_tracer_def set_once_def and_then_Inr_iff Let_def
      split: trace_backend.splits option.splits)

text \<open>What the first call stores for the end of the program is what spans go to.\<close>

lemma orchestrator_shutdown:
  assumes "tracing_orchestrator trace_context backend sp op np tracer_of env_filter new_filter level no_telemetry = Inr G'"
  shows "shutdown_tracer backend G' = (if backend = Trace_Jaeger then tracer_provider G' else None)"
  using assms
  by (auto simp: tracing_orchestrator_def init_tracing_def init_tracer_def set_once_def no_telemetry_def shutdown_tracer_def
      and_then_Inr_iff Let_def split: trace_backend.splits option.splits)

subsection \<open>Properties\<close>

text \<open>C36: What a request says of itself arrives.  Let client and server have set up tracing, with any
  features, filters and log levels; after a successful call that starts a sync, the stream of a
  file of that sync, sent through the interceptor, passes the server's check of the session, and
  the context of the trace that the server reads is the one the client sent.  Of the propagator it
  is used that its keys are those of the standard (lower case, each set once, not the session's),
  that its values can be metadata, and that it reads back what it wrote.\<close>

theorem stream_request_is_admitted:
  assumes client: "tracing_orchestrator prop backend stdout_provider otlp_provider noop_provider tracer_of env_filter
      new_filter level no_telemetry = Inr GC"
    and server: "tracing_orchestrator prop backend' stdout_provider' otlp_provider' noop_provider' tracer_of' env_filter'
      new_filter' level' no_telemetry = Inr GS"
    and call: "harmonize_client_initiate_sync uuid_from_str micros_ok now_micros state request_message S = (S', Inr response)"
      "sync_uuid = cs_sync_uuid request_message"
    and propagator: "distinct (map fst (inject prop span_context))"
      "\<forall>(k, v) \<in> set (inject prop span_context). parse_key k = Some k \<and> value_ok v \<and> k \<noteq> ''session-uuid''"
      "\<And>get. (\<forall>(k, v) \<in> set (inject prop span_context). get k = Some v) \<Longrightarrow> extract prop get = span_context"
  shows "check_session uuid_from_str
      (send_trace parse_key value_ok inject GC span_context (stream_metadata sync_uuid) ''session-uuid'') S' = Inr () \<and>
    accept_trace extract current GS (send_trace parse_key value_ok inject GC span_context (stream_metadata sync_uuid)) = span_context"
proof
  let ?kvs = "inject prop span_context" and ?m = "stream_metadata sync_uuid"
  have sent: "send_trace parse_key value_ok inject GC span_context ?m = fold (injector_set parse_key value_ok) ?kvs ?m"
    by (simp add: send_trace_def orchestrator_propagator[OF client])
  have "\<forall>kv \<in> set ?kvs. parse_key (fst kv) \<noteq> Some ''session-uuid''" using propagator(2) by fastforce
  then have header: "send_trace parse_key value_ok inject GC span_context ?m ''session-uuid'' = Some sync_uuid"
    unfolding sent by (simp only: fold_injector_other) (simp add: stream_metadata_def)
  obtain uuid where "uuid_from_str sync_uuid = Some uuid" "sync_sessions S' uuid \<noteq> None"
    using call by (auto simp: harmonize_client_initiate_sync_def split: if_splits sum.splits option.splits)
  then show "check_session uuid_from_str
      (send_trace parse_key value_ok inject GC span_context (stream_metadata sync_uuid) ''session-uuid'') S' = Inr ()"
    by (auto simp: check_session_def header)
  have "\<forall>(k, v) \<in> set ?kvs. parse_key k = Some k \<and> value_ok v" using propagator(2) by auto
  from fold_injector_get[OF propagator(1) this]
  have "\<forall>(k, v) \<in> set ?kvs. send_trace parse_key value_ok inject GC span_context ?m k = Some v" unfolding sent by blast
  then show "accept_trace extract current GS (send_trace parse_key value_ok inject GC span_context ?m) = span_context"
    by (simp add: accept_trace_def orchestrator_propagator[OF server] propagator(3))
qed

theorem stream_request_is_admitted_witness:
  "\<exists>S' response GC GS. harmonize_client_initiate_sync Some (\<lambda>_. True) 7 (Inr \<lparr>last_sync_timestamp_micros = 0, tree = []\<rparr>)
      \<lparr>cs_sync_uuid = ''u'', cs_timestamp_last_sync_micro = 0, cs_status_list = []\<rparr>
      \<lparr>sync_sessions = Map.empty, service_config = example_config\<rparr> = (S', Inr response) \<and>
    check_session Some (send_trace Some (\<lambda>_. True) (\<lambda>_ c. [(''traceparent'', c)]) GC ''00-1''
      (stream_metadata ''u'') ''session-uuid'') S' = Inr () \<and>
    accept_trace (\<lambda>_ get. case get ''traceparent'' of None \<Rightarrow> [] | Some c \<Rightarrow> c) [] (GS :: (unit, nat, nat \<times> string) telemetry)
      (send_trace Some (\<lambda>_. True) (\<lambda>_ c. [(''traceparent'', c)]) (GC :: (unit, nat, nat \<times> string) telemetry) ''00-1''
        (stream_metadata ''u'')) = ''00-1''"
proof -
  let ?request = "\<lparr>cs_sync_uuid = ''u'', cs_timestamp_last_sync_micro = 0, cs_status_list = []\<rparr>"
  let ?S = "\<lparr>sync_sessions = Map.empty, service_config = example_config\<rparr>"
  obtain GC :: "(unit, nat, nat \<times> string) telemetry" where
    client: "tracing_orchestrator () Trace_Jaeger 1 (Some 2) 0 id None id ''info'' no_telemetry = Inr GC"
    by (simp add: tracing_orchestrator_def init_tracing_def init_tracer_def Let_def)
  obtain GS :: "(unit, nat, nat \<times> string) telemetry" where
    server: "tracing_orchestrator () Trace_Stdout 1 None 0 id (Some ''debug'') id ''info'' no_telemetry = Inr GS"
    by (simp add: tracing_orchestrator_def init_tracing_def init_tracer_def Let_def)
  have "generate_sync_plan \<lparr>last_sync_timestamp_micros = 0, tree = []\<rparr> [] = Inr []" by code_simp
  then obtain S' response where run: "harmonize_client_initiate_sync Some (\<lambda>_. True) 7
      (Inr \<lparr>last_sync_timestamp_micros = 0, tree = []\<rparr>) ?request ?S = (S', Inr response)"
    by (simp add: harmonize_client_initiate_sync_def)
  have "check_session Some (send_trace Some (\<lambda>_. True) (\<lambda>_ c. [(''traceparent'', c)]) GC ''00-1''
      (stream_metadata ''u'') ''session-uuid'') S' = Inr () \<and>
    accept_trace (\<lambda>_ get. case get ''traceparent'' of None \<Rightarrow> [] | Some c \<Rightarrow> c) [] GS
      (send_trace Some (\<lambda>_. True) (\<lambda>_ c. [(''traceparent'', c)]) GC ''00-1'' (stream_metadata ''u'')) = ''00-1''"
    by (rule stream_request_is_admitted[OF client server run]) simp_all
  with run show ?thesis by blast
qed

end
