(* ===== verification/Bootstrap.thy ===== *)
theory Bootstrap
  imports Server_Session
begin

section \<open>Handing out the certificate\<close>

text \<open>
  Models src/server/bootstrap.rs, src/server/security.rs, src/client/security.rs and
  \<open>get_cert\<close> of src/bin/client.rs: the server makes (or finds) a certificate and gives
  it to the first client that sends the one-time password shown on its console; the client asks
  its user for the password and a port, fetches the certificate and keeps it in a file.

  Parameters: \<open>random\<close> (the bytes that the generator of rand samples from
  \<open>Alphanumeric\<close>), the monotonic clock \<open>now\<close> (nanoseconds), \<open>parse_addr\<close> (the
  parser of \<open>SocketAddr\<close>: \<open>None\<close> for an error, otherwise the text of the address
  with a port put in), \<open>ip_of\<close> (the same parser, for the text of the address without
  port), \<open>local_ip\<close>, \<open>self_signed\<close> (rcgen: certificate and key in PEM),
  \<open>request_certificate\<close> (the remote call) and \<open>walkdir\<close>.
\<close>

subsection \<open>The service\<close>

record BootstrapService =
  bs_otp :: "(string \<times> nat) option"
  bs_cert_path :: PathBuf

definition BootstrapService_new :: "PathBuf \<Rightarrow> string \<Rightarrow> nat \<Rightarrow> BootstrapService" where
  "BootstrapService_new cert_path otp now = \<lparr>bs_otp = Some (otp, now), bs_cert_path = cert_path\<rparr>"

text \<open>\<open>Instant::duration_since\<close> is zero for a later instant, as subtraction is here.\<close>

definition otp_lifetime :: nat where
  "otp_lifetime = 300 * 10 ^ 9"

definition get_certificate ::
    "file_system \<Rightarrow> nat \<Rightarrow> string \<Rightarrow> BootstrapService \<Rightarrow> BootstrapService \<times> (status + byte list)" where
  "get_certificate F now received_otp S =
     (case bs_otp S of
        Some (valid_otp, creation_instant) \<Rightarrow>
          if now - creation_instant > otp_lifetime then (S\<lparr>bs_otp := None\<rparr>, Inl DeadlineExceeded)
          else if valid_otp = received_otp then
            (S\<lparr>bs_otp := None\<rparr>,
             case fs_read F (bs_cert_path S) of Inl _ \<Rightarrow> Inl Internal | Inr cert_bytes \<Rightarrow> Inr cert_bytes)
          else (S, Inl PermissionDeniedStatus)
      | None \<Rightarrow> (S, Inl PermissionDeniedStatus))"

text \<open>The answers to requests that arrive one after another (the password is behind a mutex
  that is held for the whole call): each with the file system and the time it meets.\<close>

type_synonym bootstrap_request = "file_system \<times> nat \<times> string"

fun serve_certificates :: "BootstrapService \<Rightarrow> bootstrap_request list \<Rightarrow> (status + byte list) list" where
  "serve_certificates S [] = []"
| "serve_certificates S ((F, now, received_otp) # rs) =
     (case get_certificate F now received_otp S of (S', r) \<Rightarrow> r # serve_certificates S' rs)"

definition generate_otp :: "(nat \<Rightarrow> char) \<Rightarrow> nat \<Rightarrow> string" where
  "generate_otp random n = map random [0..<n]"

text \<open>What the console of the server shows, line by line.\<close>

definition otp_announcement :: string where
  "otp_announcement = ''OTP password to copy self-signed certificate from server: ''"

definition display_otp :: "string \<Rightarrow> string \<Rightarrow> string list" where
  "display_otp otp addr =
     [replicate 32 CHR ''='',
      ''Bootstrap server running on: '' @ addr,
      otp_announcement @ otp,
      ''Enter this on the client after startup. To overwrite existing cert, run client with --bootstrap flag'',
      replicate 32 CHR ''='']"

text \<open>The lines shown and the service that then runs at the address.\<close>

definition run_bootstrap_server ::
    "(nat \<Rightarrow> char) \<Rightarrow> nat \<Rightarrow> PathBuf \<Rightarrow> string \<Rightarrow> string list \<times> BootstrapService" where
  "run_bootstrap_server random now cert_path bootstrap_addr =
     (let otp = generate_otp random 64
      in (display_otp otp bootstrap_addr, BootstrapService_new cert_path otp now))"

subsection \<open>The identity of the server\<close>

definition certificate_file :: PathBuf where
  "certificate_file = path_join config_dir_path ''certificate.crt''"

definition private_key_file :: PathBuf where
  "private_key_file = path_join config_dir_path ''certificate.pk''"

definition get_identity ::
    "(string \<Rightarrow> string option) \<Rightarrow> string option \<Rightarrow> (string list \<Rightarrow> (byte list \<times> byte list) option) \<Rightarrow> Config \<Rightarrow>
     file_system \<Rightarrow> file_system \<times> ((byte list \<times> byte list) \<times> bool) outcome" where
  "get_identity ip_of local_ip self_signed config F =
     (if fs_exists F certificate_file \<and> fs_exists F private_key_file then
        (F, and_then (from_io (fs_read F certificate_file)) (\<lambda>cert.
            and_then (from_io (fs_read F private_key_file)) (\<lambda>key. Inr ((cert, key), False))))
      else
        (case and_then (Config_socket_addr ip_of config) (\<lambda>ip.
              and_then (ok_or CryptoError local_ip) (\<lambda>ip'.
              ok_or CryptoError (self_signed [ip, ip']))) of
           Inl e \<Rightarrow> (F, Inl e)
         | Inr (cert, key) \<Rightarrow>
             (case from_io (fs_write F certificate_file cert) of
                Inl e \<Rightarrow> (F, Inl e)
              | Inr F1 \<Rightarrow>
                  (case from_io (fs_write F1 private_key_file key) of
                     Inl e \<Rightarrow> (F1, Inl e)
                   | Inr F2 \<Rightarrow> (F2, Inr ((cert, key), True))))))"

subsection \<open>The client\<close>

text \<open>
  The lines that reading from standard input yields; \<open>None\<close> is a read that fails.  After
  the last one the input has ended: \<open>read_line\<close> succeeds and leaves the buffer empty, so
  the loop for the password turns for ever (the value \<open>None\<close>) while the loop for the port
  takes its default.
\<close>

type_synonym input = "string option list"

fun get_user_input_for_otp :: "input \<Rightarrow> (string \<times> input) option" where
  "get_user_input_for_otp [] = None"
| "get_user_input_for_otp (None # ls) = get_user_input_for_otp ls"
| "get_user_input_for_otp (Some buf # ls) =
     (if length (trim buf) = 64 then Some (trim buf, ls) else get_user_input_for_otp ls)"

text \<open>\<open>str::parse::<u16>()\<close>\<close>

definition is_digit :: "char \<Rightarrow> bool" where
  "is_digit c \<longleftrightarrow> 48 \<le> (of_char c :: nat) \<and> (of_char c :: nat) \<le> 57"

definition decimal :: "string \<Rightarrow> nat" where
  "decimal s = foldl (\<lambda>n c. 10 * n + (of_char c - 48)) 0 s"

definition parse_u16 :: "string \<Rightarrow> 16 word option" where
  "parse_u16 s =
     (let digits = (case s of c # cs \<Rightarrow> if c = CHR ''+'' then cs else s | [] \<Rightarrow> [])
      in if digits \<noteq> [] \<and> list_all is_digit digits \<and> decimal digits < 2 ^ 16
         then Some (word_of_nat (decimal digits)) else None)"

fun get_user_input_for_bootstrap_server_port :: "input \<Rightarrow> 16 word \<times> input" where
  "get_user_input_for_bootstrap_server_port [] = (42070, [])"
| "get_user_input_for_bootstrap_server_port (None # ls) = get_user_input_for_bootstrap_server_port ls"
| "get_user_input_for_bootstrap_server_port (Some buf # ls) =
     (if trim buf = [] then (42070, ls)
      else case parse_u16 (trim buf) of
        Some p \<Rightarrow> (p, ls)
      | None \<Rightarrow> get_user_input_for_bootstrap_server_port ls)"

definition format_bootstrap_address ::
    "(string \<Rightarrow> (16 word \<Rightarrow> string) option) \<Rightarrow> string \<Rightarrow> 16 word \<Rightarrow> string outcome" where
  "format_bootstrap_address parse_addr server_address port =
     and_then (ok_or InvalidInputError (parse_addr server_address)) (\<lambda>addr. Inr (''http://'' @ addr port))"

definition get_cert_path :: PathBuf where
  "get_cert_path = path_join config_dir_path ''server.crt''"

text \<open>Fetching the certificate; \<open>None\<close> when the client keeps asking for a password.\<close>

definition bootstrap_from_server ::
    "(string \<Rightarrow> (16 word \<Rightarrow> string) option) \<Rightarrow> (string \<Rightarrow> string \<Rightarrow> byte list outcome) \<Rightarrow> string \<Rightarrow>
     input \<Rightarrow> file_system \<Rightarrow> (file_system \<times> byte list outcome) option" where
  "bootstrap_from_server parse_addr request_certificate server_address lines F =
     (case get_user_input_for_otp lines of
        None \<Rightarrow> None
      | Some (otp, lines') \<Rightarrow>
          let port = fst (get_user_input_for_bootstrap_server_port lines') in
          (case and_then (format_bootstrap_address parse_addr server_address port)
                  (\<lambda>addr. request_certificate addr otp) of
             Inl e \<Rightarrow> Some (F, Inl e)
           | Inr pem_bytes \<Rightarrow>
               (case from_io (fs_write F get_cert_path pem_bytes) of
                  Inl e \<Rightarrow> Some (F, Inl e)
                | Inr F' \<Rightarrow> Some (F', Inr pem_bytes))))"

text \<open>\<open>DirEntry::file_name\<close> of walkdir: the last name of the path, or the whole path.\<close>

definition entry_name :: "PathBuf \<Rightarrow> string" where
  "entry_name p =
     (case rev (components p) of Normal s # _ \<Rightarrow> s | _ \<Rightarrow> p)"

fun first_readable :: "file_system \<Rightarrow> PathBuf list \<Rightarrow> byte list option" where
  "first_readable F [] = None"
| "first_readable F (p # ps) = (case fs_read F p of Inr pem \<Rightarrow> Some pem | Inl _ \<Rightarrow> first_readable F ps)"

definition load_cert ::
    "(PathBuf \<Rightarrow> dir_entry option list) \<Rightarrow> file_system \<Rightarrow> byte list outcome" where
  "load_cert walkdir F =
     ok_or NotFoundError (first_readable F
       (map de_path (filter (\<lambda>e. entry_name (de_path e) = ''server.crt'')
         (filter (\<lambda>e. de_is_file e = Some True) (List.map_filter id (walkdir get_cert_path))))))"

text \<open>\<open>get_cert\<close>: the certificate is kept in a cell that is filled at the first call.\<close>

record client_globals =
  CERT :: "byte list option"
  FORCE_BOOTSTRAP :: bool

definition get_cert ::
    "(PathBuf \<Rightarrow> dir_entry option list) \<Rightarrow> (file_system \<Rightarrow> (file_system \<times> byte list outcome) option) \<Rightarrow>
     client_globals \<Rightarrow> file_system \<Rightarrow> (client_globals \<times> file_system \<times> byte list outcome) option" where
  "get_cert walkdir bootstrap G F =
     (case CERT G of
        Some c \<Rightarrow> Some (G, F, Inr c)
      | None \<Rightarrow>
          (case (if FORCE_BOOTSTRAP G then None else Some (load_cert walkdir F)) of
             Some (Inr c) \<Rightarrow> Some (G\<lparr>CERT := Some c\<rparr>, F, Inr c)
           | _ \<Rightarrow>
               (case bootstrap F of
                  None \<Rightarrow> None
                | Some (F', Inl _) \<Rightarrow> Some (G, F', Inl Panic)
                | Some (F', Inr c) \<Rightarrow> Some (G\<lparr>CERT := Some c, FORCE_BOOTSTRAP := False\<rparr>, F', Inr c))))"

subsection \<open>The one-time password\<close>

lemma serve_without_otp:
  "bs_otp S = None \<Longrightarrow> serve_certificates S rs = map (\<lambda>_. Inl PermissionDeniedStatus) rs"
  by (induction rs) (auto simp: get_certificate_def)

text \<open>A request that leaves the password as it is: in time, with another password.\<close>

fun wrong_guess :: "string \<Rightarrow> nat \<Rightarrow> bootstrap_request \<Rightarrow> bool" where
  "wrong_guess otp created (F, now, received_otp) \<longleftrightarrow> now - created \<le> otp_lifetime \<and> received_otp \<noteq> otp"

fun decisive_answer :: "PathBuf \<Rightarrow> nat \<Rightarrow> bootstrap_request \<Rightarrow> status + byte list" where
  "decisive_answer cert_path created (F, now, received_otp) =
     (if otp_lifetime < now - created then Inl DeadlineExceeded
      else case fs_read F cert_path of Inl _ \<Rightarrow> Inl Internal | Inr cert_bytes \<Rightarrow> Inr cert_bytes)"

text \<open>C22: The password works once: the answers to any sequence of requests are refusals up to the
  first that comes too late or has the password; that one decides (too late: expired; in time:
  the certificate, or an error when the file cannot be read), and every later one is refused.
  So at most one client ever gets the certificate, and only for the password, within 300
  seconds.\<close>

theorem certificate_given_once:
  "serve_certificates (BootstrapService_new cert_path otp created) rs =
     map (\<lambda>_. Inl PermissionDeniedStatus) (takeWhile (wrong_guess otp created) rs) @
     (case dropWhile (wrong_guess otp created) rs of
        [] \<Rightarrow> []
      | r # later \<Rightarrow> decisive_answer cert_path created r # map (\<lambda>_. Inl PermissionDeniedStatus) later)"
proof (induction rs)
  case Nil
  then show ?case by simp
next
  case (Cons r rs)
  obtain F now received where r: "r = (F, now, received)" by (cases r)
  show ?case
  proof (cases "wrong_guess otp created r")
    case True
    then have "get_certificate F now received (BootstrapService_new cert_path otp created) =
        (BootstrapService_new cert_path otp created, Inl PermissionDeniedStatus)"
      by (auto simp: r get_certificate_def BootstrapService_new_def)
    with Cons.IH True show ?thesis by (simp add: r)
  next
    case False
    then have "get_certificate F now received (BootstrapService_new cert_path otp created) =
        (\<lparr>bs_otp = None, bs_cert_path = cert_path\<rparr>, decisive_answer cert_path created r)"
      by (auto simp: r get_certificate_def BootstrapService_new_def)
    with False show ?thesis by (simp add: r serve_without_otp)
  qed
qed

subsection \<open>What the user types\<close>

text \<open>The loop that asks for the password returns exactly when some line that is read has 64
  bytes besides white space, and then with those of the first such line; when the input ends
  before, it asks for ever.\<close>

theorem otp_prompt_returns_iff:
  "map_option fst (get_user_input_for_otp lines) =
     find (\<lambda>s. length s = 64) (map trim (List.map_filter id lines))"
  by (induction lines rule: get_user_input_for_otp.induct) simp_all

definition alphanumeric :: "char \<Rightarrow> bool" where
  "alphanumeric c \<longleftrightarrow> is_digit c \<or> (65 \<le> (of_char c :: nat) \<and> (of_char c :: nat) \<le> 90) \<or>
     (97 \<le> (of_char c :: nat) \<and> (of_char c :: nat) \<le> 122)"

lemma strip_any_None: "(\<forall>w \<in> set ws. w \<noteq> [] \<longrightarrow> hd w \<noteq> of_char c) \<Longrightarrow> strip_any ws (c # s) = None"
proof (induction ws)
  case Nil
  then show ?case by simp
next
  case (Cons w ws)
  then have "\<not> (w \<noteq> [] \<and> map of_char (take (length w) (c # s)) = w)" by (cases w) auto
  with Cons show ?case by (simp only: strip_any.simps if_False) simp
qed

lemma trim_with_stops: "strip_any ws s = None \<Longrightarrow> trim_with ws s = s"
  by (simp add: trim_with.simps)

lemma white_space_ends:
  "\<forall>w \<in> set white_space. hd w < 48 \<or> 122 < hd w"
  "\<forall>w \<in> set (map rev white_space). hd w < 48 \<or> 122 < hd w"
  by code_simp+

lemma alphanumeric_no_space:
  assumes "alphanumeric c"
  shows "strip_any white_space (c # s) = None" "strip_any (map rev white_space) (c # s) = None"
proof -
  have "48 \<le> (of_char c :: nat) \<and> (of_char c :: nat) \<le> 122"
    using assms by (auto simp: alphanumeric_def is_digit_def)
  then show "strip_any white_space (c # s) = None" "strip_any (map rev white_space) (c # s) = None"
    using white_space_ends by (force intro!: strip_any_None)+
qed

text \<open>A line that holds a word and its line break.\<close>

lemma trim_word:
  assumes "s \<noteq> []" "\<forall>c \<in> set s. alphanumeric c"
  shows "trim (s @ [CHR 0x0A]) = s"
proof -
  obtain c cs where s: "s = c # cs" using assms(1) by (cases s) auto
  obtain d ds where r: "rev s = d # ds" using assms(1) by (cases "rev s") auto
  have "d \<in> set s" using r by (metis list.set_intros(1) set_rev)
  have "alphanumeric c" using assms(2) by (simp add: s)
  have "alphanumeric d" using assms(2) \<open>d \<in> set s\<close> by blast
  with \<open>alphanumeric c\<close> have stops: "strip_any white_space (s @ [CHR 0x0A]) = None" "strip_any (map rev white_space) (rev s) = None"
    unfolding r by (simp_all add: s alphanumeric_no_space)
  have "strip_any (map rev white_space) (CHR 0x0A # rev s) = Some (rev s)"
    by (simp add: white_space_def)
  then have "trim_with (map rev white_space) (CHR 0x0A # rev s) = rev s"
    using trim_with_stops[OF stops(2)] by (subst trim_with.simps) simp
  then show ?thesis by (simp add: trim_def trim_with_stops[OF stops(1)])
qed

lemma length_generate_otp [simp]: "length (generate_otp random n) = n"
  by (simp add: generate_otp_def)

lemma prompt_generated_otp:
  assumes "\<forall>i. alphanumeric (random i)"
  shows "get_user_input_for_otp (Some (generate_otp random 64 @ [CHR 0x0A]) # lines) = Some (generate_otp random 64, lines)"
proof -
  have "trim (generate_otp random 64 @ [CHR 0x0A]) = generate_otp random 64"
    using assms by (intro trim_word) (auto simp: generate_otp_def)
  then show ?thesis by simp
qed

subsection \<open>First contact\<close>

lemma identity_paths:
  "components certificate_file = [CurDir, Normal ''.harmonic'', Normal ''certificate.crt'']"
  "components private_key_file = [CurDir, Normal ''.harmonic'', Normal ''certificate.pk'']"
  "components get_cert_path = [CurDir, Normal ''.harmonic'', Normal ''server.crt'']"
  by code_simp+

lemma resolve_identity:
  "resolve F certificate_file = cwd F @ [''.harmonic'', ''certificate.crt'']"
  "resolve F private_key_file = cwd F @ [''.harmonic'', ''certificate.pk'']"
  "resolve F get_cert_path = cwd F @ [''.harmonic'', ''server.crt'']"
  by (simp_all add: resolve_def identity_paths)

lemma fs_read_exists: "fs_read F p = Inr c \<Longrightarrow> fs_exists F p"
  by (auto simp: fs_read_Inr fs_exists_def Let_def)

lemma fs_write_other:
  assumes "fs_write F p c = Inr F'" "resolve F q \<noteq> resolve F p" "fs_read F q = Inr d"
  shows "fs_read F' q = Inr d"
  using assms by (auto simp: fs_write_Inr fs_read_Inr is_dir_put_file)

lemma identity_on_disk:
  assumes "get_identity ip_of local_ip self_signed config F = (F', Inr ((cert, key), fresh))"
  shows "fs_read F' certificate_file = Inr cert \<and> fs_read F' private_key_file = Inr key"
proof (cases "fs_exists F certificate_file \<and> fs_exists F private_key_file")
  case True
  then show ?thesis
    using assms by (auto simp: get_identity_def and_then_Inr_iff from_io_def split: sum.splits)
next
  case False
  then obtain F1 where w: "fs_write F certificate_file cert = Inr F1" "fs_write F1 private_key_file key = Inr F'"
    using assms by (auto simp: get_identity_def from_io_def split: sum.splits)
  have "fs_read F' certificate_file = Inr cert"
    by (rule fs_write_other[OF w(2) _ fs_read_after_write[OF w(1)]]) (simp add: resolve_identity)
  with fs_read_after_write[OF w(2)] show ?thesis by simp
qed

text \<open>The identity of a server is made once: whatever run made or found it, it is in the
  certificate file and the key file, and every later run finds exactly it (and so does not start
  the service that hands out the certificate unless asked to).\<close>

theorem identity_is_persistent:
  assumes "get_identity ip_of local_ip self_signed config F = (F', Inr ((cert, key), fresh))"
  shows "fs_read F' certificate_file = Inr cert \<and> fs_read F' private_key_file = Inr key \<and>
    get_identity ip_of' local_ip' self_signed' config' F' = (F', Inr ((cert, key), False))"
  using identity_on_disk[OF assms] by (auto simp: get_identity_def dest: fs_read_exists)

text \<open>A disk for concrete instances: the directory of the configuration and nothing else.\<close>

definition fresh_disk :: file_system where
  "fresh_disk = \<lparr>nodes = [[''.harmonic''] \<mapsto> Dir], cwd = [], fault = (\<lambda>_. None),
     clock = \<lparr>mt_secs = 9, mt_nanos = 0\<rparr>\<rparr>"

lemma cwd_fresh_disk [simp]: "cwd fresh_disk = []"
  by (simp add: fresh_disk_def)

lemma write_fresh_disk:
  assumes "resolve fresh_disk p = [''.harmonic'', f]"
  shows "fs_write fresh_disk p c = Inr (put_file [''.harmonic'', f] c (clock fresh_disk) fresh_disk)"
    "\<not> fs_exists fresh_disk p"
  using assms by (simp_all add: fs_write_Inr fs_exists_def Let_def) (simp_all add: fresh_disk_def is_dir_def)

definition example_self_signed :: "string list \<Rightarrow> (byte list \<times> byte list) option" where
  "example_self_signed ips = (if ips = [''::1'', ''10.0.0.1''] then Some ([1, 2], [3]) else None)"

lemma example_identity:
  "\<exists>S. get_identity (\<lambda>_. Some ''::1'') (Some ''10.0.0.1'') example_self_signed example_config fresh_disk =
     (S, Inr (([1, 2], [3]), True))"
proof -
  let ?F = "put_file [''.harmonic'', ''certificate.crt''] [1, 2] (clock fresh_disk) fresh_disk"
  have "fs_write fresh_disk certificate_file [1, 2] = Inr ?F" "\<not> fs_exists fresh_disk certificate_file"
    using write_fresh_disk[of certificate_file "''certificate.crt''"] by (simp_all add: resolve_identity)
  moreover have "\<exists>S. fs_write ?F private_key_file [3] = Inr S"
    by (simp add: fs_write_Inr resolve_identity) (simp add: fresh_disk_def is_dir_def)
  ultimately show ?thesis by (auto simp: get_identity_def example_self_signed_def Config_socket_addr_def)
qed

theorem identity_is_persistent_witness:
  "\<exists>S. fs_read S certificate_file = Inr [1, 2] \<and>
     get_identity Map.empty None Map.empty example_config S = (S, Inr (([1, 2], [3]), False))"
proof -
  obtain S where "get_identity (\<lambda>_. Some ''::1'') (Some ''10.0.0.1'') example_self_signed
      example_config fresh_disk = (S, Inr (([1, 2], [3]), True))"
    using example_identity by blast
  from identity_is_persistent[OF this] show ?thesis by blast
qed

text \<open>What the remote call yields when it reaches the service: the answer, or the status as an
  error.\<close>

definition call_service :: "file_system \<Rightarrow> nat \<Rightarrow> BootstrapService \<Rightarrow> string \<Rightarrow> byte list outcome" where
  "call_service S now service otp =
     (case snd (get_certificate S now otp service) of Inl _ \<Rightarrow> Inl (Err GrpcStatus) | Inr c \<Rightarrow> Inr c)"

lemma announced_otp:
  "otp_announcement @ otp \<in> set (fst (run_bootstrap_server random now cert_path addr)) \<longleftrightarrow> otp = generate_otp random 64"
  by (simp add: run_bootstrap_server_def display_otp_def otp_announcement_def Let_def numeral_eq_Suc)

text \<open>C24: First contact, end to end: a server that has made its identity starts the service, which
  shows a password on its console; within 300 seconds the user of a client without a certificate
  types the password that is shown and a port on which the service is reached.  Then the client
  has exactly the server's certificate, and every later run of the client loads it from its file
  without asking anything.\<close>

theorem first_contact_installs_certificate:
  assumes identity: "get_identity ip_of local_ip self_signed server_config S0 = (S, Inr ((cert, key), fresh))"
    and random: "\<forall>i. alphanumeric (random i)"
    and service: "run_bootstrap_server random created certificate_file bootstrap_addr = (shown, service)"
    and typed: "otp_announcement @ otp \<in> set shown"
    and clock: "now - created \<le> otp_lifetime"
    and address: "parse_addr address = Some addr"
    and reached: "\<forall>otp. request_certificate (''http://'' @ addr (fst (get_user_input_for_bootstrap_server_port lines))) otp =
      call_service S now service otp"
    and client: "CERT G = None" "FORCE_BOOTSTRAP G \<or> load_cert walkdir F = Inl e"
    and stored: "fs_write F get_cert_path cert = Inr F'"
    and later: "walkdir' get_cert_path = [Some \<lparr>de_path = get_cert_path, de_is_file = Some True\<rparr>]"
  shows "get_cert walkdir
      (bootstrap_from_server parse_addr request_certificate address (Some (otp @ [CHR 0x0A]) # lines)) G F =
      Some (\<lparr>CERT = Some cert, FORCE_BOOTSTRAP = False\<rparr>, F', Inr cert) \<and>
    get_cert walkdir' bootstrap \<lparr>CERT = None, FORCE_BOOTSTRAP = False\<rparr> F' =
      Some (\<lparr>CERT = Some cert, FORCE_BOOTSTRAP = False\<rparr>, F', Inr cert)"
proof
  have otp: "otp = generate_otp random 64" using typed announced_otp service by (metis fst_conv)
  have started: "service = BootstrapService_new certificate_file otp created"
    using service by (simp add: run_bootstrap_server_def otp Let_def)
  have "fs_read S certificate_file = Inr cert"
    using identity_on_disk[OF identity] by simp
  then have "call_service S now service otp = Inr cert"
    using clock by (simp add: started call_service_def get_certificate_def BootstrapService_new_def)
  then have "bootstrap_from_server parse_addr request_certificate address
      (Some (otp @ [CHR 0x0A]) # lines) F = Some (F', Inr cert)"
    using prompt_generated_otp[OF random, folded otp] address reached stored
    by (simp add: bootstrap_from_server_def format_bootstrap_address_def del: get_user_input_for_otp.simps)
  then show "get_cert walkdir
      (bootstrap_from_server parse_addr request_certificate address (Some (otp @ [CHR 0x0A]) # lines)) G F =
      Some (\<lparr>CERT = Some cert, FORCE_BOOTSTRAP = False\<rparr>, F', Inr cert)"
    using client by (cases G) (auto simp: get_cert_def)
  have "load_cert walkdir' F' = Inr cert"
    using fs_read_after_write[OF stored]
    by (simp add: load_cert_def later entry_name_def identity_paths)
  then show "get_cert walkdir' bootstrap \<lparr>CERT = None, FORCE_BOOTSTRAP = False\<rparr> F' =
      Some (\<lparr>CERT = Some cert, FORCE_BOOTSTRAP = False\<rparr>, F', Inr cert)"
    by (simp add: get_cert_def)
qed

theorem first_contact_installs_certificate_witness:
  "\<exists>S F'. get_identity (\<lambda>_. Some ''::1'') (Some ''10.0.0.1'') example_self_signed example_config fresh_disk =
      (S, Inr (([1, 2], [3]), True)) \<and>
    get_cert (\<lambda>_. [])
      (bootstrap_from_server (\<lambda>_. Some (\<lambda>port. ''[::1]:42070''))
         (\<lambda>_. call_service S 5 (snd (run_bootstrap_server (\<lambda>_. CHR ''x'') 3 certificate_file ''[::1]:42070'')))
         ''[::1]:9'' [Some (generate_otp (\<lambda>_. CHR ''x'') 64 @ [CHR 0x0A])])
      \<lparr>CERT = None, FORCE_BOOTSTRAP = False\<rparr> fresh_disk =
    Some (\<lparr>CERT = Some [1, 2], FORCE_BOOTSTRAP = False\<rparr>, F', Inr [1, 2])"
proof -
  obtain S where S: "get_identity (\<lambda>_. Some ''::1'') (Some ''10.0.0.1'') example_self_signed
      example_config fresh_disk = (S, Inr (([1, 2], [3]), True))"
    using example_identity by blast
  let ?server = "run_bootstrap_server (\<lambda>_. CHR ''x'') 3 certificate_file ''[::1]:42070''"
  let ?request = "\<lambda>_ :: string. call_service S 5 (snd ?server)"
  have server: "?server = (fst ?server, snd ?server)" by simp
  let ?disk = "put_file [''.harmonic'', ''server.crt''] [1, 2] (clock fresh_disk) fresh_disk"
  have stored: "fs_write fresh_disk get_cert_path [1, 2] = Inr ?disk"
    using write_fresh_disk[of get_cert_path "''server.crt''"] by (simp add: resolve_identity)
  have random: "\<forall>i :: nat. alphanumeric ((\<lambda>_. CHR ''x'') i)" by (simp add: alphanumeric_def)
  have absent: "load_cert (\<lambda>_. []) fresh_disk = Inl (Err NotFoundError)" by (simp add: load_cert_def)
  note contact = first_contact_installs_certificate[where parse_addr = "\<lambda>_. Some (\<lambda>port. ''[::1]:42070'')"
      and request_certificate = ?request and address = "''[::1]:9''" and lines = "[]" and walkdir = "\<lambda>_. []"
      and G = "\<lparr>CERT = None, FORCE_BOOTSTRAP = False\<rparr>" and now = 5
      and walkdir' = "\<lambda>_. [Some \<lparr>de_path = get_cert_path, de_is_file = Some True\<rparr>]", OF S random server]
  have "get_cert (\<lambda>_. [])
      (bootstrap_from_server (\<lambda>_. Some (\<lambda>port. ''[::1]:42070'')) ?request
         ''[::1]:9'' [Some (generate_otp (\<lambda>_. CHR ''x'') 64 @ [CHR 0x0A])])
      \<lparr>CERT = None, FORCE_BOOTSTRAP = False\<rparr> fresh_disk =
    Some (\<lparr>CERT = Some [1, 2], FORCE_BOOTSTRAP = False\<rparr>, ?disk, Inr [1, 2])"
    by (rule conjunct1[OF contact]) (simp_all add: announced_otp otp_lifetime_def absent stored)
  with S show ?thesis by blast
qed

end
