(* ===== verification/Client_Schedule.thy ===== *)
theory Client_Schedule
  imports Sync_Config
begin

section \<open>When the client syncs\<close>

text \<open>
  Models \<open>main\<close> of src/bin/client.rs with its loop, and the two tasks that feed it: the watcher
  (with src/client/watcher.rs), which weighs the changes of the directory and asks for a sync when
  enough have come together, and the scheduler, which asks for one at every interval.  The three
  share a queue.  A run of the client is a list of what happens, in any order the tasks allow.
  The lock of the queue is no part of the state: the main loop keeps it while it waits for its next
  turn on an empty queue, which delays the other two but, as the lock is fair, stops neither.
  \<open>overflow_checks\<close> says how the program was compiled (in a release build a sum wraps around, in
  a debug build it panics).

  Parameters: what the crate notify returns for a new watcher and for watching a path, and the
  arguments of the command line as the crate clap has parsed them.
\<close>

text \<open>The kinds of event of the crate notify that the program tells apart.\<close>

datatype EventKind = Modify | Remove | Create | Unmatched

fun calculate_change_score :: "EventKind \<Rightarrow> Config \<Rightarrow> u64" where
  "calculate_change_score Modify config = modify_weight config"
| "calculate_change_score Remove config = remove_weight config"
| "calculate_change_score Create config = create_weight config"
| "calculate_change_score Unmatched config = 0"

definition should_trigger_sync :: "u64 \<Rightarrow> Config \<Rightarrow> bool" where
  "should_trigger_sync score config \<longleftrightarrow> score > sync_threshold config"

datatype main_phase = Idle | Syncing | Stopped

record client_tasks =
  QUEUE :: "bool list"
  change_score :: u64
  watching :: bool
  scheduling :: bool
  main_loop :: main_phase

text \<open>One item of the watcher's channel: an error ends its loop, and so does a panic.\<close>

definition watch_item :: "bool \<Rightarrow> Config \<Rightarrow> unit + EventKind \<Rightarrow> client_tasks \<Rightarrow> client_tasks" where
  "watch_item overflow_checks config item s =
     (case item of
        Inl _ \<Rightarrow> s\<lparr>watching := False\<rparr>
      | Inr kind \<Rightarrow>
          let weight = calculate_change_score kind config; score = change_score s + weight in
          if overflow_checks \<and> 2 ^ 64 \<le> unat (change_score s) + unat weight then s\<lparr>watching := False\<rparr>
          else if should_trigger_sync score config then s\<lparr>QUEUE := QUEUE s @ [True], change_score := 0\<rparr>
          else s\<lparr>change_score := score\<rparr>)"

text \<open>The main loop takes the first entry, drops all others and waits for the task of the sync; it
  goes on unless that task panicked.\<close>

definition take_request :: "client_tasks \<Rightarrow> client_tasks option" where
  "take_request s = (case QUEUE s of [] \<Rightarrow> None | _ # _ \<Rightarrow> Some (s\<lparr>QUEUE := [], main_loop := Syncing\<rparr>))"

text \<open>A turn of the scheduler's loop.\<close>

definition scheduler_tick :: "client_tasks \<Rightarrow> client_tasks" where
  "scheduler_tick s = s\<lparr>QUEUE := QUEUE s @ [True]\<rparr>"

datatype client_event = Watch "unit + EventKind" | Tick | Start_Sync | Sync_Returned | Sync_Panicked

fun client_act :: "bool \<Rightarrow> Config \<Rightarrow> client_event \<Rightarrow> client_tasks \<Rightarrow> client_tasks option" where
  "client_act overflow_checks config (Watch item) s =
     (if watching s \<and> main_loop s \<noteq> Stopped then Some (watch_item overflow_checks config item s) else None)"
| "client_act overflow_checks config Tick s =
     (if scheduling s \<and> main_loop s \<noteq> Stopped then Some (scheduler_tick s) else None)"
| "client_act overflow_checks config Start_Sync s =
     (if main_loop s = Idle then take_request s else None)"
| "client_act overflow_checks config Sync_Returned s =
     (if main_loop s = Syncing then Some (s\<lparr>main_loop := Idle\<rparr>) else None)"
| "client_act overflow_checks config Sync_Panicked s =
     (if main_loop s = Syncing then Some (s\<lparr>main_loop := Stopped\<rparr>) else None)"

fun client_run :: "bool \<Rightarrow> Config \<Rightarrow> client_event list \<Rightarrow> client_tasks \<Rightarrow> client_tasks option" where
  "client_run overflow_checks config [] s = Some s"
| "client_run overflow_checks config (e # es) s =
     (case client_act overflow_checks config e s of
        None \<Rightarrow> None | Some s' \<Rightarrow> client_run overflow_checks config es s')"

subsection \<open>Starting\<close>

text \<open>\<open>async_watcher\<close> makes a watcher whose callback appends every event, or error, to a
  channel without bound; \<open>async_watch\<close> lets it watch a directory and all below it.\<close>

definition unbounded_send :: "unit + EventKind \<Rightarrow> (unit + EventKind) list \<Rightarrow> (unit + EventKind) list" where
  "unbounded_send res queue = queue @ [res]"

definition async_watcher :: "'error + 'watcher \<Rightarrow> 'error + 'watcher \<times> (unit + EventKind) list" where
  "async_watcher new_watcher = (case new_watcher of Inl e \<Rightarrow> Inl e | Inr w \<Rightarrow> Inr (w, []))"

definition async_watch ::
    "'error + 'watcher \<Rightarrow> ('watcher \<Rightarrow> PathBuf \<Rightarrow> 'error + 'watcher) \<Rightarrow> PathBuf \<Rightarrow> 'error + 'watcher \<times> (unit + EventKind) list" where
  "async_watch new_watcher watch path =
     (case async_watcher new_watcher of
        Inl e \<Rightarrow> Inl e
      | Inr (w, rx) \<Rightarrow> (case watch w path of Inl e \<Rightarrow> Inl e | Inr w' \<Rightarrow> Inr (w', rx)))"

text \<open>A watcher that cannot be made is only logged: the task ends.\<close>

definition start_watcher :: "'error + 'watcher \<times> (unit + EventKind) list \<Rightarrow> client_tasks \<Rightarrow> client_tasks" where
  "start_watcher watched s =
     (case watched of Inl _ \<Rightarrow> s\<lparr>watching := False\<rparr> | Inr _ \<Rightarrow> s\<lparr>watching := True, change_score := 0\<rparr>)"

text \<open>\<open>tokio::time::interval\<close> panics for a period of 0, here in the task of \<open>main\<close>.\<close>

definition start_scheduler :: "Config \<Rightarrow> client_tasks \<Rightarrow> client_tasks outcome" where
  "start_scheduler config s = (if schedule_delay config = 0 then Inl Panic else Inr (s\<lparr>scheduling := True\<rparr>))"

record Args =
  args_bootstrap :: bool
  args_schedule :: bool
  args_event_based :: bool

datatype client_mode = Manual | Loop client_tasks

text \<open>\<open>main\<close> up to the choice between one sync and the loop; \<open>new_watcher\<close> and \<open>watch\<close> are
  those of notify.\<close>

definition client_main ::
    "Args \<Rightarrow> Config \<Rightarrow> 'error + 'watcher \<Rightarrow> ('watcher \<Rightarrow> PathBuf \<Rightarrow> 'error + 'watcher) \<Rightarrow> client_mode outcome" where
  "client_main args config new_watcher watch =
     (let p = sync_path config;
          s0 = \<lparr>QUEUE = [], change_score = 0, watching = False, scheduling = False, main_loop = Idle\<rparr>;
          s1 = (if args_event_based args then start_watcher (async_watch new_watcher watch p) s0 else s0)
      in and_then (if args_schedule args then start_scheduler config s1 else Inr s1) (\<lambda>s2.
         let manual = \<not> args_event_based args \<and> \<not> args_schedule args
         in Inr (if manual then Manual else Loop s2)))"

text \<open>The state the loop starts in: nothing is queued, nothing is weighed.\<close>

definition fresh_tasks :: "client_tasks \<Rightarrow> bool" where
  "fresh_tasks s \<longleftrightarrow> QUEUE s = [] \<and> change_score s = 0 \<and> main_loop s = Idle"

lemma client_main_fresh:
  assumes "client_main args config new_watcher watch = Inr (Loop s)"
  shows "fresh_tasks s" "scheduling s \<Longrightarrow> schedule_delay config \<noteq> 0"
  using assms
  by (auto simp: client_main_def start_scheduler_def start_watcher_def fresh_tasks_def Let_def split: if_splits sum.splits)

subsection \<open>Counting\<close>

fun event_weight :: "Config \<Rightarrow> client_event \<Rightarrow> nat" where
  "event_weight config (Watch (Inr kind)) = unat (calculate_change_score kind config)"
| "event_weight config _ = 0"

definition weight_of :: "Config \<Rightarrow> client_event list \<Rightarrow> nat" where
  "weight_of config es = sum_list (map (event_weight config) es)"

text \<open>What happened since the last sync was started.\<close>

definition since_sync :: "client_event list \<Rightarrow> client_event list" where
  "since_sync es = rev (takeWhile (\<lambda>e. e \<noteq> Start_Sync) (rev es))"

lemma weight_of_snoc [simp]: "weight_of config (es @ [e]) = weight_of config es + event_weight config e"
  by (simp add: weight_of_def)

lemma weight_of_Nil [simp]: "weight_of config [] = 0"
  by (simp add: weight_of_def)

lemma since_sync_snoc [simp]: "since_sync (es @ [e]) = (if e = Start_Sync then [] else since_sync es @ [e])"
  by (simp add: since_sync_def)

lemma client_run_append:
  "client_run checks config (es @ fs) s = Option.bind (client_run checks config es s) (client_run checks config fs)"
  by (induction es arbitrary: s) (simp_all split: option.split)

lemma client_run_snoc:
  "client_run checks config (es @ [e]) s = Some s' \<longleftrightarrow>
     (\<exists>s1. client_run checks config es s = Some s1 \<and> client_act checks config e s1 = Some s')"
  by (auto simp: client_run_append bind_eq_Some_conv split: option.splits)

lemma take_request_simps [simp]:
  "QUEUE s \<noteq> [] \<Longrightarrow> take_request s = Some (s\<lparr>QUEUE := [], main_loop := Syncing\<rparr>)"
  "QUEUE s = [] \<Longrightarrow> take_request s = None"
  by (cases "QUEUE s"; simp add: take_request_def)+

lemma scheduler_tick_simps [simp]:
  "QUEUE (scheduler_tick s) = QUEUE s @ [True]" "change_score (scheduler_tick s) = change_score s"
  by (simp_all add: scheduler_tick_def)

lemma unat_add_le: "unat (a + b :: u64) \<le> unat a + unat b"
  by (simp add: unat_word_ariths)

text \<open>The account of a run: every entry of the queue and every sync started was paid for by a tick
  or by more than the threshold of changes, and the score is what is left over.\<close>

lemma client_account:
  fixes config :: Config
  defines "T \<equiv> unat (sync_threshold config)"
  assumes "fresh_tasks s0" "client_run checks config es s0 = Some s"
  shows "unat (change_score s) \<le> T \<and>
    (count_list es Start_Sync + length (QUEUE s)) * (T + 1) + unat (change_score s) \<le>
      weight_of config es + count_list es Tick * (T + 1)"
  using assms(3)
proof (induction es arbitrary: s rule: rev_induct)
  case Nil
  then show ?case using assms(2) by (auto simp: fresh_tasks_def)
next
  case (snoc e es)
  obtain s1 where run: "client_run checks config es s0 = Some s1" and act: "client_act checks config e s1 = Some s"
    using snoc.prems by (auto simp: client_run_snoc)
  note IH = snoc.IH[OF run]
  show ?case
  proof (cases e)
    case (Watch item)
    show ?thesis
    proof (cases item)
      case (Inl u)
      then show ?thesis using IH act Watch by (auto simp: watch_item_def split: if_splits)
    next
      case (Inr kind)
      let ?w = "calculate_change_score kind config"
      have "unat (change_score s1 + ?w) \<le> unat (change_score s1) + unat ?w" by (rule unat_add_le)
      then show ?thesis
        using IH act Watch Inr
        by (auto simp: watch_item_def should_trigger_sync_def T_def word_less_nat_alt word_le_nat_alt Let_def algebra_simps
            split: if_splits)
    qed
  next
    case Start_Sync
    then show ?thesis using IH act by (cases "QUEUE s1") (auto simp: algebra_simps split: if_splits)
  qed (use IH act in \<open>auto simp: algebra_simps split: if_splits\<close>)
qed

subsection \<open>Properties\<close>

text \<open>C33: Whatever happens in whatever order, the client starts no more syncs than the scheduler has
  ticked plus one for every \<open>sync_threshold + 1\<close> of the weight of the changes it has seen, and
  the score it has kept never exceeds the threshold (also when the sum overflows).\<close>

theorem syncs_are_paid_for:
  assumes "client_main args config new_watcher watch = Inr (Loop s0)" "client_run checks config es s0 = Some s"
  shows "count_list es Start_Sync \<le>
      count_list es Tick + weight_of config es div (unat (sync_threshold config) + 1) \<and>
    change_score s \<le> sync_threshold config"
proof -
  define n where "n = unat (sync_threshold config) + 1"
  note account = client_account[OF client_main_fresh(1)[OF assms(1)] assms(2)]
  have "count_list es Start_Sync * n \<le> weight_of config es + count_list es Tick * n"
    using account by (simp add: n_def algebra_simps)
  then have "count_list es Start_Sync * n div n \<le> (weight_of config es + count_list es Tick * n) div n"
    by (rule div_le_mono)
  moreover have "0 < n" by (simp add: n_def)
  ultimately have "count_list es Start_Sync \<le> count_list es Tick + weight_of config es div n" by simp
  with account show ?thesis by (simp add: word_le_nat_alt n_def)
qed

lemma changes_queue_a_sync:
  fixes config :: Config
  assumes "fresh_tasks s0" "client_run checks config es s0 = Some s"
    and "\<forall>kind. unat (sync_threshold config) + unat (calculate_change_score kind config) < 2 ^ 64"
  shows "QUEUE s = [] \<longrightarrow> weight_of config (since_sync es) \<le> unat (change_score s)"
  using assms(2)
proof (induction es arbitrary: s rule: rev_induct)
  case Nil
  then show ?case by (simp add: since_sync_def)
next
  case (snoc e es)
  obtain s1 where run: "client_run checks config es s0 = Some s1" and act: "client_act checks config e s1 = Some s"
    using snoc.prems by (auto simp: client_run_snoc)
  note IH = snoc.IH[OF run]
  have score: "unat (change_score s1) \<le> unat (sync_threshold config)" using client_account[OF assms(1) run] by simp
  show ?case
  proof (cases e)
    case (Watch item)
    show ?thesis
    proof (cases item)
      case (Inl u)
      then show ?thesis using IH act Watch by (auto simp: watch_item_def split: if_splits)
    next
      case (Inr kind)
      let ?w = "calculate_change_score kind config"
      have fits: "unat (change_score s1) + unat ?w < 2 ^ 64" using score assms(3) by (meson add_le_mono1 order_le_less_trans)
      then have "unat (change_score s1 + ?w) = unat (change_score s1) + unat ?w"
        by (simp add: unat_add_lem[THEN iffD1])
      then show ?thesis
        using IH act Watch Inr fits by (auto simp: watch_item_def Let_def split: if_splits)
    qed
  qed (use IH act in \<open>auto split: if_splits\<close>)
qed

text \<open>C34: No change is forgotten: when the changes since the last sync was started weigh more than
  the threshold, a sync is waiting in the queue, so the main loop, once it is idle, starts one
  (and empties the queue, however many wait).\<close>

theorem enough_changes_start_a_sync:
  assumes "client_main args config new_watcher watch = Inr (Loop s0)" "client_run checks config es s0 = Some s"
    and "\<forall>kind. unat (sync_threshold config) + unat (calculate_change_score kind config) < 2 ^ 64"
    and "unat (sync_threshold config) < weight_of config (since_sync es)" and "main_loop s = Idle"
  shows "client_run checks config (es @ [Start_Sync]) s0 = Some (s\<lparr>QUEUE := [], main_loop := Syncing\<rparr>)"
proof -
  note fresh = client_main_fresh(1)[OF assms(1)]
  have "unat (change_score s) \<le> unat (sync_threshold config)" using client_account[OF fresh assms(2)] by simp
  then have "QUEUE s \<noteq> []" using changes_queue_a_sync[OF fresh assms(2,3)] assms(4) by auto
  then show ?thesis using assms(2,5) by (simp add: client_run_append)
qed

definition default_weights :: Config where
  "default_weights = \<lparr>sync_path = ''/srv'', socket_addr = ''[::1]:9'', schedule_delay = 3600,
     log_level = ''info'', sync_threshold = 20, modify_weight = 2, remove_weight = 5, create_weight = 10,
     config_block_size = 8192\<rparr>"

definition busy_day :: "client_event list" where
  "busy_day = [Watch (Inr Create), Watch (Inr Unmatched), Watch (Inr Create), Watch (Inr Modify)]"

definition busy_start :: client_tasks where
  "busy_start = \<lparr>QUEUE = [], change_score = 0, watching = True, scheduling = False, main_loop = Idle\<rparr>"

lemma busy_main:
  "client_main \<lparr>args_bootstrap = False, args_schedule = False, args_event_based = True\<rparr> default_weights
     (Inr () :: unit + unit) (\<lambda>w p. Inr w) = Inr (Loop busy_start)"
  by (simp add: client_main_def start_watcher_def async_watch_def async_watcher_def busy_start_def)

lemma busy_day_run:
  "client_run True default_weights busy_day busy_start =
     Some \<lparr>QUEUE = [True], change_score = 0, watching = True, scheduling = False, main_loop = Idle\<rparr>"
  by (simp add: busy_day_def busy_start_def watch_item_def should_trigger_sync_def default_weights_def Let_def)

theorem syncs_are_paid_for_witness:
  "count_list busy_day Start_Sync \<le> 0 + 22 div 21 \<and> (0 :: u64) \<le> 20"
  using syncs_are_paid_for[OF busy_main busy_day_run] by (simp add: busy_day_def default_weights_def weight_of_def)

theorem enough_changes_start_a_sync_witness:
  "client_run True default_weights (busy_day @ [Start_Sync]) busy_start =
     Some \<lparr>QUEUE = [], change_score = 0, watching = True, scheduling = False, main_loop = Syncing\<rparr>"
proof -
  have "unat (sync_threshold default_weights) + unat (calculate_change_score kind default_weights) < 2 ^ 64" for kind
    by (cases kind) (simp_all add: default_weights_def)
  then show ?thesis
    using enough_changes_start_a_sync[OF busy_main busy_day_run]
    by (simp add: busy_day_def default_weights_def weight_of_def since_sync_def)
qed

end
