(* ===== verification/Sync_Run.thy ===== *)
theory Sync_Run
  imports Sync_Pool Bootstrap Client_Schedule
begin

section \<open>A whole sync\<close>

text \<open>
  Models \<open>run_sync\<close> and \<open>send_state_to_server\<close> of src/bin/client.rs: load the
  state of the last sync, read the directory, send the differences, carry out the plan that the
  server answers with, and save the state that was read at the beginning.

  Parameters: \<open>connected\<close> is how making the connection ends (certificate, address, TLS),
  \<open>initiate\<close> the remote call, and \<open>transfers\<close> what carrying out a plan does to the
  client's files (\<open>send_data_to_server\<close>, which never fails: see Sync_Pool), \<open>None\<close> when
  it does not return.
\<close>

fun collect_results :: "('a \<Rightarrow> 'b outcome) \<Rightarrow> 'a list \<Rightarrow> 'b list outcome" where
  "collect_results f [] = Inr []"
| "collect_results f (x # xs) = and_then (f x) (\<lambda>y. and_then (collect_results f xs) (\<lambda>ys. Inr (y # ys)))"

definition send_state_to_server ::
    "(ClientSyncState \<Rightarrow> status + ServerSyncStateResponse) \<Rightarrow> string \<Rightarrow> i64 \<Rightarrow> Diff list \<Rightarrow>
     ServerSyncStateResponse outcome" where
  "send_state_to_server initiate sync_uuid last_sync_timestamp diffs =
     and_then (from_anyhow (collect_results file_status_of_diff diffs)) (\<lambda>status_list.
     case initiate \<lparr>cs_sync_uuid = sync_uuid, cs_timestamp_last_sync_micro = last_sync_timestamp,
                    cs_status_list = status_list\<rparr> of
       Inl _ \<Rightarrow> Inl Foreign
     | Inr response \<Rightarrow> Inr response)"

text \<open>The first half, up to the answer of the server.\<close>

definition prepare_sync ::
    "(byte list \<Rightarrow> state_repr option) \<Rightarrow> (byte list \<Rightarrow> byte list) \<Rightarrow> (PathBuf \<Rightarrow> dir_entry option list) \<Rightarrow> i64 \<Rightarrow>
     string \<Rightarrow> Config \<Rightarrow> unit outcome \<Rightarrow> (ClientSyncState \<Rightarrow> status + ServerSyncStateResponse) \<Rightarrow>
     file_system \<Rightarrow> (SyncState \<times> ServerSyncStateResponse) outcome" where
  "prepare_sync decode blake3 walkdir now sync_uuid config connected initiate F =
     and_then connected (\<lambda>_.
     and_then (from_anyhow (load_state decode F)) (\<lambda>last_state.
     and_then (from_anyhow (generate_state F blake3 walkdir now (sync_path config) True)) (\<lambda>now_state.
     and_then (compare_states last_state now_state) (\<lambda>diffs.
     and_then (from_anyhow (send_state_to_server initiate sync_uuid (last_sync_timestamp_micros last_state) diffs))
       (\<lambda>response. Inr (now_state, response))))))"

definition run_sync ::
    "(byte list \<Rightarrow> state_repr option) \<Rightarrow> (state_repr \<Rightarrow> byte list option) \<Rightarrow> (byte list \<Rightarrow> byte list) \<Rightarrow>
     (PathBuf \<Rightarrow> dir_entry option list) \<Rightarrow> i64 \<Rightarrow> string \<Rightarrow> Config \<Rightarrow> unit outcome \<Rightarrow>
     (ClientSyncState \<Rightarrow> status + ServerSyncStateResponse) \<Rightarrow>
     (FileAction list \<Rightarrow> file_system \<Rightarrow> file_system option) \<Rightarrow> file_system \<Rightarrow> (file_system \<times> unit outcome) option" where
  "run_sync decode encode blake3 walkdir now sync_uuid config connected initiate transfers F =
     (case prepare_sync decode blake3 walkdir now sync_uuid config connected initiate F of
        Inl e \<Rightarrow> Some (F, Inl e)
      | Inr (now_state, response) \<Rightarrow>
          (case transfers (sr_sync_plan response) F of
             None \<Rightarrow> None
           | Some F1 \<Rightarrow>
               (case from_anyhow (save_state encode now_state F1) of
                  Inl e \<Rightarrow> Some (F1, Inl e)
                | Inr F2 \<Rightarrow> Some (F2, Inr ()))))"

subsection \<open>What a sync asks for\<close>

lemma collect_results_Inr:
  "collect_results f xs = Inr ys \<longleftrightarrow> list_all2 (\<lambda>x y. f x = Inr y) xs ys"
proof (induction xs arbitrary: ys)
  case Nil
  then show ?case by (cases ys) auto
next
  case (Cons x xs)
  then show ?case by (cases ys) (auto simp: and_then_Inr_iff)
qed

text \<open>The decision of the server on a reported change.\<close>

definition reported :: "change_entry \<Rightarrow> FileStatus" where
  "reported e = \<lparr>fs_path = [], fs_timestamp = Some (snd (snd e)), fs_file_type = 0, fs_hash = fst (snd e)\<rparr>"

lemma decide_cong:
  "fs_hash r = fs_hash r' \<Longrightarrow> fs_timestamp r = fs_timestamp r' \<Longrightarrow> decide l (Some r) = decide l (Some r')"
  by (cases l) (simp_all add: Let_def)

lemma decide_diffs:
  assumes "collect_results file_status_of_diff diffs = Inr files" "distinct (map (\<lambda>d. components (diff_path d)) diffs)"
  shows "decide l (remote_map files c) = decide l (map_option reported (diff_map diffs c))"
proof -
  define st where "st d = \<lparr>fs_path = diff_path d, fs_timestamp = Some (diff_modified_ts d), fs_file_type = 0,
    fs_hash = diff_hash d\<rparr>" for d :: Diff
  have "file_status_of_diff d = Inr r \<Longrightarrow> r = st d" for d :: Diff and r
    by (auto simp: file_status_of_diff_def and_then_Inr_iff ok_or_def to_str_def st_def split: option.splits if_splits)
  then have files: "files = map st diffs"
    using assms(1) by (auto simp: collect_results_Inr list_eq_iff_nth_eq list_all2_conv_all_nth)
  let ?xs = "map (\<lambda>d. (components (diff_path d), st d)) diffs"
  have "distinct (map fst ?xs)" using assms(2) by (simp add: o_def)
  then have "map_of (rev ?xs) = map_of ?xs" by (subst map_of_inject_set) (simp_all add: rev_map[symmetric])
  then have "remote_map files = map_of ?xs" by (simp add: remote_map_def files st_def o_def rev_map)
  moreover have "decide l (map_of ?xs c) = decide l (map_option reported (diff_map diffs c))"
    unfolding diff_map_def
    by (induction diffs) (auto simp: st_def reported_def intro!: decide_cong)
  ultimately show ?thesis by simp
qed

text \<open>The service, asked by a client: the answer of the first call in some state of its table of
  sessions.\<close>

definition service_answer ::
    "(string \<Rightarrow> string option) \<Rightarrow> (i64 \<Rightarrow> bool) \<Rightarrow> i64 \<Rightarrow> SyncState \<Rightarrow> HarmonicService \<Rightarrow> ClientSyncState \<Rightarrow>
     status + ServerSyncStateResponse" where
  "service_answer uuid_from_str micros_ok now st S msg =
     snd (harmonize_client_initiate_sync uuid_from_str micros_ok now (Inr st) msg S)"

lemma service_answer_Inr:
  "service_answer uuid_from_str micros_ok now st S msg = Inr response \<Longrightarrow>
     generate_sync_plan st (cs_status_list msg) = Inr (sr_sync_plan response)"
  by (auto simp: service_answer_def harmonize_client_initiate_sync_def split: if_splits sum.splits option.splits)

lemma send_state_Inr:
  assumes "send_state_to_server initiate sync_uuid t diffs = Inr response"
  obtains files where "collect_results file_status_of_diff diffs = Inr files"
    "initiate \<lparr>cs_sync_uuid = sync_uuid, cs_timestamp_last_sync_micro = t, cs_status_list = files\<rparr> = Inr response"
proof -
  obtain files where "collect_results file_status_of_diff diffs = Inr files"
    using assms by (auto simp: send_state_to_server_def and_then_Inr_iff)
  with assms that show ?thesis by (auto simp: send_state_to_server_def split: sum.splits)
qed

definition plan_decision :: "FileMetadata option \<Rightarrow> change_entry option \<Rightarrow> (i32 \<times> Timestamp option) option" where
  "plan_decision server_version e =
     map_option (\<lambda>(d, t). (direction_i32 d, Some t)) (decide server_version (map_option reported e))"

lemma prepare_sync_plan:
  assumes "prepare_sync decode blake3 walkdir now sync_uuid config connected
      (service_answer uuid_from_str micros_ok server_now st S) F = Inr (now_state, response)"
    and "load_state decode F = Inr last_state"
  shows "generate_state F blake3 walkdir now (sync_path config) True = Inr now_state"
    "plan_map (sr_sync_plan response) c =
       plan_decision (state_map st c) (if hidden_key c then None else change_of (state_map now_state c) (state_map last_state c))"
proof -
  obtain diffs where now: "generate_state F blake3 walkdir now (sync_path config) True = Inr now_state"
    and diffs: "compare_states last_state now_state = Inr diffs"
    and sent: "send_state_to_server (service_answer uuid_from_str micros_ok server_now st S) sync_uuid
      (last_sync_timestamp_micros last_state) diffs = Inr response"
    using assms by (auto simp: prepare_sync_def and_then_Inr_iff)
  obtain files where files: "collect_results file_status_of_diff diffs = Inr files"
    and plan: "generate_sync_plan st files = Inr (sr_sync_plan response)"
    using sent by (rule send_state_Inr) (auto dest: service_answer_Inr)
  show "generate_state F blake3 walkdir now (sync_path config) True = Inr now_state" by (rule now)
  have "distinct (map (\<lambda>d. components (diff_path d)) diffs)"
    using compare_states_sorted[OF diffs] strict_sorted_iff by blast
  then show "plan_map (sr_sync_plan response) c =
      plan_decision (state_map st c) (if hidden_key c then None else change_of (state_map now_state c) (state_map last_state c))"
    using decide_diffs[OF files] compare_states_diff_map[OF diffs]
    by (simp add: generate_sync_plan_map[OF plan] plan_decision_def)
qed

subsection \<open>The sync after a sync\<close>

text \<open>What the next sync starts from is the state that was read before the files were transferred.\<close>

lemma run_sync_saves:
  assumes codec: "\<forall>r b. encode r = Some b \<longrightarrow> decode b = Some r \<and> utf8_valid (bytes_to_string b)"
    and run: "run_sync decode encode blake3 walkdir now sync_uuid config connected initiate transfers F = Some (F2, Inr ())"
    and read: "generate_state F blake3 walkdir now (sync_path config) True = Inr N1"
      "\<forall>(p, m) \<in> set (tree N1). normal_timestamp (fm_modified_ts m)"
    and kept: "fs_read F3 state_file_path = fs_read F2 state_file_path"
  shows "load_state decode F3 = Inr (saved_state N1)"
proof -
  obtain response F1 where "prepare_sync decode blake3 walkdir now sync_uuid config connected initiate F = Inr (N1, response)"
      and saved: "save_state encode N1 F1 = Inr F2"
    using run read(1)
    by (auto simp: run_sync_def prepare_sync_def and_then_Inr_iff and_then_Inl_iff split: sum.splits prod.splits option.splits)
  have "bt_inv components (tree N1)" using read(1) by (auto simp: generate_state_Inr dest: collect_files_inv)
  from load_after_save[OF codec this read(2) saved] show ?thesis
    by (simp add: load_state_def fs_read_to_string_def kept)
qed

lemma state_map_saved:
  "state_map (saved_state s) c = map_option (\<lambda>m. m\<lparr>fm_modified_ts := timestamp_micros (fm_modified_ts m)\<rparr>) (state_map s c)"
proof -
  have "bt_abs components (map (\<lambda>(p, m). (p, f m)) t) c = map_option f (bt_abs components t c)"
    for f :: "FileMetadata \<Rightarrow> FileMetadata" and t
    by (induction t) auto
  then show ?thesis by (simp add: state_map_def saved_state_def)
qed

text \<open>An entry of a plan, from its map.\<close>

lemma plan_map_entry: "plan_map plan c = Some (d, t) \<Longrightarrow> \<exists>a \<in> set plan. components (fa_path a) = c \<and> fa_direction a = d"
  unfolding plan_map_def by (drule map_of_SomeD) auto

subsection \<open>Properties\<close>

text \<open>C6: What a sync asks for and what the service plans, composed: for every path the plan is the
  decision on three states: the server's version now, the client's version now, and the client's
  version in the state file.  A path is in the plan exactly when the server has it or the client
  reports a change of it; the client reports a change only by its hash, and an unchanged file
  counts as missing.\<close>

theorem sync_plan_from_three_states:
  assumes "prepare_sync decode blake3 walkdir now sync_uuid config connected
      (service_answer uuid_from_str micros_ok server_now st S) F = Inr (now_state, response)"
    and "load_state decode F = Inr last_state"
  shows "generate_state F blake3 walkdir now (sync_path config) True = Inr now_state \<and>
    (\<forall>c. plan_map (sr_sync_plan response) c =
       plan_decision (state_map st c)
         (if hidden_key c then None else change_of (state_map now_state c) (state_map last_state c)))"
  using prepare_sync_plan[OF assms] by blast

text \<open>C17: The sync after a sync can hang: let a file be one that the last sync brought to the client
  (it was not in the state that sync saved) and that the server still has as it was, or one the
  client knew then, has deleted since, and the server still has.  Then the next plan lists it with
  the direction Skip, and the task of such an entry never returns.\<close>

theorem arrived_or_deleted_file_hangs_next_sync:
  assumes codec: "\<forall>r b. encode r = Some b \<longrightarrow> decode b = Some r \<and> utf8_valid (bytes_to_string b)"
    and first_sync: "run_sync decode encode blake3 walkdir now sync_uuid config connected initiate transfers F = Some (F2, Inr ())"
      "generate_state F blake3 walkdir now (sync_path config) True = Inr N1"
      "\<forall>(p, m) \<in> set (tree N1). normal_timestamp (fm_modified_ts m)"
    and kept: "fs_read F3 state_file_path = fs_read F2 state_file_path"
    and next_sync: "prepare_sync decode blake3 walkdir' now' sync_uuid' config connected'
      (service_answer uuid_from_str micros_ok server_now st S) F3 = Inr (N2, response)"
    and known: "\<not> hidden_key c" "state_map st c = Some m"
    and "state_map N1 c = None \<and> map_option fm_hash (state_map N2 c) = Some (fm_hash m) \<or>
      map_option fm_hash (state_map N1 c) = Some (fm_hash m) \<and> state_map N2 c = None"
  shows "\<exists>a \<in> set (sr_sync_plan response). components (fa_path a) = c \<and> fa_direction a = direction_i32 Skip \<and>
    (\<forall>w w'. \<not> transfer_task set_file_mtime C P a w w')"
proof -
  have "plan_map (sr_sync_plan response) c =
      plan_decision (Some m) (change_of (state_map N2 c) (state_map (saved_state N1) c))"
    using prepare_sync_plan(2)[OF next_sync run_sync_saves[OF codec first_sync kept]] known by simp
  then have "\<exists>t. plan_map (sr_sync_plan response) c = Some (direction_i32 Skip, t)"
    using assms(9) by (auto simp: plan_decision_def state_map_saved reported_def)
  then obtain a where "a \<in> set (sr_sync_plan response)" "components (fa_path a) = c" "fa_direction a = direction_i32 Skip"
    using plan_map_entry by blast
  then show ?thesis using skipped_task_never_returns[of a set_file_mtime C P] by auto
qed

text \<open>C18: An unchanged file is downloaded again, whatever the server has: when the client's file
  has the hash it had when the last sync saved its state, and the server has any version of it,
  the next plan downloads that version, also when the client's is newer.  So when the upload of a
  changed file fails, the next sync overwrites the change with the old version of the server
  (the failed sync has saved the hash of the change).\<close>

theorem unchanged_file_is_downloaded:
  assumes codec: "\<forall>r b. encode r = Some b \<longrightarrow> decode b = Some r \<and> utf8_valid (bytes_to_string b)"
    and first_sync: "run_sync decode encode blake3 walkdir now sync_uuid config connected initiate transfers F = Some (F2, Inr ())"
      "generate_state F blake3 walkdir now (sync_path config) True = Inr N1"
      "\<forall>(p, m) \<in> set (tree N1). normal_timestamp (fm_modified_ts m)"
    and kept: "fs_read F3 state_file_path = fs_read F2 state_file_path"
    and next_sync: "prepare_sync decode blake3 walkdir' now' sync_uuid' config connected'
      (service_answer uuid_from_str micros_ok server_now st S) F3 = Inr (N2, response)"
    and known: "state_map st c = Some m" "state_map N1 c \<noteq> None"
      "map_option fm_hash (state_map N2 c) = map_option fm_hash (state_map N1 c)"
  shows "plan_map (sr_sync_plan response) c = Some (direction_i32 Download, Some (fm_modified_ts m))"
proof -
  have "change_of (state_map N2 c) (state_map (saved_state N1) c) = None"
    using known by (auto simp: state_map_saved)
  moreover have "plan_map (sr_sync_plan response) c =
      plan_decision (Some m) (if hidden_key c then None else change_of (state_map N2 c) (state_map (saved_state N1) c))"
    using prepare_sync_plan(2)[OF next_sync run_sync_saves[OF codec first_sync kept]] known(1) by simp
  ultimately show ?thesis by (simp add: plan_decision_def)
qed

subsection \<open>One sync from end to end\<close>

lemma service_plan_distinct:
  assumes "prepare_sync decode blake3 walkdir now sync_uuid config connected
      (service_answer uuid_from_str micros_ok server_now st S) F = Inr (now_state, response)"
  shows "distinct (sr_sync_plan response)"
proof -
  obtain t diffs where "send_state_to_server (service_answer uuid_from_str micros_ok server_now st S) sync_uuid t diffs = Inr response"
    using assms by (auto simp: prepare_sync_def and_then_Inr_iff)
  then obtain files where "generate_sync_plan st files = Inr (sr_sync_plan response)"
    by (rule send_state_Inr) (auto dest: service_answer_Inr)
  then have "distinct (map (\<lambda>a. components (fa_path a)) (sr_sync_plan response))"
    using generate_sync_plan_sorted strict_sorted_iff by blast
  then show ?thesis by (simp add: distinct_map)
qed

lemma save_state_contents:
  assumes "save_state encode s F = Inr F'" "resolve F q \<noteq> resolve F state_file_path"
  shows "contents F' q = contents F q"
proof -
  obtain b where "fs_write F state_file_path b = Inr F'"
    using assms(1) by (auto simp: save_state_def and_then_Inr_iff from_io_Inr_iff)
  then show ?thesis using assms(2) by (auto simp: fs_write_Inr contents_def)
qed

lemma plan_decision_None: "plan_decision l e = None \<longleftrightarrow> l = None \<and> e = None"
  by (cases l; cases e) (auto simp: plan_decision_def Let_def)

text \<open>C1: One sync from end to end: the client asks, the service answers with its plan, and the pool
  carries the plan out.  The plan names every file of the server and every visible file whose hash
  changed on the client since the last sync.  If the planned files are ready and not in each
  other's way, then when the sync returns (also when saving the state failed) each of them has the
  same bytes on both sides.\<close>

theorem sync_makes_files_agree:
  assumes ask: "prepare_sync decode (pa_blake3 C) walkdir now sync_uuid (pa_config C) connected
      (service_answer uuid_from_str micros_ok server_now st sessions) F = Inr (now_state, response)"
    and last: "load_state decode F = Inr last_state"
    and ready: "\<forall>a \<in> set (sr_sync_plan response). ready set_file_mtime C S B a \<lparr>client_files = F, server_files = G\<rparr>"
    and apart: "\<forall>a \<in> set (sr_sync_plan response). \<forall>b \<in> set (sr_sync_plan response). a \<noteq> b \<longrightarrow> apart C S a b"
    and carried_out: "(pool_step (transfer_task set_file_mtime C S) ^^ k)
      (start_pool (sr_sync_plan response) \<lparr>client_files = F, server_files = G\<rparr>) p" "pool_done p"
      "transfers (sr_sync_plan response) F = Some (client_files (world p))"
    and state_file: "\<forall>a \<in> set (sr_sync_plan response). resolve (pa_fs C) (client_path C a) \<noteq> resolve (pa_fs C) state_file_path"
    and result: "run_sync decode encode (pa_blake3 C) walkdir now sync_uuid (pa_config C) connected
      (service_answer uuid_from_str micros_ok server_now st sessions) transfers F = Some (F', r)"
  shows "(\<forall>a \<in> set (sr_sync_plan response). contents F' (client_path C a) = Some (B a) \<and>
      contents (server_files (world p)) (server_path S a) = Some (B a)) \<and>
    (\<forall>c. state_map st c \<noteq> None \<or> \<not> hidden_key c \<and> change_of (state_map now_state c) (state_map last_state c) \<noteq> None \<longrightarrow>
      (\<exists>a \<in> set (sr_sync_plan response). components (fa_path a) = c))"
proof (intro conjI ballI allI impI)
  fix a
  assume a: "a \<in> set (sr_sync_plan response)"
  have "delivered C S B a (world p)"
    using sync.pool_delivers[OF carried_out(1) service_plan_distinct[OF ask] ready apart] carried_out(2) a by blast
  then have cwd: "cwd (client_files (world p)) = cwd (pa_fs C)"
    and client: "contents (client_files (world p)) (client_path C a) = Some (B a)"
    and server: "contents (server_files (world p)) (server_path S a) = Some (B a)"
    by (simp_all add: delivered_def)
  show "contents (server_files (world p)) (server_path S a) = Some (B a)" by (rule server)
  have "F' = client_files (world p) \<or> save_state encode now_state (client_files (world p)) = Inr F'"
    using result ask carried_out(3) by (auto simp: run_sync_def split: sum.splits)
  moreover have "resolve (client_files (world p)) (client_path C a) \<noteq> resolve (client_files (world p)) state_file_path"
    using state_file a resolve_cwd[OF cwd] by simp
  ultimately show "contents F' (client_path C a) = Some (B a)"
    using client save_state_contents by metis
next
  fix c
  assume "state_map st c \<noteq> None \<or> \<not> hidden_key c \<and> change_of (state_map now_state c) (state_map last_state c) \<noteq> None"
  then have "plan_map (sr_sync_plan response) c \<noteq> None"
    using prepare_sync_plan(2)[OF ask last, of c] by (auto simp: plan_decision_None)
  then obtain d t where "plan_map (sr_sync_plan response) c = Some (d, t)" by auto
  then show "\<exists>a \<in> set (sr_sync_plan response). components (fa_path a) = c"
    using plan_map_entry by blast
qed

subsection \<open>Instances\<close>

text \<open>A client with an empty directory, a first sync that brings it the file f, and a second sync.\<close>

definition client_disk :: file_system where
  "client_disk = \<lparr>nodes = [[''.harmonic''] \<mapsto> Dir, [''srv''] \<mapsto> Dir], cwd = [], fault = (\<lambda>_. None),
     clock = \<lparr>mt_secs = 9, mt_nanos = 0\<rparr>\<rparr>"

definition bring_f :: "FileAction list \<Rightarrow> file_system \<Rightarrow> file_system option" where
  "bring_f plan F = Some (put_file [''srv'', ''f''] [7] \<lparr>mt_secs = 3, mt_nanos = 0\<rparr> F)"

definition walk_f :: "PathBuf \<Rightarrow> dir_entry option list" where
  "walk_f root = [Some \<lparr>de_path = ''/srv/f'', de_is_file = Some True\<rparr>]"

definition nothing :: SyncState where
  "nothing = \<lparr>last_sync_timestamp_micros = 5, tree = []\<rparr>"

definition meta_f :: FileMetadata where
  "meta_f = \<lparr>fm_hash = [7], fm_modified_ts = \<lparr>ts_seconds = 3, ts_nanos = 0\<rparr>\<rparr>"

definition knows_f :: SyncState where
  "knows_f = \<lparr>last_sync_timestamp_micros = 7, tree = [(''f'', meta_f)]\<rparr>"

definition encode_one :: "state_repr \<Rightarrow> byte list option" where
  "encode_one r = (if r = state_to_repr nothing then Some [123, 125]
     else if r = state_to_repr knows_f then Some [91, 93] else None)"

definition decode_one :: "byte list \<Rightarrow> state_repr option" where
  "decode_one b = (if b = [123, 125] then Some (state_to_repr nothing)
     else if b = [91, 93] then Some (state_to_repr knows_f) else None)"

lemma codec_one: "\<forall>r b. encode_one r = Some b \<longrightarrow> decode_one b = Some r \<and> utf8_valid (bytes_to_string b)"
proof -
  have "utf8_valid (bytes_to_string [123, 125])" "utf8_valid (bytes_to_string [91, 93])" by code_simp+
  then show ?thesis by (simp add: encode_one_def decode_one_def)
qed

definition server_state :: SyncState where
  "server_state = \<lparr>last_sync_timestamp_micros = 8, tree = [(''f'', meta_f)]\<rparr>"

definition no_sessions :: HarmonicService where
  "no_sessions = \<lparr>sync_sessions = Map.empty, service_config = example_config\<rparr>"

definition answer_f :: "ClientSyncState \<Rightarrow> status + ServerSyncStateResponse" where
  "answer_f = service_answer Some (\<lambda>_. True) 6 server_state no_sessions"

definition first_disk :: file_system where
  "first_disk = put_file [''.harmonic'', ''state.json''] [123, 125] \<lparr>mt_secs = 9, mt_nanos = 0\<rparr>
     (put_file [''srv'', ''f''] [7] \<lparr>mt_secs = 3, mt_nanos = 0\<rparr> client_disk)"

lemma instance_paths:
  "resolve F state_file_path = cwd F @ [''.harmonic'', ''state.json'']"
  "resolve F ''/srv/f'' = [''srv'', ''f'']"
  "get_relative_path ''/srv/f'' ''/srv'' = Inr ''f''"
  "has_hidden_components ''/srv/f'' = False" "has_hidden_components ''f'' = False"
  "components ''f'' = [Normal ''f'']" "hidden_key [Normal ''f''] = False" "to_str ''f'' = Some ''f''"
proof -
  have "components state_file_path = [CurDir, Normal ''.harmonic'', Normal ''state.json'']"
    "components ''/srv/f'' = [RootDir, Normal ''srv'', Normal ''f'']" by code_simp+
  then show "resolve F state_file_path = cwd F @ [''.harmonic'', ''state.json'']" "resolve F ''/srv/f'' = [''srv'', ''f'']"
    by (simp_all add: resolve_def)
  show "get_relative_path ''/srv/f'' ''/srv'' = Inr ''f''" "has_hidden_components ''/srv/f'' = False"
    "has_hidden_components ''f'' = False" "components ''f'' = [Normal ''f'']" "to_str ''f'' = Some ''f''" by code_simp+
  then show "hidden_key [Normal ''f''] = False" by (metis has_hidden_components_key)
qed

lemma load_client_disk: "load_state decode_one client_disk = Inr \<lparr>last_sync_timestamp_micros = 0, tree = []\<rparr>"
  by (simp add: load_state_def fs_read_to_string_def fs_read_def instance_paths client_disk_def lookup_file_def
      is_dir_def missing_kind_def upt_conv_Cons Let_def)

lemma first_sync_instance:
  "run_sync decode_one encode_one id (\<lambda>_. []) 5 ''u'' example_config (Inr ()) answer_f bring_f client_disk =
     Some (first_disk, Inr ())"
proof -
  have sp: "sync_path example_config = ''/srv''" by simp
  note load = load_client_disk
  have read: "generate_state client_disk id (\<lambda>_. []) 5 ''/srv'' True = Inr nothing"
    by (simp add: generate_state_def nothing_def)
  have same: "compare_states \<lparr>last_sync_timestamp_micros = 0, tree = []\<rparr> nothing = Inr []"
    unfolding nothing_def by code_simp
  have "generate_sync_plan server_state [] = Inr [\<lparr>fa_path = ''f'', fa_direction = 1,
      fa_timestamp_latest_modified = Some \<lparr>ts_seconds = 3, ts_nanos = 0\<rparr>\<rparr>]"
    by code_simp
  then obtain response where "send_state_to_server answer_f ''u'' 0 [] = Inr response"
    by (auto simp: send_state_to_server_def answer_f_def service_answer_def harmonize_client_initiate_sync_def)
  then have prep: "prepare_sync decode_one id (\<lambda>_. []) 5 ''u'' example_config (Inr ()) answer_f client_disk = Inr (nothing, response)"
    by (simp add: prepare_sync_def sp load read same)
  have "save_state encode_one nothing (put_file [''srv'', ''f''] [7] \<lparr>mt_secs = 3, mt_nanos = 0\<rparr> client_disk) = Inr first_disk"
    by (simp add: save_state_def encode_one_def fs_write_def fs_create_def instance_paths first_disk_def)
      (simp add: client_disk_def is_dir_def Let_def)
  then show ?thesis by (simp add: run_sync_def prep bring_f_def)
qed

lemma read_first_disk:
  "generate_state first_disk id walk_f 7 ''/srv'' True =
     Inr knows_f"
proof -
  have "FileMetadata_new first_disk id ''/srv/f'' = Inr meta_f"
    by (simp add: FileMetadata_new_def fs_read_def fs_modified_def instance_paths lookup_file_def first_disk_def
        client_disk_def is_dir_def meta_f_def Let_def)
  then show ?thesis
    by (simp add: generate_state_def walk_f_def keep_entry_def instance_paths knows_f_def Let_def)
qed

lemma load_first_disk: "load_state decode_one first_disk = Inr (state_of_repr (state_to_repr nothing))"
proof -
  have "fs_read first_disk state_file_path = Inr [123, 125]"
    by (simp add: fs_read_Inr instance_paths) (simp add: first_disk_def client_disk_def is_dir_def)
  moreover have "utf8_valid (bytes_to_string [123, 125])" by code_simp
  ultimately show ?thesis by (simp add: load_state_def fs_read_to_string_def decode_one_def)
qed

lemma second_sync_instance:
  "\<exists>response. prepare_sync decode_one id walk_f 7 ''v'' example_config (Inr ()) answer_f first_disk = Inr (knows_f, response)"
proof -
  note load = load_first_disk
  let ?diffs = "[\<lparr>diff_path = ''f'', change = Added, diff_hash = [7], diff_modified_ts = \<lparr>ts_seconds = 3, ts_nanos = 0\<rparr>\<rparr>]"
  have diffs: "compare_states (state_of_repr (state_to_repr nothing)) knows_f = Inr ?diffs"
    by code_simp
  let ?status = "\<lparr>fs_path = ''f'', fs_timestamp = Some \<lparr>ts_seconds = 3, ts_nanos = 0\<rparr>, fs_file_type = 0, fs_hash = [7]\<rparr>"
  have "generate_sync_plan server_state [?status] = Inr [\<lparr>fa_path = ''f'', fa_direction = 0,
      fa_timestamp_latest_modified = Some timestamp_default\<rparr>]"
    by code_simp
  then obtain response where "send_state_to_server answer_f ''v''
      (last_sync_timestamp_micros (state_of_repr (state_to_repr nothing))) ?diffs = Inr response"
    by (auto simp: send_state_to_server_def answer_f_def service_answer_def harmonize_client_initiate_sync_def
        file_status_of_diff_def instance_paths)
  then show ?thesis by (simp add: prepare_sync_def load read_first_disk diffs)
qed

lemma nothing_normal: "\<forall>(p, m) \<in> set (tree nothing). normal_timestamp (fm_modified_ts m)"
  by (simp add: nothing_def)

lemma knows_f_normal: "\<forall>(p, m) \<in> set (tree knows_f). normal_timestamp (fm_modified_ts m)"
  by (simp add: knows_f_def meta_f_def normal_timestamp_def)

lemma instance_maps:
  "state_map nothing [Normal ''f''] = None" "state_map knows_f [Normal ''f''] = Some meta_f"
  "state_map server_state [Normal ''f''] = Some meta_f"
  by (simp_all add: state_map_def nothing_def knows_f_def server_state_def instance_paths)

theorem arrived_or_deleted_file_hangs_next_sync_witness:
  "\<exists>response. prepare_sync decode_one id walk_f 7 ''v'' example_config (Inr ()) answer_f first_disk = Inr (knows_f, response) \<and>
     (\<exists>a \<in> set (sr_sync_plan response). components (fa_path a) = [Normal ''f''] \<and> fa_direction a = direction_i32 Skip \<and>
        (\<forall>w w'. \<not> transfer_task utimens (example_party Map.empty) (example_party Map.empty) a w w'))"
proof -
  obtain response where upcoming: "prepare_sync decode_one id walk_f 7 ''v'' example_config (Inr ()) answer_f first_disk =
      Inr (knows_f, response)"
    using second_sync_instance by blast
  have read: "generate_state client_disk id (\<lambda>_. []) 5 (sync_path example_config) True = Inr nothing"
    by (simp add: generate_state_def nothing_def)
  from arrived_or_deleted_file_hangs_next_sync[OF codec_one first_sync_instance read nothing_normal refl
      upcoming[unfolded answer_f_def], of "[Normal ''f'']" meta_f utimens "example_party Map.empty" "example_party Map.empty"]
  show ?thesis using upcoming instance_maps instance_paths by auto
qed

theorem sync_plan_from_three_states_witness:
  "\<exists>response. prepare_sync decode_one id walk_f 7 ''v'' example_config (Inr ()) answer_f first_disk = Inr (knows_f, response) \<and>
     plan_map (sr_sync_plan response) [Normal ''f''] = Some (0, Some timestamp_default)"
proof -
  obtain response where upcoming: "prepare_sync decode_one id walk_f 7 ''v'' example_config (Inr ()) answer_f first_disk =
      Inr (knows_f, response)"
    using second_sync_instance by blast
  have "state_map (state_of_repr (state_to_repr nothing)) [Normal ''f''] = None"
    by (simp add: nothing_def state_to_repr_def state_of_repr_def state_map_def)
  then have "plan_map (sr_sync_plan response) [Normal ''f''] = Some (0, Some timestamp_default)"
    using sync_plan_from_three_states[OF upcoming[unfolded answer_f_def] load_first_disk] instance_maps instance_paths
    by (simp add: plan_decision_def reported_def meta_f_def)
  with upcoming show ?thesis by blast
qed

text \<open>The second sync of that client transfers nothing, and in the third the server has an older
  version of the file.\<close>

definition second_disk :: file_system where
  "second_disk = put_file [''.harmonic'', ''state.json''] [91, 93] \<lparr>mt_secs = 9, mt_nanos = 0\<rparr> first_disk"

definition older_f :: FileMetadata where
  "older_f = \<lparr>fm_hash = [1], fm_modified_ts = \<lparr>ts_seconds = 1, ts_nanos = 0\<rparr>\<rparr>"

definition older_state :: SyncState where
  "older_state = \<lparr>last_sync_timestamp_micros = 8, tree = [(''f'', older_f)]\<rparr>"

lemma second_sync_saved:
  "run_sync decode_one encode_one id walk_f 7 ''v'' example_config (Inr ()) answer_f (\<lambda>_ F. Some F) first_disk =
     Some (second_disk, Inr ())"
proof -
  have "encode_one (state_to_repr knows_f) = Some [91, 93]" by code_simp
  then have "save_state encode_one knows_f first_disk = Inr second_disk"
    by (simp add: save_state_def fs_write_def fs_create_def instance_paths second_disk_def)
      (simp add: first_disk_def client_disk_def is_dir_def Let_def)
  then show ?thesis using second_sync_instance by (auto simp: run_sync_def)
qed

lemma third_sync_instance:
  "\<exists>response. prepare_sync decode_one id walk_f 7 ''w'' example_config (Inr ())
     (service_answer Some (\<lambda>_. True) 6 older_state no_sessions) second_disk = Inr (knows_f, response)"
proof -
  have "fs_read second_disk state_file_path = Inr [91, 93]"
    by (simp add: fs_read_Inr instance_paths) (simp add: second_disk_def first_disk_def client_disk_def is_dir_def)
  moreover have "utf8_valid (bytes_to_string [91, 93])" by code_simp
  ultimately have load: "load_state decode_one second_disk = Inr (state_of_repr (state_to_repr knows_f))"
    by (simp add: load_state_def fs_read_to_string_def decode_one_def)
  have "FileMetadata_new second_disk id ''/srv/f'' = Inr meta_f"
    by (simp add: FileMetadata_new_def fs_read_def fs_modified_def instance_paths lookup_file_def second_disk_def first_disk_def
        client_disk_def is_dir_def meta_f_def Let_def)
  then have read: "generate_state second_disk id walk_f 7 ''/srv'' True = Inr knows_f"
    by (simp add: generate_state_def walk_f_def keep_entry_def instance_paths knows_f_def Let_def)
  have same: "compare_states (state_of_repr (state_to_repr knows_f)) knows_f = Inr []" by code_simp
  have "generate_sync_plan older_state [] = Inr [\<lparr>fa_path = ''f'', fa_direction = 1,
      fa_timestamp_latest_modified = Some \<lparr>ts_seconds = 1, ts_nanos = 0\<rparr>\<rparr>]"
    by code_simp
  then obtain response where "send_state_to_server (service_answer Some (\<lambda>_. True) 6 older_state no_sessions) ''w''
      (last_sync_timestamp_micros (state_of_repr (state_to_repr knows_f))) [] = Inr response"
    by (auto simp: send_state_to_server_def service_answer_def harmonize_client_initiate_sync_def)
  then show ?thesis by (simp add: prepare_sync_def load read same)
qed

theorem unchanged_file_is_downloaded_witness:
  "\<exists>response. prepare_sync decode_one id walk_f 7 ''w'' example_config (Inr ())
       (service_answer Some (\<lambda>_. True) 6 older_state no_sessions) second_disk = Inr (knows_f, response) \<and>
     proto_timestamp_gt (fm_modified_ts meta_f) (fm_modified_ts older_f) \<and>
     plan_map (sr_sync_plan response) [Normal ''f''] = Some (direction_i32 Download, Some (fm_modified_ts older_f))"
proof -
  obtain response where upcoming: "prepare_sync decode_one id walk_f 7 ''w'' example_config (Inr ())
      (service_answer Some (\<lambda>_. True) 6 older_state no_sessions) second_disk = Inr (knows_f, response)"
    using third_sync_instance by blast
  have read: "generate_state first_disk id walk_f 7 (sync_path example_config) True = Inr knows_f"
    by (simp add: read_first_disk)
  have older: "state_map older_state [Normal ''f''] = Some older_f"
    by (simp add: state_map_def older_state_def instance_paths)
  have "plan_map (sr_sync_plan response) [Normal ''f''] = Some (direction_i32 Download, Some (fm_modified_ts older_f))"
    by (rule unchanged_file_is_downloaded[OF codec_one second_sync_saved read knows_f_normal refl upcoming older])
      (simp_all add: instance_maps)
  moreover have "proto_timestamp_gt (fm_modified_ts meta_f) (fm_modified_ts older_f)"
    by (simp add: meta_f_def older_f_def proto_timestamp_gt_def)
  ultimately show ?thesis using upcoming by blast
qed

text \<open>The first sync of that client, with the transfers as the pool carries them out.\<close>

definition instance_client :: party where
  "instance_client = \<lparr>pa_fs = client_disk, pa_clean = lexical_clean, pa_blake3 = id, pa_config = example_config,
     pa_life = (\<lambda>_. None)\<rparr>"

definition instance_server :: party where
  "instance_server = \<lparr>pa_fs = example_tree [''f'' \<mapsto> [7]], pa_clean = lexical_clean, pa_blake3 = id,
     pa_config = example_config, pa_life = (\<lambda>_. None)\<rparr>"

definition plan_f :: FileAction where
  "plan_f = \<lparr>fa_path = ''f'', fa_direction = 1, fa_timestamp_latest_modified = Some \<lparr>ts_seconds = 3, ts_nanos = 0\<rparr>\<rparr>"

lemma instance_locations:
  "client_path instance_client plan_f = ''/srv/f''" "server_path instance_server plan_f = ''/srv/f''"
  "resolve F (tmp_file ''/srv/f'') = [''srv'', ''f.tmp'']"
proof -
  have "path_join ''/srv'' ''f'' = ''/srv/f''" by code_simp
  then show "client_path instance_client plan_f = ''/srv/f''"
    by (simp add: client_path_def instance_client_def plan_f_def)
  show "server_path instance_server plan_f = ''/srv/f''"
    by (simp add: server_path_def instance_server_def plan_f_def example_paths(4))
  have "components (tmp_file ''/srv/f'') = [RootDir, Normal ''srv'', Normal ''f.tmp'']" by code_simp
  then show "resolve F (tmp_file ''/srv/f'') = [''srv'', ''f.tmp'']" by (simp add: resolve_def)
qed

lemma instance_ready:
  "ready utimens instance_client instance_server (\<lambda>_. [7]) plan_f
     \<lparr>client_files = client_disk, server_files = example_tree [''f'' \<mapsto> [7]]\<rparr>"
proof -
  have disk: "nodes client_disk [''srv'', ''f''] = None" "missing_kind client_disk [''srv'', ''f''] = NotFound"
    "fault client_disk k = None" "is_dir client_disk [''srv'']" "\<not> is_dir client_disk [''srv'', ''f.tmp'']" for k
    by (simp_all add: client_disk_def missing_kind_def is_dir_def upt_conv_Cons)
  have absent: "fs_read client_disk ''/srv/f'' = Inl NotFound" "\<not> fs_exists client_disk ''/srv/f''"
    by (simp_all add: fs_read_def fs_exists_def lookup_file_def is_dir_def instance_paths disk Let_def)
  have "can_replace client_disk ''/srv/f''"
    unfolding can_replace_def instance_locations instance_paths using disk by (simp add: is_dir_def)
  moreover have "strong_separates id 2 [] [7]" by (simp add: strong_separates_def chunks.simps)
  ultimately have "can_receive id 2 client_disk ''/srv/f'' [7]"
    using absent example_paths(5) by (auto simp: can_receive_def isize_max_def chunks.simps)
  moreover have "fs_read (example_tree [''f'' \<mapsto> [7]]) ''/srv/f'' = Inr [7]" by (rule example_read) simp
  moreover have "pa_clean instance_client = lexical_clean" "pa_clean instance_server = lexical_clean"
    "pa_blake3 instance_client = id" "pa_blake3 instance_server = id" "pa_config instance_client = example_config"
    "pa_config instance_server = example_config" "pa_life instance_client q = None" "pa_life instance_server q = None"
    "pa_fs instance_client = client_disk" "pa_fs instance_server = example_tree [''f'' \<mapsto> [7]]" for q
    by (simp_all add: instance_client_def instance_server_def)
  moreover have "fa_path plan_f = ''f''" "fa_direction plan_f = 1" by (simp_all add: plan_f_def)
  ultimately show ?thesis
    by (simp add: ready_def sane_def instance_locations example_paths(4) utimens.mtime_setter_axioms)
qed

lemma first_sync_plan:
  "\<exists>response. prepare_sync decode_one id (\<lambda>_. []) 5 ''u'' example_config (Inr ()) answer_f client_disk = Inr (nothing, response) \<and>
     sr_sync_plan response = [plan_f]"
proof -
  have read: "generate_state client_disk id (\<lambda>_. []) 5 ''/srv'' True = Inr nothing"
    by (simp add: generate_state_def nothing_def)
  have same: "compare_states \<lparr>last_sync_timestamp_micros = 0, tree = []\<rparr> nothing = Inr []"
    unfolding nothing_def by code_simp
  have "generate_sync_plan server_state [] = Inr [plan_f]" by code_simp
  then obtain response where "send_state_to_server answer_f ''u'' 0 [] = Inr response" "sr_sync_plan response = [plan_f]"
    by (auto simp: send_state_to_server_def answer_f_def service_answer_def harmonize_client_initiate_sync_def)
  then show ?thesis by (simp add: prepare_sync_def load_client_disk read same)
qed

theorem sync_makes_files_agree_witness:
  "\<exists>transfers F' G' r. run_sync decode_one encode_one id (\<lambda>_. []) 5 ''u'' example_config (Inr ()) answer_f transfers client_disk =
       Some (F', r) \<and>
     contents client_disk ''/srv/f'' = None \<and> contents F' ''/srv/f'' = Some [7] \<and> contents G' ''/srv/f'' = Some [7]"
proof -
  let ?w = "\<lparr>client_files = client_disk, server_files = example_tree [''f'' \<mapsto> [7]]\<rparr>"
  let ?task = "transfer_task utimens instance_client instance_server"
  obtain response where ask: "prepare_sync decode_one id (\<lambda>_. []) 5 ''u'' example_config (Inr ()) answer_f client_disk =
      Inr (nothing, response)" and plan: "sr_sync_plan response = [plan_f]"
    using first_sync_plan by blast
  obtain k p where run: "(pool_step ?task ^^ k) (start_pool [plan_f] ?w) p" and stuck: "\<nexists>q. pool_step ?task p q"
    using pool_runs_out by blast
  have "pool_done p"
    using sync.pool_delivers[OF run, of "\<lambda>_. [7]"] instance_ready stuck by simp
  let ?transfers = "\<lambda>_ _. Some (client_files (world p))"
  have "\<exists>F' r. run_sync decode_one encode_one id (\<lambda>_. []) 5 ''u'' example_config (Inr ()) answer_f ?transfers client_disk =
      Some (F', r)"
    by (cases "from_anyhow (save_state encode_one nothing (client_files (world p)))") (simp_all add: run_sync_def ask)
  then obtain F' r where result: "run_sync decode_one encode_one id (\<lambda>_. []) 5 ''u'' example_config (Inr ()) answer_f ?transfers client_disk =
      Some (F', r)" by blast
  have pa: "pa_blake3 instance_client = id" "pa_config instance_client = example_config" "pa_fs instance_client = client_disk"
    by (simp_all add: instance_client_def)
  have "contents F' ''/srv/f'' = Some [7]" "contents (server_files (world p)) ''/srv/f'' = Some [7]"
    using sync_makes_files_agree[where C = instance_client and S = instance_server and B = "\<lambda>_. [7]" and transfers = ?transfers
        and G = "example_tree [''f'' \<mapsto> [7]]" and set_file_mtime = utimens, unfolded pa, OF ask[unfolded answer_f_def] load_client_disk]
      run \<open>pool_done p\<close> result[unfolded answer_f_def] instance_ready
    by (simp_all add: plan instance_locations instance_paths)
  moreover have "contents client_disk ''/srv/f'' = None"
    by (simp add: contents_def instance_paths) (simp add: client_disk_def)
  ultimately show ?thesis using result by blast
qed

end
