(* ===== verification/Server_Start.thy ===== *)
theory Server_Start
  imports Bootstrap
begin

section \<open>Starting the server\<close>

text \<open>
  Models \<open>main\<close> of src/bin/server.rs up to the point where the listeners run: load the
  configuration, make or find the identity, load the configuration again with the address
  replaced, and decide whether the service that hands out the certificate is started.  The
  parameters are those of Sync_Config and Bootstrap; \<open>addr_of\<close> is the parser of
  \<open>SocketAddr\<close>, which yields the text of the address with a port put in, \<open>tls_ok\<close> whether tonic accepts an identity.
  \<open>user\<close> and \<open>user'\<close> are the two lines the user types if a configuration is missing at
  the first and at the second load.
\<close>

record server_start =
  ss_identity :: "byte list \<times> byte list"
  ss_service :: HarmonicService
  ss_bootstrap_addr :: string
  ss_bootstrap_cert :: "PathBuf option"

text \<open>The last part of \<open>main\<close>: the service that hands out the certificate is started for the flag
  and for a new certificate.\<close>

definition spawn_bootstrap :: "bool \<Rightarrow> bool \<Rightarrow> PathBuf \<Rightarrow> PathBuf option" where
  "spawn_bootstrap args_bootstrap generated_cert cert_path =
     (let should_run_bootstrap = args_bootstrap \<or> generated_cert
      in if should_run_bootstrap then Some cert_path else None)"

definition start_with ::
    "(string \<Rightarrow> (16 word \<Rightarrow> string) option) \<Rightarrow> (byte list \<times> byte list \<Rightarrow> bool) \<Rightarrow> bool \<Rightarrow> byte list \<times> byte list \<Rightarrow> bool \<Rightarrow> Config \<Rightarrow>
     file_system \<Rightarrow> (file_system \<times> server_start) outcome" where
  "start_with addr_of tls_ok args_bootstrap identity generated_cert config F =
     and_then (from_anyhow (Config_socket_addr addr_of config)) (\<lambda>address.
       let bootstrap_address = address 42070;
           harmonic = \<lparr>sync_sessions = Map.empty, service_config = config\<rparr>
       in if \<not> tls_ok identity then Inl Foreign
          else Inr (F, \<lparr>ss_identity = identity, ss_service = harmonic, ss_bootstrap_addr = bootstrap_address,
                        ss_bootstrap_cert = spawn_bootstrap args_bootstrap generated_cert certificate_file\<rparr>))"

definition server_main ::
    "(byte list \<Rightarrow> Config option) \<Rightarrow> (Config \<Rightarrow> byte list option) \<Rightarrow> (string \<Rightarrow> bool) \<Rightarrow> PathBuf option \<Rightarrow>
     string option \<times> string option \<Rightarrow> string option \<times> string option \<Rightarrow>
     (string \<Rightarrow> string option) \<Rightarrow> string option \<Rightarrow> (string list \<Rightarrow> (byte list \<times> byte list) option) \<Rightarrow>
     (string \<Rightarrow> string option) \<Rightarrow> (string \<Rightarrow> (16 word \<Rightarrow> string) option) \<Rightarrow> (byte list \<times> byte list \<Rightarrow> bool) \<Rightarrow> bool \<Rightarrow>
     file_system \<Rightarrow> (file_system \<times> server_start) outcome" where
  "server_main decode encode level_ok home user user' ip_of local_ip self_signed port_of addr_of tls_ok args_bootstrap F =
     and_then (from_anyhow (load_config decode encode level_ok home (fst user) (snd user) F)) (\<lambda>(config, F1).
     case get_identity ip_of local_ip self_signed config F1 of
       (F2, Inl e) \<Rightarrow> Inl (anyhow e)
     | (F2, Inr (identity, generated_cert)) \<Rightarrow>
         and_then (create_server_config port_of (load_config decode encode level_ok home (fst user') (snd user') F2))
           (\<lambda>(config', F3).
         start_with addr_of tls_ok args_bootstrap identity generated_cert config' F3))"

subsection \<open>Restarting\<close>

lemma fs_write_other_eq:
  assumes "fs_write F p c = Inr F'" "resolve F q \<noteq> resolve F p" "fs_read F q = Inr d"
  shows "fs_read_to_string F' q = fs_read_to_string F q"
  using fs_write_other[OF assms] assms(3) by (simp add: fs_read_to_string_def)

lemma fs_read_to_string_Inr: "fs_read_to_string F p = Inr b \<Longrightarrow> fs_read F p = Inr b"
  by (auto simp: fs_read_to_string_def split: sum.splits if_splits)

text \<open>After a successful load the configuration is in its file, and loading again gives it.\<close>

lemma load_config_kept:
  assumes codec: "\<forall>c b. encode c = Some b \<longrightarrow> decode b = Some c \<and> utf8_valid (bytes_to_string b)"
    and "load_config decode encode level_ok home path address F = Inr (c, F')"
  shows "\<exists>b. fs_read_to_string F' config_file_path = Inr b \<and> decode b = Some c \<and> level_ok (log_level c)"
proof (cases "fs_read_to_string F config_file_path")
  case (Inr b)
  then show ?thesis
    using assms(2) by (auto simp: load_config_def and_then_Inr_iff ok_or_def split: if_splits option.splits)
next
  case (Inl e)
  then have none: "handle_no_config encode home path address F = Inr (c, F')" and level: "level_ok (log_level c)"
    using assms(2) by (auto simp: load_config_def and_then_Inr_iff split: io_error.splits if_splits)
  have saved: "save_config encode c F = Inr F'"
    using handle_no_config_Inr[OF none] by blast
  obtain b where b: "encode c = Some b"
    using saved by (cases "encode c") (auto simp: save_config_def)
  then show ?thesis using save_config_read[OF saved b] codec level by blast
qed

lemma load_config_again:
  assumes "fs_read_to_string F config_file_path = Inr b" "decode b = Some c" "level_ok (log_level c)"
  shows "load_config decode encode level_ok home path address F = Inr (c, F)"
  using assms by (simp add: load_config_def)

lemma get_identity_keeps_config:
  assumes "get_identity ip_of local_ip self_signed config F = (F', Inr r)" "fs_read_to_string F config_file_path = Inr b"
  shows "fs_read_to_string F' config_file_path = Inr b"
proof (cases "fs_exists F certificate_file \<and> fs_exists F private_key_file")
  case True
  then show ?thesis using assms by (simp add: get_identity_def)
next
  case False
  then obtain cert key F1 where w: "fs_write F certificate_file cert = Inr F1" "fs_write F1 private_key_file key = Inr F'"
    using assms by (auto simp: get_identity_def from_io_def split: sum.splits)
  note read = fs_read_to_string_Inr[OF assms(2)]
  have 1: "fs_read F1 config_file_path = Inr b"
    by (rule fs_write_other[OF w(1) _ read]) (simp add: resolve_identity resolve_config)
  have "fs_read F' config_file_path = Inr b"
    by (rule fs_write_other[OF w(2) _ 1]) (simp add: resolve_identity resolve_config)
  then show ?thesis using assms(2) read by (simp add: fs_read_to_string_def)
qed

lemma create_server_config_Inr:
  assumes "create_server_config port_of r = Inr (c', F)"
  shows "\<exists>c. r = Inr (c, F) \<and> create_server_config port_of (Inr (c, F)) = Inr (c', F)"
proof (cases r)
  case (Inr x)
  obtain c G where x: "x = (c, G)" by (cases x)
  then have "G = F" using assms Inr by (auto simp: create_server_config_def split: option.splits)
  then show ?thesis using assms Inr x by blast
qed (use assms in \<open>simp add: create_server_config_def from_anyhow_def\<close>)

subsection \<open>Properties\<close>

text \<open>C35: Restarting a server: once it has started (asking for its configuration and making its
  certificate where these were missing), every later start, whatever is typed and whatever the
  generator would make, finds the same configuration and the same identity, and does not start
  the service that hands out the certificate unless it is told to; and the file of the
  certificate holds the certificate the server uses.\<close>

theorem restart_keeps_identity:
  assumes codec: "\<forall>c b. encode c = Some b \<longrightarrow> decode b = Some c \<and> utf8_valid (bytes_to_string b)"
    and "server_main decode encode level_ok home user user' ip_of local_ip self_signed port_of addr_of tls_ok args_bootstrap F =
      Inr (F', started)"
  shows "server_main decode encode level_ok home2 user2 user2' ip_of2 local_ip2 self_signed2 port_of addr_of tls_ok again F' =
      Inr (F', started\<lparr>ss_bootstrap_cert := (if again then Some certificate_file else None)\<rparr>) \<and>
    fs_read F' certificate_file = Inr (fst (ss_identity started))"
proof -
  obtain config F1 where load: "load_config decode encode level_ok home (fst user) (snd user) F = Inr (config, F1)"
    and first: "(case get_identity ip_of local_ip self_signed config F1 of
       (F2, Inl e) \<Rightarrow> Inl (anyhow e)
     | (F2, Inr (identity, generated_cert)) \<Rightarrow>
         and_then (create_server_config port_of (load_config decode encode level_ok home (fst user') (snd user') F2))
           (\<lambda>(config', F3). start_with addr_of tls_ok args_bootstrap identity generated_cert config' F3)) = Inr (F', started)"
    using assms(2) unfolding server_main_def and_then_Inr_iff from_anyhow_Inr by auto
  obtain F2 cert key fresh where identity: "get_identity ip_of local_ip self_signed config F1 = (F2, Inr ((cert, key), fresh))"
    using first by (cases "get_identity ip_of local_ip self_signed config F1") (auto split: sum.splits)
  obtain config' F3 where second: "create_server_config port_of (load_config decode encode level_ok home (fst user') (snd user') F2) = Inr (config', F3)"
    and third: "start_with addr_of tls_ok args_bootstrap (cert, key) fresh config' F3 = Inr (F', started)"
    using first by (auto simp: identity and_then_Inr_iff)
  obtain addr where "F3 = F'" and checks: "Config_socket_addr addr_of config' = Inr addr" "tls_ok (cert, key)"
    and started: "started = \<lparr>ss_identity = (cert, key), ss_service = \<lparr>sync_sessions = Map.empty, service_config = config'\<rparr>,
      ss_bootstrap_addr = addr 42070,
      ss_bootstrap_cert = (if args_bootstrap \<or> fresh then Some certificate_file else None)\<rparr>"
    using third by (auto simp: start_with_def spawn_bootstrap_def and_then_Inr_iff Let_def split: if_splits)
  then obtain config2 where load2: "load_config decode encode level_ok home (fst user') (snd user') F2 = Inr (config2, F')"
    and served: "create_server_config port_of (Inr (config2, F')) = Inr (config', F')"
    using create_server_config_Inr[OF second] by blast
  obtain b where b: "fs_read_to_string F1 config_file_path = Inr b" "decode b = Some config" "level_ok (log_level config)"
    using load_config_kept[OF codec load] by blast
  note b2 = get_identity_keeps_config[OF identity b(1)]
  have same: "config2 = config" "F' = F2"
    using load2 load_config_again[where level_ok = level_ok and decode = decode, OF b2 b(2,3)] by simp_all
  have "get_identity ip_of2 local_ip2 self_signed2 config F' = (F', Inr ((cert, key), False))"
    using identity_on_disk[OF identity] by (auto simp: get_identity_def same dest: fs_read_exists)
  then show ?thesis
    using load_config_again[where level_ok = level_ok and decode = decode, OF b2 b(2,3)] served checks identity_on_disk[OF identity]
    by (simp add: server_main_def start_with_def spawn_bootstrap_def same started Let_def)
qed

text \<open>A server whose configuration is there and whose certificate is not.\<close>

definition configured_disk :: file_system where
  "configured_disk = put_file [''.harmonic'', ''config.toml''] [123] (clock fresh_disk) fresh_disk"

definition decode_config :: "byte list \<Rightarrow> Config option" where
  "decode_config b = (if b = [123] then Some example_config else None)"

lemma first_start:
  "\<exists>F' started. server_main decode_config (\<lambda>_. None) (\<lambda>_. True) None (None, None) (None, None)
      (\<lambda>_. Some ''::1'') (Some ''10.0.0.1'') example_self_signed (\<lambda>_. Some ''9'') (\<lambda>_. Some (\<lambda>_. ''0.0.0.0:42070'')) (\<lambda>_. True) False configured_disk =
    Inr (F', started) \<and> ss_identity started = ([1, 2], [3]) \<and> ss_bootstrap_cert started = Some certificate_file"
proof -
  have utf8: "utf8_valid (bytes_to_string [123])" by code_simp
  have "fs_read configured_disk config_file_path = Inr [123]"
    by (simp add: fs_read_Inr resolve_config configured_disk_def) (simp add: fresh_disk_def is_dir_def)
  then have config: "fs_read_to_string configured_disk config_file_path = Inr [123]"
    using utf8 by (simp add: fs_read_to_string_def)
  have load: "load_config decode_config (\<lambda>_. None) (\<lambda>_. True) None None None F = Inr (example_config, F)"
    if "fs_read_to_string F config_file_path = Inr [123]" for F
    using that by (intro load_config_again) (simp_all add: decode_config_def)
  let ?F1 = "put_file [''.harmonic'', ''certificate.crt''] [1, 2] (clock configured_disk) configured_disk"
  let ?F2 = "put_file [''.harmonic'', ''certificate.pk''] [3] (clock ?F1) ?F1"
  have cwd: "cwd configured_disk = []" by (simp add: configured_disk_def)
  have "fs_write configured_disk certificate_file [1, 2] = Inr ?F1" "fs_write ?F1 private_key_file [3] = Inr ?F2"
    "\<not> fs_exists configured_disk certificate_file"
    by (simp_all add: fs_write_Inr fs_exists_def resolve_identity cwd Let_def)
      (simp_all add: configured_disk_def fresh_disk_def is_dir_def)
  then have identity: "get_identity (\<lambda>_. Some ''::1'') (Some ''10.0.0.1'') example_self_signed example_config configured_disk =
      (?F2, Inr (([1, 2], [3]), True))"
    by (simp add: get_identity_def example_self_signed_def Config_socket_addr_def)
  show ?thesis
    using load[OF config] load[OF get_identity_keeps_config[OF identity config]]
    by (simp add: server_main_def identity create_server_config_def start_with_def spawn_bootstrap_def Config_socket_addr_def Let_def)
qed

theorem restart_keeps_identity_witness:
  "\<exists>F' started. ss_bootstrap_cert started = Some certificate_file \<and>
    server_main decode_config (\<lambda>_. None) (\<lambda>_. True) None (None, None) (None, None)
      (\<lambda>_. None) None (\<lambda>_. None) (\<lambda>_. Some ''9'') (\<lambda>_. Some (\<lambda>_. ''0.0.0.0:42070'')) (\<lambda>_. True) False F' =
    Inr (F', started\<lparr>ss_bootstrap_cert := None\<rparr>) \<and> fs_read F' certificate_file = Inr [1, 2]"
proof -
  obtain F' started where start: "server_main decode_config (\<lambda>_. None) (\<lambda>_. True) None (None, None) (None, None)
      (\<lambda>_. Some ''::1'') (Some ''10.0.0.1'') example_self_signed (\<lambda>_. Some ''9'') (\<lambda>_. Some (\<lambda>_. ''0.0.0.0:42070'')) (\<lambda>_. True) False configured_disk =
      Inr (F', started)" and id: "ss_identity started = ([1, 2], [3])" "ss_bootstrap_cert started = Some certificate_file"
    using first_start by blast
  have "\<forall>c b. (\<lambda>_. None) c = Some b \<longrightarrow> decode_config b = Some c \<and> utf8_valid (bytes_to_string b)" by simp
  from restart_keeps_identity[OF this start, of None "(None, None)" "(None, None)" "\<lambda>_. None" None "\<lambda>_. None" False]
  show ?thesis using id by auto
qed

end
