(* ===== verification/Client_Main.thy ===== *)
theory Client_Main
  imports Sync_Run Client_Schedule Server_Start
begin

section \<open>The client as a program\<close>

text \<open>
  Composes the parts of src/bin/client.rs into its \<open>main\<close>: the globals, the choice between one sync
  and the loop (see Client_Schedule), making the connection with the certificate of \<open>get_cert\<close>
  (see Bootstrap), the sync itself (see Sync_Run), and what \<open>trigger_sync_task\<close> and \<open>main\<close> make of its
  result.

  Parameters besides those of the parts: \<open>uri_ok\<close> is whether the address is a URI, \<open>tls_ok\<close> whether
  tonic accepts a certificate, \<open>connect\<close> how the attempt to connect ends.
\<close>

text \<open>\<open>CONFIG\<close> panics when the configuration cannot be loaded.\<close>

definition client_config :: "(Config \<times> file_system) outcome \<Rightarrow> (Config \<times> file_system) outcome" where
  "client_config loaded = (case loaded of Inl _ \<Rightarrow> Inl Panic | Inr r \<Rightarrow> Inr r)"

definition start_globals :: "Args \<Rightarrow> client_globals" where
  "start_globals args = \<lparr>CERT = None, FORCE_BOOTSTRAP = args_bootstrap args\<rparr>"

definition client_begin ::
    "Args \<Rightarrow> (Config \<times> file_system) outcome \<Rightarrow> 'error + 'watcher \<Rightarrow> ('watcher \<Rightarrow> PathBuf \<Rightarrow> 'error + 'watcher) \<Rightarrow>
     (Config \<times> file_system \<times> client_globals \<times> client_mode) outcome" where
  "client_begin args loaded new_watcher watch =
     and_then (client_config loaded) (\<lambda>(config, F).
     and_then (client_main args config new_watcher watch) (\<lambda>mode. Inr (config, F, start_globals args, mode)))"

definition make_channel ::
    "(string \<Rightarrow> bool) \<Rightarrow> (byte list \<Rightarrow> bool) \<Rightarrow> (string \<Rightarrow> byte list \<Rightarrow> bool) \<Rightarrow> Config \<Rightarrow> byte list outcome \<Rightarrow> unit outcome" where
  "make_channel uri_ok tls_ok connect config cert =
     and_then cert (\<lambda>c.
       if \<not> uri_ok (server_uri config) then Inl Foreign
       else if \<not> tls_ok c then Inl Foreign
       else if \<not> connect (server_uri config) c then Inl Foreign
       else Inr ())"

text \<open>\<open>sync\<close> is \<open>run_sync\<close> after the connection was made or failed; \<open>None\<close> when the user is asked
  for ever or a transfer never returns.\<close>

definition connect_and_sync ::
    "(client_globals \<Rightarrow> file_system \<Rightarrow> (client_globals \<times> file_system \<times> byte list outcome) option) \<Rightarrow>
     (byte list outcome \<Rightarrow> unit outcome) \<Rightarrow>
     (unit outcome \<Rightarrow> file_system \<Rightarrow> (file_system \<times> unit outcome) option) \<Rightarrow>
     client_globals \<Rightarrow> file_system \<Rightarrow> (client_globals \<times> file_system \<times> unit outcome) option" where
  "connect_and_sync cert channel sync G F =
     (case cert G F of
        None \<Rightarrow> None
      | Some (G', F', r) \<Rightarrow>
          (case sync (channel r) F' of None \<Rightarrow> None | Some (F'', r') \<Rightarrow> Some (G', F'', r')))"

text \<open>The task of a sync logs an error; only a panic reaches who waits for it, as a \<open>JoinError\<close>.\<close>

definition trigger_sync_task :: "unit outcome \<Rightarrow> unit outcome" where
  "trigger_sync_task r = (case r of Inl Panic \<Rightarrow> Inl Foreign | _ \<Rightarrow> Inr ())"

text \<open>The branch of \<open>main\<close> for one sync: its result is the result of the program.\<close>

definition manual_main ::
    "(client_globals \<Rightarrow> file_system \<Rightarrow> (client_globals \<times> file_system \<times> unit outcome) option) \<Rightarrow>
     client_globals \<Rightarrow> file_system \<Rightarrow> (client_globals \<times> file_system \<times> unit outcome) option" where
  "manual_main sync G F =
     (case sync G F of None \<Rightarrow> None | Some (G', F', r) \<Rightarrow> Some (G', F', trigger_sync_task r))"

subsection \<open>A sync without a server\<close>

lemma run_sync_unconnected:
  "run_sync decode encode blake3 walkdir now sync_uuid config (Inl e) initiate transfers F = Some (F, Inl e)"
  by (simp add: run_sync_def prepare_sync_def)

lemma get_cert_loads:
  "CERT G = None \<Longrightarrow> \<not> FORCE_BOOTSTRAP G \<Longrightarrow> load_cert walkdir F = Inr c \<Longrightarrow>
     get_cert walkdir bootstrap G F = Some (G\<lparr>CERT := Some c\<rparr>, F, Inr c)"
  by (simp add: get_cert_def)

text \<open>C37: A client started without flags that has its certificate and whose server cannot be reached
  runs one sync, changes no file, and the program ends with success: the error is only logged.\<close>

theorem offline_sync_ends_with_success:
  assumes "\<not> args_bootstrap args" "\<not> args_schedule args" "\<not> args_event_based args"
    and loaded: "load_config decode_toml encode_toml level_ok home user_path user_address F0 = Inr (config, F)"
    and cert: "load_cert walkdir F = Inr c"
    and unreachable: "\<not> connect (server_uri config) c"
  shows "client_begin args (load_config decode_toml encode_toml level_ok home user_path user_address F0) new_watcher watch =
      Inr (config, F, \<lparr>CERT = None, FORCE_BOOTSTRAP = False\<rparr>, Manual) \<and>
    manual_main (connect_and_sync (get_cert walkdir bootstrap) (make_channel uri_ok tls_ok connect config)
       (\<lambda>connected. run_sync decode encode blake3 walkdir now sync_uuid config connected initiate transfers))
       \<lparr>CERT = None, FORCE_BOOTSTRAP = False\<rparr> F =
      Some (\<lparr>CERT = Some c, FORCE_BOOTSTRAP = False\<rparr>, F, Inr ())"
proof
  show "client_begin args (load_config decode_toml encode_toml level_ok home user_path user_address F0) new_watcher watch =
      Inr (config, F, \<lparr>CERT = None, FORCE_BOOTSTRAP = False\<rparr>, Manual)"
    using assms(1-3) by (simp add: client_begin_def client_config_def loaded client_main_def start_globals_def Let_def)
  have channel: "make_channel uri_ok tls_ok connect config (Inr c) = Inl Foreign"
    using unreachable by (simp add: make_channel_def)
  show "manual_main (connect_and_sync (get_cert walkdir bootstrap) (make_channel uri_ok tls_ok connect config)
       (\<lambda>connected. run_sync decode encode blake3 walkdir now sync_uuid config connected initiate transfers))
       \<lparr>CERT = None, FORCE_BOOTSTRAP = False\<rparr> F =
      Some (\<lparr>CERT = Some c, FORCE_BOOTSTRAP = False\<rparr>, F, Inr ())"
    by (simp add: manual_main_def connect_and_sync_def get_cert_loads cert channel run_sync_unconnected trigger_sync_task_def)
qed

text \<open>A client whose configuration and certificate are there.\<close>

definition installed_disk :: file_system where
  "installed_disk = put_file [''.harmonic'', ''server.crt''] [7] (clock configured_disk) configured_disk"

definition walk_cert :: "PathBuf \<Rightarrow> dir_entry option list" where
  "walk_cert p = [Some \<lparr>de_path = p, de_is_file = Some True\<rparr>]"

lemma installed_disk_loads:
  "load_config decode_config (\<lambda>_. None) (\<lambda>_. True) None None None installed_disk = Inr (example_config, installed_disk)"
  "load_cert walk_cert installed_disk = Inr [7]"
proof -
  have utf8: "utf8_valid (bytes_to_string [123])" by code_simp
  have cwd: "cwd installed_disk = []" by (simp add: installed_disk_def configured_disk_def)
  have "fs_read installed_disk config_file_path = Inr [123]" "fs_read installed_disk get_cert_path = Inr [7]"
    by (simp_all add: fs_read_Inr resolve_config resolve_identity cwd)
      (simp_all add: installed_disk_def configured_disk_def fresh_disk_def is_dir_def)
  then show "load_config decode_config (\<lambda>_. None) (\<lambda>_. True) None None None installed_disk = Inr (example_config, installed_disk)"
    "load_cert walk_cert installed_disk = Inr [7]"
    using utf8 by (auto intro!: load_config_again simp: fs_read_to_string_def decode_config_def load_cert_def
      walk_cert_def entry_name_def identity_paths)
qed

theorem offline_sync_ends_with_success_witness:
  "manual_main (connect_and_sync (get_cert walk_cert (\<lambda>_. None)) (make_channel (\<lambda>_. True) (\<lambda>_. True) (\<lambda>_ _. False) example_config)
     (\<lambda>connected. run_sync (\<lambda>_. None) (\<lambda>_. None) id walk_cert 5 ''u'' example_config connected (\<lambda>_. Inl Internal) (\<lambda>_ F. Some F)))
     \<lparr>CERT = None, FORCE_BOOTSTRAP = False\<rparr> installed_disk =
   Some (\<lparr>CERT = Some [7], FORCE_BOOTSTRAP = False\<rparr>, installed_disk, Inr ())"
  by (rule conjunct2[OF offline_sync_ends_with_success[OF _ _ _ installed_disk_loads, where
        args = "\<lparr>args_bootstrap = False, args_schedule = False, args_event_based = False\<rparr>" and
        connect = "\<lambda>_ _. False" and new_watcher = "Inl () :: unit + unit" and watch = "\<lambda>_ _. Inl ()"]])
    simp_all

end
