(* ===== verification/Sync_Cycle.thy ===== *)
theory Sync_Cycle
  imports Sync_Run Client_Schedule "HOL-Library.Countable"
begin

section \<open>Syncs that cause syncs\<close>






subsection \<open>States with the same hashes\<close>

definition hashes :: "SyncState \<Rightarrow> component list \<Rightarrow> byte list option" where
  "hashes s c = map_option fm_hash (state_map s c)"

definition normal_state :: "SyncState \<Rightarrow> bool" where
  "normal_state s \<longleftrightarrow> (\<forall>(p, m) \<in> set (tree s). normal_timestamp (fm_modified_ts m))"

lemma hashes_saved [simp]: "hashes (saved_state s) = hashes s"
  by (rule ext) (simp add: hashes_def state_map_saved option.map_comp o_def)

lemma hashes_time [simp]: "hashes (s\<lparr>last_sync_timestamp_micros := t\<rparr>) = hashes s"
  by (simp add: hashes_def state_map_def fun_eq_iff)

lemma normal_time [simp]: "normal_state (s\<lparr>last_sync_timestamp_micros := t\<rparr>) = normal_state s"
  by (simp add: normal_state_def)







subsection \<open>The state file is no file of the directory\<close>



subsection \<open>A sync that finds both sides in step\<close>










subsection \<open>The events of a sync\<close>








lemma weight_of_append [simp]: "weight_of config (es @ fs) = weight_of config es + weight_of config fs"
  by (simp add: weight_of_def)





subsection \<open>Properties\<close>










end
