(* ===== verification/Unit_Tests.thy ===== *)
theory Unit_Tests
  imports Client_Sync Client_Schedule
begin

section \<open>The tests of the repository\<close>

text \<open>
  The unit tests that the sources carry, as definitions over the model: a test is a truth value, and
  an \<open>unwrap\<close> or an \<open>expect\<close> that would panic makes it false.  That they hold of the
  definitions of the model is a check of the model against what the authors expect of the code; the
  property test of the rolling hash, which the authors sample, is proved for all its inputs.

  What a test takes from its surroundings (the directory for temporary files, the file system, the
  home directory, the parser of addresses, blake3) is an argument.
\<close>

text \<open>\<open>Path\<close>s are equal when their components are; \<open>Path::ends_with\<close>.\<close>

definition same_path :: "PathBuf \<Rightarrow> PathBuf \<Rightarrow> bool" where
  "same_path p q \<longleftrightarrow> components p = components q"

definition path_ends_with :: "PathBuf \<Rightarrow> PathBuf \<Rightarrow> bool" where
  "path_ends_with p child \<longleftrightarrow>
     (let n = length (components child); m = length (components p)
      in n \<le> m \<and> drop (m - n) (components p) = components child)"

text \<open>\<open>str::ends_with\<close>\<close>

definition str_ends_with :: "string \<Rightarrow> string \<Rightarrow> bool" where
  "str_ends_with s t \<longleftrightarrow> length t \<le> length s \<and> drop (length s - length t) s = t"

definition is_ok :: "'a outcome \<Rightarrow> bool" where
  "is_ok r = (case r of Inl _ \<Rightarrow> False | Inr _ \<Rightarrow> True)"

lemma is_ok_simps [simp]: "is_ok (Inr x)" "\<not> is_ok (Inl e)"
  by (simp_all add: is_ok_def)

definition seconds :: "i64 \<Rightarrow> Timestamp" where
  "seconds s = \<lparr>ts_seconds = s, ts_nanos = 0\<rparr>"

definition byte_run :: "nat \<Rightarrow> byte list" where
  "byte_run k = map word_of_nat [k..<k + 32]"

subsection \<open>src/sync/state.rs\<close>

definition test_file_status_vec_to_tree :: bool where
  "test_file_status_vec_to_tree =
     (let file_statuses =
        [\<lparr>fs_path = ''test1.txt'', fs_timestamp = Some \<lparr>ts_seconds = 123, ts_nanos = 456000\<rparr>,
          fs_file_type = file_type_i32 Other, fs_hash = byte_run 1\<rparr>,
         \<lparr>fs_path = ''test2.txt'', fs_timestamp = Some \<lparr>ts_seconds = 654, ts_nanos = 321000\<rparr>,
          fs_file_type = file_type_i32 Other, fs_hash = byte_run 33\<rparr>];
        t = file_status_vec_to_tree file_statuses
      in length t = 2 \<and> path_get ''test1.txt'' t = Some (byte_run 1) \<and> path_get ''test2.txt'' t = Some (byte_run 33))"

definition test_compare_states_added_file :: bool where
  "test_compare_states_added_file =
     (let before_state = \<lparr>last_sync_timestamp_micros = 1000, tree = []\<rparr>;
          now_tree = path_insert ''new_file.txt'' \<lparr>fm_hash = replicate 32 1, fm_modified_ts = seconds 2000\<rparr> [];
          now_state = \<lparr>last_sync_timestamp_micros = 2000, tree = now_tree\<rparr>
      in case compare_states before_state now_state of
           Inl _ \<Rightarrow> False
         | Inr diffs \<Rightarrow> length diffs = 1 \<and> same_path (diff_path (diffs ! 0)) ''new_file.txt'' \<and> change (diffs ! 0) = Added)"

definition test_compare_states_removed_file :: bool where
  "test_compare_states_removed_file =
     (let before_tree = path_insert ''old_file.txt'' \<lparr>fm_hash = replicate 32 1, fm_modified_ts = seconds 1000\<rparr> [];
          before_state = \<lparr>last_sync_timestamp_micros = 1000, tree = before_tree\<rparr>;
          now_state = \<lparr>last_sync_timestamp_micros = 2000, tree = []\<rparr>
      in case compare_states before_state now_state of
           Inl _ \<Rightarrow> False
         | Inr diffs \<Rightarrow> length diffs = 1 \<and> same_path (diff_path (diffs ! 0)) ''old_file.txt'' \<and> change (diffs ! 0) = Removed)"

definition test_compare_states_modified_file :: bool where
  "test_compare_states_modified_file =
     (let before_tree = path_insert ''modified.txt'' \<lparr>fm_hash = replicate 32 1, fm_modified_ts = seconds 1000\<rparr> [];
          before_state = \<lparr>last_sync_timestamp_micros = 1000, tree = before_tree\<rparr>;
          now_tree = path_insert ''modified.txt'' \<lparr>fm_hash = replicate 32 2, fm_modified_ts = seconds 2000\<rparr> [];
          now_state = \<lparr>last_sync_timestamp_micros = 2000, tree = now_tree\<rparr>
      in case compare_states before_state now_state of
           Inl _ \<Rightarrow> False
         | Inr diffs \<Rightarrow> length diffs = 1 \<and> same_path (diff_path (diffs ! 0)) ''modified.txt'' \<and>
             change (diffs ! 0) = Modified \<and> diff_modified_ts (diffs ! 0) = seconds 2000)"

definition test_compare_states_no_changes :: bool where
  "test_compare_states_no_changes =
     (let t = path_insert ''unchanged.txt'' \<lparr>fm_hash = replicate 32 1, fm_modified_ts = seconds 1000\<rparr> [];
          before_state = \<lparr>last_sync_timestamp_micros = 1000, tree = t\<rparr>;
          now_state = \<lparr>last_sync_timestamp_micros = 2000, tree = t\<rparr>
      in case compare_states before_state now_state of Inl _ \<Rightarrow> False | Inr diffs \<Rightarrow> length diffs = 0)"

definition test_generate_sync_plan_local_newer :: bool where
  "test_generate_sync_plan_local_newer =
     (let local_tree = path_insert ''file.txt'' \<lparr>fm_hash = replicate 32 1, fm_modified_ts = seconds 2000\<rparr> [];
          state_now = \<lparr>last_sync_timestamp_micros = 2000, tree = local_tree\<rparr>;
          remote_files = [\<lparr>fs_path = ''file.txt'', fs_timestamp = Some (seconds 1000),
                           fs_file_type = file_type_i32 Other, fs_hash = replicate 32 2\<rparr>]
      in case generate_sync_plan state_now remote_files of
           Inl _ \<Rightarrow> False
         | Inr plan \<Rightarrow> length plan = 1 \<and> fa_path (plan ! 0) = ''file.txt'' \<and> fa_direction (plan ! 0) = direction_i32 Download)"

definition test_generate_sync_plan_remote_newer :: bool where
  "test_generate_sync_plan_remote_newer =
     (let local_tree = path_insert ''file.txt'' \<lparr>fm_hash = replicate 32 1, fm_modified_ts = seconds 1000\<rparr> [];
          state_now = \<lparr>last_sync_timestamp_micros = 1000, tree = local_tree\<rparr>;
          remote_files = [\<lparr>fs_path = ''file.txt'', fs_timestamp = Some (seconds 2000),
                           fs_file_type = file_type_i32 Other, fs_hash = replicate 32 2\<rparr>]
      in case generate_sync_plan state_now remote_files of
           Inl _ \<Rightarrow> False
         | Inr plan \<Rightarrow> length plan = 1 \<and> fa_path (plan ! 0) = ''file.txt'' \<and> fa_direction (plan ! 0) = direction_i32 Upload)"

definition test_generate_sync_plan_files_identical :: bool where
  "test_generate_sync_plan_files_identical =
     (let local_tree = path_insert ''file.txt'' \<lparr>fm_hash = replicate 32 1, fm_modified_ts = seconds 1000\<rparr> [];
          state_now = \<lparr>last_sync_timestamp_micros = 1000, tree = local_tree\<rparr>;
          remote_files = [\<lparr>fs_path = ''file.txt'', fs_timestamp = Some (seconds 1000),
                           fs_file_type = file_type_i32 Other, fs_hash = replicate 32 1\<rparr>]
      in case generate_sync_plan state_now remote_files of
           Inl _ \<Rightarrow> False
         | Inr plan \<Rightarrow> length plan = 1 \<and> fa_direction (plan ! 0) = direction_i32 Skip)"

definition test_state_file_path :: bool where
  "test_state_file_path = path_ends_with state_file_path ''.harmonic/state.json''"

definition test_diff_to_file_status_conversion :: bool where
  "test_diff_to_file_status_conversion =
     (let diff = \<lparr>diff_path = ''test_file.txt'', change = Modified, diff_hash = byte_run 1, diff_modified_ts = seconds 123456789\<rparr>
      in case file_status_of_diff diff of
           Inl _ \<Rightarrow> False
         | Inr file_status \<Rightarrow> fs_path file_status = ''test_file.txt'' \<and>
             fs_timestamp file_status = Some (seconds 123456789) \<and> fs_hash file_status = byte_run 1)"

definition test_filemedata_constructor :: "(byte list \<Rightarrow> byte list) \<Rightarrow> file_system \<Rightarrow> PathBuf \<Rightarrow> bool" where
  "test_filemedata_constructor blake3 F dir =
     (let path = path_join dir ''file.txt''; data = map of_char ''randomdata123'' :: byte list
      in case fs_write F path data of
           Inl _ \<Rightarrow> False
         | Inr F' \<Rightarrow>
             (case FileMetadata_new F' blake3 path of Inl _ \<Rightarrow> False | Inr metadata \<Rightarrow> fm_hash metadata = blake3 data))"


lemma state_tests:
  "test_file_status_vec_to_tree" "test_compare_states_added_file" "test_compare_states_removed_file"
  "test_compare_states_modified_file" "test_compare_states_no_changes" "test_generate_sync_plan_local_newer"
  "test_generate_sync_plan_remote_newer" "test_generate_sync_plan_files_identical" "test_state_file_path"
  "test_diff_to_file_status_conversion"
  by code_simp+

text \<open>A file that could be written has a time of this century.\<close>

lemma filemetadata_test:
  assumes "fs_write F (path_join dir ''file.txt'') (map of_char ''randomdata123'') = Inr F'" "0 \<le> mt_secs (clock F)"
  shows "test_filemedata_constructor blake3 F dir"
proof -
  have "fs_read F' (path_join dir ''file.txt'') = Inr (map of_char ''randomdata123'')"
    using fs_read_after_write[OF assms(1)] .
  moreover have "fs_modified F' (path_join dir ''file.txt'') = Inr (clock F)"
    using assms(1) by (auto simp: fs_modified_def lookup_file_def fs_write_Inr is_dir_def)
  ultimately show ?thesis
    using assms by (simp add: test_filemedata_constructor_def FileMetadata_new_def Let_def)
qed


subsection \<open>src/sync/handler.rs\<close>

definition test_handle_sync_payload_server_request_file ::
    "(byte list \<Rightarrow> byte list) \<Rightarrow> (PathBuf \<Rightarrow> PathBuf) \<Rightarrow> file_system \<Rightarrow> PathBuf option \<Rightarrow> bool" where
  "test_handle_sync_payload_server_request_file blake3 clean F home =
     (let h = \<lparr>st_sink = new_channel, st_file_path = [], st_writer = None, st_dropped = []\<rparr>;
          p = FileActionP \<lparr>fa_path = ''test/path'', fa_direction = direction_i32 Download, fa_timestamp_latest_modified = None\<rparr>
      in case config_default home of
           Inl _ \<Rightarrow> False
         | Inr config \<Rightarrow>
             (case handle_sync_payload F clean blake3 channel_send config (\<lambda>_. None) p h of
                None \<Rightarrow> False
              | Some (h', result) \<Rightarrow> is_ok result \<and> same_path (st_file_path h') ''test/path''))"

text \<open>The receiving end of the writer's channel is read by the test, not by a writer.\<close>

definition test_handle_sync_payload_delta ::
    "(byte list \<Rightarrow> byte list) \<Rightarrow> (PathBuf \<Rightarrow> PathBuf) \<Rightarrow> file_system \<Rightarrow> PathBuf option \<Rightarrow> bool" where
  "test_handle_sync_payload_delta blake3 clean F home =
     (let h = \<lparr>st_sink = new_channel, st_file_path = [], st_writer = Some (spawn_writer [] [] timestamp_default None), st_dropped = []\<rparr>;
          p = DeltaP \<lparr>delta_index = 0, instruction = None\<rparr>
      in case config_default home of
           Inl _ \<Rightarrow> False
         | Inr config \<Rightarrow>
             (case handle_sync_payload F clean blake3 channel_send config (\<lambda>_. None) p h of
                None \<Rightarrow> False
              | Some (h', result) \<Rightarrow> is_ok result \<and>
                  (case st_writer h' of
                     None \<Rightarrow> False
                   | Some w \<Rightarrow> (case wt_deltas w of [] \<Rightarrow> False | received # _ \<Rightarrow> delta_index received = 0))))"

lemma handler_tests:
  "test_handle_sync_payload_server_request_file blake3 clean F (Some home)"
  "test_handle_sync_payload_delta blake3 clean F (Some home)"
  by (simp_all add: test_handle_sync_payload_server_request_file_def test_handle_sync_payload_delta_def
      config_default_def handle_sync_payload_def handle_file_action_def writer_send_def spawn_writer_def same_path_def)

subsection \<open>src/sync/transfer.rs\<close>

definition test_get_absolute_path_traversal :: "(PathBuf \<Rightarrow> PathBuf) \<Rightarrow> bool" where
  "test_get_absolute_path_traversal clean =
     (let sync_path = ''/tmp/sync'';
          result_abs = get_absolute_path clean ''/etc/passwd'' sync_path;
          result_rel = get_absolute_path clean ''../../etc/passwd'' sync_path
      in \<not> is_ok result_abs \<and> \<not> is_ok result_rel)"

definition test_generate_delta_panic_repro :: "(byte list \<Rightarrow> byte list) \<Rightarrow> file_system \<Rightarrow> PathBuf \<Rightarrow> bool" where
  "test_generate_delta_panic_repro blake3 F file_path =
     (let block_size = 4; data = [0, 1, 2, 3, 4, 5, 6, 7, 8] :: byte list
      in case (fs_write F file_path data, buz_new block_size) of
           (Inr F', Inr buz_hasher) \<Rightarrow>
             (let weak = bz_hash (buz_compute buz_hasher (slice_at data 4 4));
                  strong = blake3 (slice_at data 4 4);
                  block_sig = \<lparr>weak_checksum = weak, strong_checksum = strong\<rparr>;
                  signatures = \<lparr>block_size = word_of_nat block_size, blocks = [block_sig]\<rparr>
              in case send_delta_from_block_signatures F' blake3 channel_send file_path signatures new_channel of
                   None \<Rightarrow> False
                 | Some (_, result) \<Rightarrow> is_ok result)
         | _ \<Rightarrow> False)"

lemma traversal_test: "test_get_absolute_path_traversal lexical_clean"
  by code_simp

text \<open>The signatures of the test are those of a file with the four bytes.\<close>

lemma panic_repro_test:
  assumes "fs_write F file_path [0, 1, 2, 3, 4, 5, 6, 7, 8] = Inr F'"
  shows "test_generate_delta_panic_repro blake3 F file_path"
proof -
  let ?data = "[0, 1, 2, 3, 4, 5, 6, 7, 8] :: byte list"
  obtain b where b: "buz_new 4 = Inr b" "buz_sized b 4" using buz_new_cases[of 4] by (auto simp: isize_max_def)
  have block: "slice_at ?data 4 4 = [4, 5, 6, 7]" by (simp add: slice_at_def)
  have "signed blake3 4 [4, 5, 6, 7] =
      \<lparr>block_size = 4, blocks = [\<lparr>weak_checksum = bz_hash (buz_compute b [4, 5, 6, 7]), strong_checksum = blake3 [4, 5, 6, 7]\<rparr>]\<rparr>"
    using b(2) by (simp add: signed_def signatures_of_def chunks.simps buz_compute_def buz_sized_def)
  moreover have "fs_read F' file_path = Inr ?data" using fs_read_after_write[OF assms] .
  moreover have "unat (4 :: u64) = 4" by simp
  ultimately have "send_delta_from_block_signatures F' blake3 channel_send file_path
      \<lparr>block_size = 4, blocks = [\<lparr>weak_checksum = bz_hash (buz_compute b [4, 5, 6, 7]), strong_checksum = blake3 [4, 5, 6, 7]\<rparr>]\<rparr> new_channel =
    Some (send_all channel_send (map delta_message (deltas_for blake3 4 [4, 5, 6, 7] ?data) @ [request (Complete True)]) new_channel)"
    using send_delta_signed[of F' file_path ?data 4 blake3 channel_send "[4, 5, 6, 7]" new_channel] by (simp add: isize_max_def)
  then show ?thesis
    using assms b(1) block by (simp add: test_generate_delta_panic_repro_def channel_send_all_open new_channel_def)
qed

subsection \<open>src/sync/config.rs\<close>

definition test_config_dir_path :: bool where
  "test_config_dir_path = path_ends_with config_dir_path ''.harmonic''"

definition test_config_file_path :: bool where
  "test_config_file_path = path_ends_with config_file_path ''.harmonic/config.toml''"

text \<open>The four tests of \<open>server_uri\<close>; \<open>port\<close> is the parser of \<open>SocketAddr\<close> and its port.\<close>

definition test_server_uri_ipv4 :: "(string \<Rightarrow> nat option) \<Rightarrow> bool" where
  "test_server_uri_ipv4 port =
     (let config = \<lparr>sync_path = ''/tmp/test'', socket_addr = ''192.168.1.100:42069'', schedule_delay = 3600,
            log_level = ''debug'', sync_threshold = 20, modify_weight = 2, remove_weight = 5, create_weight = 10,
            config_block_size = 8192\<rparr>
      in server_uri config = ''https://192.168.1.100:42069'' \<and> port (socket_addr config) = Some 42069)"

definition test_server_uri_ipv6 :: "(string \<Rightarrow> nat option) \<Rightarrow> bool" where
  "test_server_uri_ipv6 port =
     (let config = \<lparr>sync_path = ''/tmp/test'', socket_addr = ''[::1]:42069'', schedule_delay = 3600,
            log_level = ''debug'', sync_threshold = 20, modify_weight = 2, remove_weight = 5, create_weight = 10,
            config_block_size = 8192\<rparr>
      in server_uri config = ''https://[::1]:42069'' \<and> port (socket_addr config) = Some 42069)"

definition test_server_uri_ipv6_all_interfaces :: "(string \<Rightarrow> nat option) \<Rightarrow> bool" where
  "test_server_uri_ipv6_all_interfaces port =
     (let config = \<lparr>sync_path = ''/tmp/test'', socket_addr = ''[::]:42069'', schedule_delay = 3600,
            log_level = ''debug'', sync_threshold = 20, modify_weight = 2, remove_weight = 5, create_weight = 10,
            config_block_size = 8192\<rparr>
      in server_uri config = ''https://[::]:42069'' \<and> port (socket_addr config) = Some 42069)"

definition test_server_uri_ipv4_all_interfaces :: "(string \<Rightarrow> nat option) \<Rightarrow> bool" where
  "test_server_uri_ipv4_all_interfaces port =
     (let config = \<lparr>sync_path = ''/tmp/test'', socket_addr = ''0.0.0.0:42069'', schedule_delay = 3600,
            log_level = ''debug'', sync_threshold = 20, modify_weight = 2, remove_weight = 5, create_weight = 10,
            config_block_size = 8192\<rparr>
      in server_uri config = ''https://0.0.0.0:42069'' \<and> port (socket_addr config) = Some 42069)"

lemma config_tests: "test_config_dir_path" "test_config_file_path"
  by code_simp+

lemma server_uri_tests:
  "port ''192.168.1.100:42069'' = Some 42069 \<Longrightarrow> test_server_uri_ipv4 port"
  "port ''[::1]:42069'' = Some 42069 \<Longrightarrow> test_server_uri_ipv6 port"
  "port ''[::]:42069'' = Some 42069 \<Longrightarrow> test_server_uri_ipv6_all_interfaces port"
  "port ''0.0.0.0:42069'' = Some 42069 \<Longrightarrow> test_server_uri_ipv4_all_interfaces port"
  by (simp_all add: test_server_uri_ipv4_def test_server_uri_ipv6_def test_server_uri_ipv6_all_interfaces_def
      test_server_uri_ipv4_all_interfaces_def server_uri_def)


subsection \<open>src/utils/hash.rs\<close>

text \<open>The property test; its sampler draws windows of 1 to 49 bytes and data of 100 to 999 bytes.\<close>

definition test_rolling_hash :: "byte list \<Rightarrow> nat \<Rightarrow> bool" where
  "test_rolling_hash data window_size =
     (let window = drop (length data - window_size) data
      in case buz_new window_size of
           Inl _ \<Rightarrow> False
         | Inr hasher \<Rightarrow>
             (let expected_hash = bz_hash (buz_compute hasher window);
                  rolling_hasher = buz_compute hasher (slice_at data 0 window_size)
              in case roll_all buz_roll rolling_hasher (drop window_size data) of
                   Inl _ \<Rightarrow> False
                 | Inr h \<Rightarrow> bz_hash h = expected_hash))"

subsection \<open>src/bin/client.rs\<close>

definition test_calculate_change_score :: "PathBuf option \<Rightarrow> bool" where
  "test_calculate_change_score home =
     (case config_default home of
        Inl _ \<Rightarrow> False
      | Inr config \<Rightarrow>
          calculate_change_score Modify config = modify_weight config \<and>
          calculate_change_score Remove config = remove_weight config \<and>
          calculate_change_score Create config = create_weight config \<and>
          calculate_change_score Unmatched config = 0)"

definition test_should_trigger_sync :: "PathBuf option \<Rightarrow> bool" where
  "test_should_trigger_sync home =
     (case config_default home of
        Inl _ \<Rightarrow> False
      | Inr config \<Rightarrow>
          \<not> should_trigger_sync (sync_threshold config) config \<and>
          should_trigger_sync (sync_threshold config + 1) config \<and>
          \<not> should_trigger_sync (sync_threshold config - 1) config \<and>
          \<not> should_trigger_sync 0 config)"

definition test_file_path_is_relative :: bool where
  "test_file_path_is_relative =
     (let file_path = ''test/file.txt'' in \<not> is_absolute file_path \<and> to_str file_path = Some ''test/file.txt'')"

definition test_abs_file_path_construction :: bool where
  "test_abs_file_path_construction =
     (let abs_file_path = path_join ''/Users/test/sync'' ''test/file.txt''
      in is_absolute abs_file_path \<and> to_str abs_file_path = Some ''/Users/test/sync/test/file.txt'')"

definition test_relative_path_with_get_absolute_path :: "(PathBuf \<Rightarrow> PathBuf) \<Rightarrow> bool" where
  "test_relative_path_with_get_absolute_path clean =
     (case get_absolute_path clean ''test/file.txt'' ''/Users/test/sync'' of
        Inl _ \<Rightarrow> False
      | Inr abs_path \<Rightarrow> is_absolute abs_path \<and>
          (case to_str abs_path of None \<Rightarrow> False | Some s \<Rightarrow> str_ends_with s ''test/file.txt''))"

definition test_absolute_path_rejected_by_get_absolute_path :: "(PathBuf \<Rightarrow> PathBuf) \<Rightarrow> bool" where
  "test_absolute_path_rejected_by_get_absolute_path clean =
     (\<not> is_ok (get_absolute_path clean ''/Users/test/sync/test/file.txt'' ''/Users/test/sync''))"

definition test_path_traversal_rejected_by_get_absolute_path :: "(PathBuf \<Rightarrow> PathBuf) \<Rightarrow> bool" where
  "test_path_traversal_rejected_by_get_absolute_path clean =
     (\<not> is_ok (get_absolute_path clean ''../../../etc/passwd'' ''/Users/test/sync''))"

definition test_empty_file_path_handling ::
    "(byte list \<Rightarrow> byte list) \<Rightarrow> (PathBuf \<Rightarrow> PathBuf) \<Rightarrow> file_system \<Rightarrow> PathBuf option \<Rightarrow> PathBuf \<Rightarrow> bool" where
  "test_empty_file_path_handling blake3 clean F home temp_dir =
     (let test_file = path_join temp_dir ''harmonic_test_empty.txt''; relative_path = ''harmonic_test_empty.txt''
      in case (config_default home, fs_write F test_file []) of
           (Inr config, Inr F') \<Rightarrow>
             (let test_config = config\<lparr>sync_path := temp_dir\<rparr>
              in is_ok (generate_blocks_signatures F' clean blake3 relative_path (sync_path test_config)
                   (config_block_size test_config)))
         | _ \<Rightarrow> False)"

definition test_nonexistent_file_path_handling ::
    "(byte list \<Rightarrow> byte list) \<Rightarrow> (PathBuf \<Rightarrow> PathBuf) \<Rightarrow> file_system \<Rightarrow> PathBuf option \<Rightarrow> PathBuf \<Rightarrow> bool" where
  "test_nonexistent_file_path_handling blake3 clean F home temp_dir =
     (let relative_path = ''harmonic_test_nonexistent_file_12345.txt''
      in case config_default home of
           Inl _ \<Rightarrow> False
         | Inr config \<Rightarrow>
             (let test_config = config\<lparr>sync_path := temp_dir\<rparr>
              in case generate_blocks_signatures F clean blake3 relative_path (sync_path test_config)
                   (config_block_size test_config) of
                   Inl _ \<Rightarrow> False
                 | Inr (signatures, cache) \<Rightarrow> length (blocks signatures) = 0 \<and> length cache = 0))"

lemma client_tests:
  "test_calculate_change_score (Some home)" "test_should_trigger_sync (Some home)"
  "test_file_path_is_relative" "test_abs_file_path_construction"
  "test_relative_path_with_get_absolute_path lexical_clean"
  "test_absolute_path_rejected_by_get_absolute_path lexical_clean"
  "test_path_traversal_rejected_by_get_absolute_path lexical_clean"
proof -
  show "test_calculate_change_score (Some home)" by (simp add: test_calculate_change_score_def config_default_def)
  show "test_should_trigger_sync (Some home)"
    by (simp add: test_should_trigger_sync_def config_default_def should_trigger_sync_def)
  show "test_file_path_is_relative" "test_abs_file_path_construction"
    "test_relative_path_with_get_absolute_path lexical_clean"
    "test_absolute_path_rejected_by_get_absolute_path lexical_clean"
    "test_path_traversal_rejected_by_get_absolute_path lexical_clean"
    by code_simp+
qed

lemma default_block_size: "config_default (Some home) = Inr c \<Longrightarrow> config_block_size c = 8192"
  by (auto simp: config_default_def)

lemma empty_file_test:
  assumes "get_absolute_path clean ''harmonic_test_empty.txt'' dir = Inr (path_join dir ''harmonic_test_empty.txt'')"
    and "fs_write F (path_join dir ''harmonic_test_empty.txt'') [] = Inr F'"
  shows "test_empty_file_path_handling blake3 clean F (Some home) dir"
proof -
  have "fs_read F' (path_join dir ''harmonic_test_empty.txt'') = Inr []" using fs_read_after_write[OF assms(2)] .
  from generate_blocks_signatures_ok[OF assms(1) this, of 8192 blake3] show ?thesis
    using assms(2) by (simp add: test_empty_file_path_handling_def config_default_def isize_max_def)
qed

lemma nonexistent_file_test:
  assumes "get_absolute_path clean ''harmonic_test_nonexistent_file_12345.txt'' dir = Inr q" "fs_read F q = Inl NotFound"
  shows "test_nonexistent_file_path_handling blake3 clean F (Some home) dir"
  using generate_blocks_signatures_NotFound[OF assms, of 8192 blake3]
  by (simp add: test_nonexistent_file_path_handling_def config_default_def isize_max_def signed_empty)

subsection \<open>Properties\<close>

text \<open>The property test of the rolling hash never fails, whatever data and window are drawn: rolling over
  the data byte by byte ends with the hash of the last window.\<close>

theorem rolling_hash_test_never_fails:
  assumes "0 < window_size" "window_size \<le> length data" "window_size \<le> isize_max"
  shows "test_rolling_hash data window_size"
proof -
  obtain b where b: "buz_new window_size = Inr b" "buz_sized b window_size" using buz_new_cases[OF assms(3)] by blast
  then have "roll_all buz_roll (buz_compute b (take window_size data)) (drop window_size data) =
      Inr (buz_compute b (drop (length data - window_size) data))"
    using assms by (intro rolling_reaches_last_window) (simp_all add: buz_sized_def)
  then show ?thesis by (simp add: test_rolling_hash_def b(1) slice_at_def)
qed

theorem rolling_hash_test_never_fails_witness: "test_rolling_hash [1, 2, 3, 4, 5] 3"
  by (rule rolling_hash_test_never_fails) (simp_all add: isize_max_def)

end
